(* ===== verification/Prelude.thy ===== *)
theory Prelude
  imports Main "HOL-Library.AList" "HOL-Library.Sublist" "HOL-Library.List_Lexorder"
    "HOL-Library.Char_ord" "HOL-Library.Product_Lexorder" "HOL-Library.Multiset"
    "HOL-Library.Code_Target_Int" "HOL-Library.Code_Target_Nat"
begin

section \<open>Prelude: results, association lists, orders\<close>

text \<open>
  What every component shares: the error values of the program with the result type built
  on them, Go maps as association lists with distinct keys, the order in which a Go
  \<open>range\<close> over a map visits the keys, and the facts about lists the proofs use.
  Go leaves the iteration order of a map open, so each such loop takes its order from a
  parameter \<open>ord\<close>: loop number \<open>n\<close> over the keys \<open>ks\<close> visits \<open>ord n ks\<close>, which
  \<open>map_order\<close> requires to be a permutation of \<open>ks\<close>.
\<close>

named_theorems store_simps "how the tables change under one operation of the store"
named_theorems inv_intros "operations keep the invariant of the database"
named_theorems frame_simps "what an operation leaves as it was"

subsection \<open>Errors and results\<close>

text \<open>
  \<open>Ignored\<close> is the sentinel \<open>ports.ErrIgnoredEvent\<close>; \<open>Msg\<close> is \<open>errors.New\<close>;
  \<open>Wrap\<close> is \<open>fmt.Errorf\<close> with \<open>%w\<close>; \<open>Canceled\<close> is \<open>context.Canceled\<close>;
  \<open>NoRows\<close> is \<open>sql.ErrNoRows\<close>; \<open>Driver\<close> is an error of the database driver.
\<close>

datatype go_error =
    Ignored
  | Msg string
  | Wrap string go_error
  | Canceled
  | NoRows
  | Driver string

type_synonym 'a res = "go_error + 'a"

text \<open>\<open>errors.Is\<close> looks through the wrapped errors.\<close>

fun errors_is :: "go_error \<Rightarrow> go_error \<Rightarrow> bool" where
  "errors_is (Wrap m e) target = (Wrap m e = target \<or> errors_is e target)"
| "errors_is e target = (e = target)"

lemma errors_is_refl [simp]: "errors_is e e"
  by (cases e) auto

subsection \<open>Go maps as association lists\<close>

text \<open>
  The keys of a map are distinct; \<open>AList.update\<close> is \<open>m[k] = v\<close>. The list order is
  never meaningful by itself: loops over a map go through \<open>visit\<close>.
\<close>

type_synonym ('k, 'v) gomap = "('k \<times> 'v) list"

type_synonym ord = "nat \<Rightarrow> string list \<Rightarrow> string list"

definition map_order :: "ord \<Rightarrow> bool" where
  "map_order ord \<longleftrightarrow> (\<forall>n ks. mset (ord n ks) = mset ks)"

definition visit :: "ord \<Rightarrow> nat \<Rightarrow> (string, 'v) gomap \<Rightarrow> (string \<times> 'v) list" where
  "visit ord n m = List.map_filter (\<lambda>k. map_option (Pair k) (map_of m k)) (ord n (map fst m))"

lemma map_order_id [simp]: "map_order (\<lambda>_ ks. ks)"
  by (simp add: map_order_def)

lemma map_order_rev [simp]: "map_order (\<lambda>_ ks. rev ks)"
  by (simp add: map_order_def)

lemma map_order_set: "map_order ord \<Longrightarrow> set (ord n ks) = set ks"
  unfolding map_order_def by (metis set_mset_mset)

lemma map_order_distinct: "map_order ord \<Longrightarrow> distinct (ord n ks) = distinct ks"
  unfolding map_order_def by (metis mset_eq_imp_distinct_iff)

lemma map_order_Nil: "map_order ord \<Longrightarrow> ord n [] = []"
  unfolding map_order_def by (metis mset_zero_iff)

lemma map_order_single: "map_order ord \<Longrightarrow> ord n [k] = [k]"
  unfolding map_order_def by (metis mset_single_iff_right)

lemma visit_eq:
  assumes "map_order ord"
  shows "visit ord n m = map (\<lambda>k. (k, the (map_of m k))) (ord n (map fst m))"
proof -
  have "\<And>ks. set ks \<subseteq> fst ` set m \<Longrightarrow>
    List.map_filter (\<lambda>k. map_option (Pair k) (map_of m k)) ks
      = map (\<lambda>k. (k, the (map_of m k))) ks"
  proof -
    fix ks
    show "set ks \<subseteq> fst ` set m \<Longrightarrow>
      List.map_filter (\<lambda>k. map_option (Pair k) (map_of m k)) ks
        = map (\<lambda>k. (k, the (map_of m k))) ks"
    proof (induction ks)
      case Nil
      then show ?case by (simp add: List.map_filter_def)
    next
      case (Cons k ks)
      then have "map_of m k \<noteq> None"
        by (simp add: map_of_eq_None_iff)
      with Cons show ?case
        by (auto simp: List.map_filter_def)
    qed
  qed
  then show ?thesis
    unfolding visit_def using assms by (simp add: map_order_set)
qed

lemma set_visit:
  assumes "map_order ord" "distinct (map fst m)"
  shows "set (visit ord n m) = set m"
proof -
  have "set (visit ord n m) = (\<lambda>k. (k, the (map_of m k))) ` fst ` set m"
    using assms by (simp add: visit_eq map_order_set)
  also have "\<dots> = set m"
    using assms(2) by (force simp: image_iff)
  finally show ?thesis .
qed

lemma map_fst_visit: "map_order ord \<Longrightarrow> map fst (visit ord n m) = ord n (map fst m)"
  by (simp add: visit_eq comp_def)

lemma distinct_visit:
  "map_order ord \<Longrightarrow> distinct (map fst m) \<Longrightarrow> distinct (map fst (visit ord n m))"
  by (simp add: map_fst_visit map_order_distinct)

lemma visit_Nil [simp]: "map_order ord \<Longrightarrow> visit ord n [] = []"
  by (simp add: visit_eq map_order_Nil)

lemma visit_single: "map_order ord \<Longrightarrow> visit ord n [(k, v)] = [(k, v)]"
  by (simp add: visit_eq map_order_single)

lemma distinct_update [simp]: "distinct (map fst (AList.update k v m)) = distinct (map fst m)"
  by (induction m) (auto simp: update_keys split: if_splits)

lemma set_update_distinct:
  "distinct (map fst m) \<Longrightarrow>
   set (AList.update k v m) = insert (k, v) {kv \<in> set m. fst kv \<noteq> k}"
  by (induction m) (force split: if_splits)+

subsection \<open>Lists\<close>

text \<open>A text is cut in one way at the last occurrence of a separator.\<close>

lemma last_separator:
  assumes "xs @ c # ys = xs' @ c # ys'" "c \<notin> set ys" "c \<notin> set ys'"
  shows "xs = xs' \<and> ys = ys'"
proof -
  have t: "takeWhile (\<lambda>x. x \<noteq> c) (rev (us @ c # vs)) = rev vs" if "c \<notin> set vs" for us vs
  proof -
    have "\<And>x. x \<in> set (rev vs) \<Longrightarrow> x \<noteq> c" using that by auto
    from takeWhile_append2 [of "rev vs" "\<lambda>x. x \<noteq> c" "c # rev us", OF this] show ?thesis by simp
  qed
  have "rev ys = rev ys'" using t [OF assms(2), of xs] t [OF assms(3), of xs'] assms(1) by simp
  with assms(1) show ?thesis by simp
qed

lemma map_sort_key: "map f (sort_key f xs) = sort (map f xs)"
  by (rule properties_for_sort [symmetric]) simp_all

lemma sort_key_set_take: "set (take n (sort_key f xs)) \<subseteq> set xs"
  by (metis set_sort set_take_subset)

lemma distinct_map_take: "distinct (map f xs) \<Longrightarrow> distinct (map f (take n xs))"
  by (simp add: take_map [symmetric])

lemma distinct_map_sort_key:
  "distinct (map f (sort_key g xs)) = distinct (map f xs)"
  by (metis mset_eq_imp_distinct_iff mset_map mset_sort)

lemma image_map_same: "(\<And>r. h (g r) = h r) \<Longrightarrow> h ` set (map g rows) = h ` set rows"
  by (simp add: image_image)

lemma map_fst_eq_same:
  "distinct (map f xs) \<Longrightarrow> x \<in> set xs \<Longrightarrow> y \<in> set xs \<Longrightarrow> f x = f y \<Longrightarrow> x = y"
  by (simp add: distinct_map inj_on_def)

end
