(* ===== verification/GoStrings.thy ===== *)
theory GoStrings
  imports Prelude
begin

section \<open>Go strings: bytes, runes, trimming, case, e-mail syntax\<close>

text \<open>
  A Go string is a sequence of bytes, as \<open>string\<close> (a \<open>char list\<close>) is; \<open>len\<close> is
  \<open>length\<close> and slicing is \<open>take\<close>/\<open>drop\<close>. This theory models what the program uses
  of the packages \<open>strings\<close>, \<open>strconv\<close>, \<open>unicode/utf8\<close> and \<open>net/mail\<close>.
  Case mapping (\<open>ToLower\<close>, \<open>ToUpper\<close>, \<open>EqualFold\<close>) maps the ASCII letters and leaves
  every other byte as it is, which is exact on ASCII text; white space is the full
  Unicode set.
\<close>

subsection \<open>Case\<close>

definition code :: "char \<Rightarrow> nat" where
  "code c = of_char c"

definition lower_char :: "char \<Rightarrow> char" where
  "lower_char c = (if 65 \<le> code c \<and> code c \<le> 90 then char_of (code c + 32) else c)"

definition upper_char :: "char \<Rightarrow> char" where
  "upper_char c = (if 97 \<le> code c \<and> code c \<le> 122 then char_of (code c - 32) else c)"

definition to_lower :: "string \<Rightarrow> string" where
  "to_lower s = map lower_char s"

definition to_upper :: "string \<Rightarrow> string" where
  "to_upper s = map upper_char s"

definition equal_fold :: "string \<Rightarrow> string \<Rightarrow> bool" where
  "equal_fold s t \<longleftrightarrow> to_lower s = to_lower t"

lemma code_less [simp]: "code c < 256"
  by (simp add: code_def)

lemma code_char_of [simp]: "n < 256 \<Longrightarrow> code (char_of n) = n"
  by (simp add: code_def)

lemma code_inject [simp]: "code c = code d \<longleftrightarrow> c = d"
  by (simp add: code_def)

lemma lower_char_idem [simp]: "lower_char (lower_char c) = lower_char c"
  by (simp add: lower_char_def)

lemma to_lower_idem [simp]: "to_lower (to_lower s) = to_lower s"
  by (simp add: to_lower_def)

lemma to_lower_Nil [simp]: "to_lower [] = []"
  by (simp add: to_lower_def)

lemma to_lower_eq_Nil [simp]: "to_lower s = [] \<longleftrightarrow> s = []"
  by (simp add: to_lower_def)

lemma to_lower_append [simp]: "to_lower (s @ t) = to_lower s @ to_lower t"
  by (simp add: to_lower_def)

lemma length_to_lower [simp]: "length (to_lower s) = length s"
  by (simp add: to_lower_def)

lemma equal_fold_refl [simp]: "equal_fold s s"
  by (simp add: equal_fold_def)

lemma equal_fold_sym: "equal_fold s t \<longleftrightarrow> equal_fold t s"
  by (auto simp: equal_fold_def)

lemma equal_fold_trans: "equal_fold s t \<Longrightarrow> equal_fold t u \<Longrightarrow> equal_fold s u"
  by (simp add: equal_fold_def)

text \<open>A byte that is no ASCII letter is the image of itself only.\<close>

definition no_letter :: "char \<Rightarrow> bool" where
  "no_letter c \<longleftrightarrow> \<not> (65 \<le> code c \<and> code c \<le> 90) \<and> \<not> (97 \<le> code c \<and> code c \<le> 122)"

lemma lower_char_no_letter: "no_letter d \<Longrightarrow> lower_char c = d \<longleftrightarrow> c = d"
proof -
  assume d: "no_letter d"
  show ?thesis
  proof (cases "65 \<le> code c \<and> code c \<le> 90")
    case True
    then have "code (lower_char c) = code c + 32"
      by (simp add: lower_char_def)
    with True d show ?thesis
      by (auto simp: no_letter_def)
  next
    case False
    then show ?thesis by (auto simp: lower_char_def)
  qed
qed

lemma prefix_to_lower:
  "\<forall>c \<in> set w. no_letter c \<Longrightarrow> prefix w (to_lower s) = prefix w s"
proof (induction w arbitrary: s)
  case Nil
  then show ?case by simp
next
  case (Cons c w)
  have eq: "c = lower_char d \<longleftrightarrow> c = d" for d
    using Cons.prems lower_char_no_letter [of c d] by auto
  from Cons show ?case
    by (cases s) (simp_all add: to_lower_def eq)
qed

subsection \<open>Searching, splitting and joining\<close>

text \<open>\<open>strings.Contains\<close>, \<open>strings.HasPrefix\<close>, \<open>strings.TrimRight\<close> with one byte.\<close>

definition contains :: "string \<Rightarrow> string \<Rightarrow> bool" where
  "contains s sub = sublist sub s"

definition has_prefix :: "string \<Rightarrow> string \<Rightarrow> bool" where
  "has_prefix s p = prefix p s"

definition trim_right :: "string \<Rightarrow> char \<Rightarrow> string" where
  "trim_right s c = rev (dropWhile (\<lambda>x. x = c) (rev s))"

text \<open>\<open>strings.Split\<close> with a one-byte separator, \<open>strings.FieldsFunc\<close>, \<open>strings.Join\<close>.\<close>

fun split_by :: "(char \<Rightarrow> bool) \<Rightarrow> string \<Rightarrow> string list" where
  "split_by p [] = [[]]"
| "split_by p (x # xs) =
     (if p x then [] # split_by p xs
      else (case split_by p xs of [] \<Rightarrow> [[x]] | y # ys \<Rightarrow> (x # y) # ys))"

definition split :: "string \<Rightarrow> char \<Rightarrow> string list" where
  "split s c = split_by (\<lambda>x. x = c) s"

definition fields_func :: "string \<Rightarrow> (char \<Rightarrow> bool) \<Rightarrow> string list" where
  "fields_func s p = filter (\<lambda>w. w \<noteq> []) (split_by p s)"

text \<open>\<open>strings.SplitN(s, c, 2)\<close>: \<open>None\<close> where it gives one part, else the two parts.\<close>

fun split2 :: "string \<Rightarrow> char \<Rightarrow> (string \<times> string) option" where
  "split2 [] c = None"
| "split2 (x # xs) c =
     (if x = c then Some ([], xs)
      else (case split2 xs c of None \<Rightarrow> None | Some (l, r) \<Rightarrow> Some (x # l, r)))"

fun join :: "string list \<Rightarrow> string \<Rightarrow> string" where
  "join [] sep = []"
| "join [x] sep = x"
| "join (x # y # ys) sep = x @ sep @ join (y # ys) sep"

lemma split2_Some: "split2 s c = Some (l, r) \<Longrightarrow> s = l @ c # r \<and> c \<notin> set l"
  by (induction s arbitrary: l) (auto split: if_splits option.splits prod.splits)

lemma split2_None: "split2 s c = None \<longleftrightarrow> c \<notin> set s"
  by (induction s) (auto split: option.splits)

lemma split2_eq: "c \<notin> set l \<Longrightarrow> split2 (l @ c # r) c = Some (l, r)"
  by (induction l) auto

lemma split_by_not_Nil [simp]: "split_by p s \<noteq> []"
  by (cases s) (auto split: list.splits)

lemma contains_single: "contains s [c] \<longleftrightarrow> c \<in> set s"
  unfolding contains_def sublist_def by (auto simp: in_set_conv_decomp)

lemma contains_trans: "contains s t \<Longrightarrow> contains t u \<Longrightarrow> contains s u"
  unfolding contains_def by (rule sublist_order.order_trans)

lemma contains_appendI: "contains s u \<Longrightarrow> contains (r @ s @ t) u"
  unfolding contains_def by (meson sublist_appendI sublist_order.order_trans)

lemma contains_join: "x \<in> set xs \<Longrightarrow> contains (join xs sep) x"
proof (induction xs sep rule: join.induct)
  case (3 y z zs sep)
  show ?case
  proof (cases "x = y")
    case True
    then show ?thesis
      by (simp add: contains_def sublist_def) (metis append_Nil)
  next
    case False
    with 3 have "contains (join (z # zs) sep) x" by simp
    then show ?thesis
      using contains_appendI [of "join (z # zs) sep" x "y @ sep" "[]"] by simp
  qed
qed (auto simp: contains_def)

subsection \<open>White space\<close>

text \<open>
  The UTF-8 encodings of the code points with \<open>unicode.IsSpace\<close>: TAB to CR and SPACE,
  U+0085, U+00A0, U+1680, U+2000 to U+200A, U+2028, U+2029, U+202F, U+205F, U+3000.
\<close>

definition space_codes :: "string list" where
  "space_codes =
     [[CHR 0x20], [CHR 0x09], [CHR 0x0A], [CHR 0x0D], [CHR 0x0B], [CHR 0x0C],
      [CHR 0xC2, CHR 0x85], [CHR 0xC2, CHR 0xA0], [CHR 0xE1, CHR 0x9A, CHR 0x80],
      [CHR 0xE2, CHR 0x80, CHR 0x80], [CHR 0xE2, CHR 0x80, CHR 0x81],
      [CHR 0xE2, CHR 0x80, CHR 0x82], [CHR 0xE2, CHR 0x80, CHR 0x83],
      [CHR 0xE2, CHR 0x80, CHR 0x84], [CHR 0xE2, CHR 0x80, CHR 0x85],
      [CHR 0xE2, CHR 0x80, CHR 0x86], [CHR 0xE2, CHR 0x80, CHR 0x87],
      [CHR 0xE2, CHR 0x80, CHR 0x88], [CHR 0xE2, CHR 0x80, CHR 0x89],
      [CHR 0xE2, CHR 0x80, CHR 0x8A], [CHR 0xE2, CHR 0x80, CHR 0xA8],
      [CHR 0xE2, CHR 0x80, CHR 0xA9], [CHR 0xE2, CHR 0x80, CHR 0xAF],
      [CHR 0xE2, CHR 0x81, CHR 0x9F], [CHR 0xE3, CHR 0x80, CHR 0x80]]"

fun strip_front :: "string list \<Rightarrow> string \<Rightarrow> string" where
  "strip_front ws [] = []"
| "strip_front ws (c # s) =
     (case find (\<lambda>w. w \<noteq> [] \<and> prefix w (c # s)) ws of
        None \<Rightarrow> c # s
      | Some w \<Rightarrow> strip_front ws (drop (length w - 1) s))"

definition trim_space :: "string \<Rightarrow> string" where
  "trim_space s =
     rev (strip_front (map rev space_codes) (rev (strip_front space_codes s)))"

definition bare :: "string list \<Rightarrow> string \<Rightarrow> bool" where
  "bare ws s \<longleftrightarrow> (\<forall>w \<in> set ws. w \<noteq> [] \<longrightarrow> \<not> prefix w s)"

lemma bare_strip_front: "bare ws (strip_front ws s)"
  by (induction ws s rule: strip_front.induct)
    (auto simp: bare_def find_None_iff split: option.splits)

lemma strip_front_bare: "bare ws s \<Longrightarrow> strip_front ws s = s"
proof (cases s)
  case (Cons c t)
  moreover assume "bare ws s"
  ultimately have "find (\<lambda>w. w \<noteq> [] \<and> prefix w (c # t)) ws = None"
    by (auto simp: bare_def find_None_iff)
  with Cons show ?thesis by (simp only: strip_front.simps option.case)
qed simp

lemma suffix_strip_front: "suffix (strip_front ws s) s"
proof (induction ws s rule: strip_front.induct)
  case (2 ws c s)
  show ?case
  proof (cases "find (\<lambda>w. w \<noteq> [] \<and> prefix w (c # s)) ws")
    case None
    then show ?thesis by (simp only: strip_front.simps option.case suffix_order.order_refl)
  next
    case (Some w)
    with 2 have "suffix (strip_front ws (drop (length w - 1) s)) (drop (length w - 1) s)"
      by blast
    then have "suffix (strip_front ws (drop (length w - 1) s)) (c # s)"
      by (meson suffix_ConsI suffix_drop suffix_order.order_trans)
    with Some show ?thesis by (simp only: strip_front.simps option.case)
  qed
qed simp

lemma bare_prefix: "bare ws s \<Longrightarrow> prefix t s \<Longrightarrow> bare ws t"
  unfolding bare_def by (meson prefix_order.trans)

lemma trim_space_idem [simp]: "trim_space (trim_space s) = trim_space s"
proof -
  let ?l = "strip_front space_codes s"
  let ?m = "strip_front (map rev space_codes) (rev ?l)"
  have "prefix (rev ?m) ?l"
    using suffix_strip_front [of "map rev space_codes" "rev ?l"]
    by (simp add: suffix_to_prefix)
  then have "bare space_codes (rev ?m)"
    using bare_strip_front bare_prefix by blast
  then show ?thesis
    by (simp add: trim_space_def strip_front_bare bare_strip_front)
qed

lemma trim_space_Nil [simp]: "trim_space [] = []"
  by (simp add: trim_space_def)

definition spaceless :: "string list \<Rightarrow> bool" where
  "spaceless ws \<longleftrightarrow> (\<forall>w \<in> set ws. \<forall>c \<in> set w. no_letter c)"

lemma spaceless_space_codes: "spaceless space_codes" "spaceless (map rev space_codes)"
  by (simp_all add: spaceless_def space_codes_def no_letter_def code_def)

lemma strip_front_to_lower:
  "spaceless ws \<Longrightarrow> strip_front ws (to_lower s) = to_lower (strip_front ws s)"
proof (induction ws s rule: strip_front.induct)
  case (2 ws c s)
  have eq: "find (\<lambda>w. w \<noteq> [] \<and> prefix w (to_lower (c # s))) ws
      = find (\<lambda>w. w \<noteq> [] \<and> prefix w (c # s)) ws"
    using 2(2) by (intro find_cong) (auto simp: spaceless_def prefix_to_lower)
  show ?case
  proof (cases "find (\<lambda>w. w \<noteq> [] \<and> prefix w (c # s)) ws")
    case None
    with eq show ?thesis by (simp add: to_lower_def)
  next
    case (Some w)
    with 2 have "strip_front ws (to_lower (drop (length w - 1) s))
        = to_lower (strip_front ws (drop (length w - 1) s))"
      by blast
    with Some eq show ?thesis by (simp add: to_lower_def drop_map)
  qed
qed (simp add: to_lower_def)

lemma trim_space_to_lower: "trim_space (to_lower s) = to_lower (trim_space s)"
  unfolding trim_space_def
  by (simp add: strip_front_to_lower spaceless_space_codes)
    (metis rev_map spaceless_space_codes(2) strip_front_to_lower to_lower_def)

text \<open>A string of which neither end is white space is left as it is.\<close>

lemma trim_space_bare:
  "bare space_codes s \<Longrightarrow> bare (map rev space_codes) (rev s) \<Longrightarrow> trim_space s = s"
  by (simp add: trim_space_def strip_front_bare)

subsection \<open>Runes\<close>

text \<open>
  \<open>utf8.DecodeRune\<close>: the rune at the front of a non-empty string and the bytes it
  takes; a byte that starts no well-formed encoding is U+FFFD with size 1.
  \<open>cont lo hi\<close> is a following byte in the range Go accepts.
\<close>

definition rune_error :: nat where
  "rune_error = 0xFFFD"

definition cont :: "nat \<Rightarrow> nat \<Rightarrow> nat \<Rightarrow> bool" where
  "cont lo hi b \<longleftrightarrow> lo \<le> b \<and> b \<le> hi"

fun decode_bytes :: "nat list \<Rightarrow> nat \<times> nat" where
  "decode_bytes [] = (rune_error, 0)"
| "decode_bytes (a # bs) =
     (if a < 0x80 then (a, 1)
      else case bs of
        [] \<Rightarrow> (rune_error, 1)
      | b # cs \<Rightarrow>
        if 0xC2 \<le> a \<and> a \<le> 0xDF then
          (if cont 0x80 0xBF b then ((a - 0xC0) * 64 + (b - 0x80), 2) else (rune_error, 1))
        else case cs of
          [] \<Rightarrow> (rune_error, 1)
        | c # ds \<Rightarrow>
          if 0xE0 \<le> a \<and> a \<le> 0xEF then
            (if cont (if a = 0xE0 then 0xA0 else 0x80) (if a = 0xED then 0x9F else 0xBF) b
                \<and> cont 0x80 0xBF c
             then ((a - 0xE0) * 4096 + (b - 0x80) * 64 + (c - 0x80), 3)
             else (rune_error, 1))
          else case ds of
            [] \<Rightarrow> (rune_error, 1)
          | d # _ \<Rightarrow>
            if 0xF0 \<le> a \<and> a \<le> 0xF4
               \<and> cont (if a = 0xF0 then 0x90 else 0x80) (if a = 0xF4 then 0x8F else 0xBF) b
               \<and> cont 0x80 0xBF c \<and> cont 0x80 0xBF d
            then ((a - 0xF0) * 262144 + (b - 0x80) * 4096 + (c - 0x80) * 64 + (d - 0x80), 4)
            else (rune_error, 1))"

lemma decode_bytes_size: "bs \<noteq> [] \<Longrightarrow> 1 \<le> snd (decode_bytes bs) \<and> snd (decode_bytes bs) \<le> length bs"
  by (cases bs rule: decode_bytes.cases) (auto split: list.splits)

lemma decode_drop_less:
  "length (drop (snd (decode_bytes (b # bs))) (b # bs)) < length (b # bs)"
  using decode_bytes_size [of "b # bs"] by (simp del: decode_bytes.simps)

text \<open>\<open>[]rune(s)\<close>, and whether \<open>s\<close> is well-formed UTF-8.\<close>

function runes_of :: "nat list \<Rightarrow> nat list" where
  "runes_of [] = []"
| "runes_of (b # bs) =
     fst (decode_bytes (b # bs)) # runes_of (drop (snd (decode_bytes (b # bs))) (b # bs))"
  by pat_completeness auto
termination
  by (relation "measure length", simp, simp only: in_measure decode_drop_less)

function valid_bytes :: "nat list \<Rightarrow> bool" where
  "valid_bytes [] = True"
| "valid_bytes (b # bs) =
     (decode_bytes (b # bs) \<noteq> (rune_error, 1)
      \<and> valid_bytes (drop (snd (decode_bytes (b # bs))) (b # bs)))"
  by pat_completeness auto
termination
  by (relation "measure length", simp, simp only: in_measure decode_drop_less)

definition runes :: "string \<Rightarrow> nat list" where
  "runes s = runes_of (map code s)"

definition valid_utf8 :: "string \<Rightarrow> bool" where
  "valid_utf8 s = valid_bytes (map code s)"

text \<open>\<open>string(runes)\<close>: a surrogate or a value out of range is written as U+FFFD.\<close>

definition valid_rune :: "nat \<Rightarrow> bool" where
  "valid_rune r \<longleftrightarrow> r < 0xD800 \<or> 0xDFFF < r \<and> r \<le> 0x10FFFF"

definition encode_rune :: "nat \<Rightarrow> nat list" where
  "encode_rune r0 =
     (let r = (if valid_rune r0 then r0 else rune_error) in
      if r < 0x80 then [r]
      else if r < 0x800 then [0xC0 + r div 64, 0x80 + r mod 64]
      else if r < 0x10000 then [0xE0 + r div 4096, 0x80 + r div 64 mod 64, 0x80 + r mod 64]
      else [0xF0 + r div 262144, 0x80 + r div 4096 mod 64, 0x80 + r div 64 mod 64,
            0x80 + r mod 64])"

definition string_of_runes :: "nat list \<Rightarrow> string" where
  "string_of_runes rs = map char_of (concat (map encode_rune rs))"

lemma encode_rune_bytes: "b \<in> set (encode_rune r) \<Longrightarrow> b < 256"
  unfolding encode_rune_def Let_def valid_rune_def rune_error_def
  by (auto split: if_splits)

lemma decode_two:
  "0xC2 \<le> a \<Longrightarrow> a \<le> 0xDF \<Longrightarrow> 0x80 \<le> b \<Longrightarrow> b \<le> 0xBF \<Longrightarrow>
   decode_bytes (a # b # bs) = ((a - 0xC0) * 64 + (b - 0x80), 2)"
  by (simp add: cont_def)

lemma decode_three:
  assumes "0xE0 \<le> a" "a \<le> 0xEF" "cont 0x80 0xBF c"
    and "cont (if a = 0xE0 then 0xA0 else 0x80) (if a = 0xED then 0x9F else 0xBF) b"
  shows "decode_bytes (a # b # c # bs) = ((a - 0xE0) * 4096 + (b - 0x80) * 64 + (c - 0x80), 3)"
proof -
  have "\<not> a < 0x80" "\<not> (0xC2 \<le> a \<and> a \<le> 0xDF)" using assms(1) by auto
  with assms show ?thesis
    by (simp only: decode_bytes.simps list.case if_True if_False simp_thms)
qed

lemma decode_four:
  assumes "0xF0 \<le> a" "a \<le> 0xF4" "cont 0x80 0xBF c" "cont 0x80 0xBF d"
    and "cont (if a = 0xF0 then 0x90 else 0x80) (if a = 0xF4 then 0x8F else 0xBF) b"
  shows "decode_bytes (a # b # c # d # bs)
     = ((a - 0xF0) * 262144 + (b - 0x80) * 4096 + (c - 0x80) * 64 + (d - 0x80), 4)"
proof -
  have "\<not> a < 0x80" "\<not> (0xC2 \<le> a \<and> a \<le> 0xDF)" "\<not> (0xE0 \<le> a \<and> a \<le> 0xEF)"
    using assms(1) by auto
  with assms show ?thesis
    by (simp only: decode_bytes.simps list.case if_True if_False simp_thms)
qed

lemma digits64:
  fixes r :: nat
  shows "r div 4096 * 4096 + r div 64 mod 64 * 64 + r mod 64 = r"
    and "r div 262144 * 262144 + r div 4096 mod 64 * 4096 + r div 64 mod 64 * 64 + r mod 64 = r"
proof -
  have e1: "r div 64 div 64 = r div 4096" and e2: "r div 4096 div 64 = r div 262144"
    by (simp_all flip: div_mult2_eq)
  have 1: "r div 64 * 64 + r mod 64 = r" by (rule div_mult_mod_eq)
  have 2: "r div 4096 * 64 + r div 64 mod 64 = r div 64"
    using div_mult_mod_eq [of "r div 64" 64] by (simp add: e1)
  have 3: "r div 262144 * 64 + r div 4096 mod 64 = r div 4096"
    using div_mult_mod_eq [of "r div 4096" 64] by (simp add: e2)
  from 1 2 show "r div 4096 * 4096 + r div 64 mod 64 * 64 + r mod 64 = r" by linarith
  with 3 show "r div 262144 * 262144 + r div 4096 mod 64 * 4096 + r div 64 mod 64 * 64
      + r mod 64 = r" by linarith
qed

lemma decode_encode:
  assumes "valid_rune r"
  shows "decode_bytes (encode_rune r @ bs) = (r, length (encode_rune r))"
proof -
  have r: "r < 0xD800 \<or> 0xDFFF < r \<and> r \<le> 0x10FFFF"
    using assms by (simp add: valid_rune_def)
  consider "r < 0x80" | "0x80 \<le> r" "r < 0x800" | "0x800 \<le> r" "r < 0x10000" | "0x10000 \<le> r"
    by linarith
  then show ?thesis
  proof cases
    case 1
    with assms show ?thesis by (simp add: encode_rune_def)
  next
    case 2
    then have e: "encode_rune r = [0xC0 + r div 64, 0x80 + r mod 64]"
      using assms by (simp add: encode_rune_def)
    have d: "2 \<le> r div 64" "r div 64 < 32" using 2 by auto
    have "decode_bytes (encode_rune r @ bs)
        = ((0xC0 + r div 64 - 0xC0) * 64 + (0x80 + r mod 64 - 0x80), 2)"
      unfolding e append.simps by (rule decode_two) (use d in auto)
    then show ?thesis unfolding e by simp
  next
    case 3
    then have e: "encode_rune r = [0xE0 + r div 4096, 0x80 + r div 64 mod 64, 0x80 + r mod 64]"
      using assms by (simp add: encode_rune_def)
    have lo: "r div 4096 = 0 \<Longrightarrow> 32 \<le> r div 64 mod 64" using 3 by auto
    have hi: "r div 4096 = 13 \<Longrightarrow> r div 64 mod 64 < 32"
      using digits64(1) [of r] r 3(2) by linarith
    have d: "r div 4096 < 16" "r div 64 mod 64 < 64" "r mod 64 < 64" using 3 by auto
    have "decode_bytes (encode_rune r @ bs) = ((0xE0 + r div 4096 - 0xE0) * 4096
        + (0x80 + r div 64 mod 64 - 0x80) * 64 + (0x80 + r mod 64 - 0x80), 3)"
      unfolding e append.simps by (rule decode_three) (use d lo hi in \<open>auto simp: cont_def\<close>)
    then show ?thesis unfolding e using digits64(1) [of r] by simp
  next
    case 4
    then have e: "encode_rune r = [0xF0 + r div 262144, 0x80 + r div 4096 mod 64,
        0x80 + r div 64 mod 64, 0x80 + r mod 64]"
      using assms by (simp add: encode_rune_def)
    have le: "r \<le> 0x10FFFF" using 4 r by auto
    have lo: "r div 262144 = 0 \<Longrightarrow> 16 \<le> r div 4096 mod 64" using 4 by auto
    have hi: "r div 262144 = 4 \<Longrightarrow> r div 4096 mod 64 < 16"
      using digits64(2) [of r] le by linarith
    have d: "r div 262144 \<le> 4" "r div 4096 mod 64 < 64" "r div 64 mod 64 < 64" "r mod 64 < 64"
      using le by auto
    have "decode_bytes (encode_rune r @ bs) = ((0xF0 + r div 262144 - 0xF0) * 262144
        + (0x80 + r div 4096 mod 64 - 0x80) * 4096 + (0x80 + r div 64 mod 64 - 0x80) * 64
        + (0x80 + r mod 64 - 0x80), 4)"
      unfolding e append.simps by (rule decode_four) (use d lo hi in \<open>auto simp: cont_def\<close>)
    then show ?thesis unfolding e using digits64(2) [of r] by simp
  qed
qed

lemma encode_rune_not_Nil [simp]: "encode_rune r \<noteq> []"
  by (simp add: encode_rune_def Let_def)

lemma runes_of_append:
  assumes "valid_rune r"
  shows "runes_of (encode_rune r @ bs) = r # runes_of bs"
proof -
  obtain a as where "encode_rune r = a # as" by (cases "encode_rune r") auto
  with decode_encode [OF assms, of bs] show ?thesis by (simp del: decode_bytes.simps)
qed

lemma runes_string_of_runes:
  assumes "\<forall>r \<in> set rs. valid_rune r"
  shows "runes (string_of_runes rs) = rs"
proof -
  have "map code (string_of_runes rs) = concat (map encode_rune rs)"
    unfolding string_of_runes_def
    by (auto simp: code_def map_idI encode_rune_bytes take_bit_eq_mod intro!: map_idI)
  moreover have "runes_of (concat (map encode_rune rs)) = rs"
    using assms by (induction rs) (simp_all add: runes_of_append)
  ultimately show ?thesis by (simp add: runes_def)
qed

subsection \<open>Decimal numbers\<close>

text \<open>\<open>strconv.Itoa\<close> and \<open>%d\<close>, and a number padded with zeros to a width.\<close>

definition digit :: "nat \<Rightarrow> char" where
  "digit n = char_of (48 + n mod 10)"

fun nat_string :: "nat \<Rightarrow> string" where
  "nat_string n = (if n < 10 then [digit n] else nat_string (n div 10) @ [digit n])"

declare nat_string.simps [simp del]

definition int_string :: "int \<Rightarrow> string" where
  "int_string i = (if i < 0 then ''-'' @ nat_string (nat (- i)) else nat_string (nat i))"

fun pad :: "nat \<Rightarrow> nat \<Rightarrow> string" where
  "pad 0 n = []"
| "pad (Suc w) n = pad w (n div 10) @ [digit n]"

fun number :: "string \<Rightarrow> nat option" where
  "number s = fold (\<lambda>c r. case r of None \<Rightarrow> None
     | Some n \<Rightarrow> if 48 \<le> code c \<and> code c \<le> 57 then Some (10 * n + (code c - 48)) else None)
     s (Some 0)"

lemma code_digit [simp]: "code (digit n) = 48 + n mod 10"
  unfolding digit_def by (rule code_char_of) auto

lemma length_pad [simp]: "length (pad w n) = w"
  by (induction w arbitrary: n) auto

lemma number_snoc:
  "number (s @ [digit n]) = map_option (\<lambda>m. 10 * m + n mod 10) (number s)"
  by (auto split: option.splits)

lemma number_pad: "n < 10 ^ w \<Longrightarrow> number (pad w n) = Some n"
proof (induction w arbitrary: n)
  case (Suc w)
  then have "n div 10 < 10 ^ w" by auto
  with Suc.IH have "number (pad w (n div 10)) = Some (n div 10)" .
  then show ?case by (simp only: pad.simps number_snoc option.map) simp
qed simp

lemma number_nat_string: "number (nat_string n) = Some n"
proof (induction n rule: nat_string.induct)
  case (1 n)
  show ?case
  proof (cases "n < 10")
    case True
    then show ?thesis
      using number_snoc [of "[]" n] by (simp add: nat_string.simps [of n])
  next
    case False
    with 1 have "number (nat_string (n div 10)) = Some (n div 10)" by simp
    with False show ?thesis
      by (simp only: nat_string.simps [of n] if_False number_snoc option.map) simp
  qed
qed

lemma nat_string_inject: "nat_string m = nat_string n \<Longrightarrow> m = n"
  by (metis number_nat_string option.inject)

text \<open>Numbers padded to one width are ordered as text the way they are ordered as numbers.\<close>

lemma less_char_code: "c < d \<longleftrightarrow> code c < code d"
  by (simp add: less_char_def code_def)

lemma append_less_same_length:
  fixes xs ys :: string
  assumes "length xs = length ys"
  shows "xs @ us < ys @ vs \<longleftrightarrow> xs < ys \<or> xs = ys \<and> us < vs"
  using assms by (induction xs ys rule: list_induct2) auto

lemma div_mod_less:
  fixes m n :: nat
  shows "m div 10 < n div 10 \<or> m div 10 = n div 10 \<and> m mod 10 < n mod 10 \<longleftrightarrow> m < n"
proof -
  have "m = 10 * (m div 10) + m mod 10" "n = 10 * (n div 10) + n mod 10"
    "m mod 10 < 10" "n mod 10 < 10"
    by simp_all
  then show ?thesis by linarith
qed

lemma pad_less:
  "m < 10 ^ w \<Longrightarrow> n < 10 ^ w \<Longrightarrow> pad w m < pad w n \<longleftrightarrow> m < n"
proof (induction w arbitrary: m n)
  case (Suc w)
  then have IH: "pad w (m div 10) < pad w (n div 10) \<longleftrightarrow> m div 10 < n div 10"
    by auto
  have eq: "pad w (m div 10) = pad w (n div 10) \<longleftrightarrow> m div 10 = n div 10"
    using Suc.prems number_pad [of "m div 10" w] number_pad [of "n div 10" w]
    by (metis less_mult_imp_div_less mult.commute option.inject power_Suc)
  have "pad (Suc w) m < pad (Suc w) n \<longleftrightarrow>
      m div 10 < n div 10 \<or> m div 10 = n div 10 \<and> m mod 10 < n mod 10"
    by (simp add: append_less_same_length IH eq less_char_code)
  also have "\<dots> \<longleftrightarrow> m < n"
    by (rule div_mod_less)
  finally show ?case .
qed simp

lemma pad_inject: "m < 10 ^ w \<Longrightarrow> n < 10 ^ w \<Longrightarrow> pad w m = pad w n \<longleftrightarrow> m = n"
  by (metis number_pad option.inject)

subsection \<open>Truncation\<close>

text \<open>
  \<open>[]rune(value)\<close> cut at a limit, with U+2026 appended: \<open>truncateError\<close>,
  \<open>truncate\<close>, \<open>truncateMessage\<close>.
\<close>

definition ellipsis :: string where
  "ellipsis = [CHR 0xE2, CHR 0x80, CHR 0xA6]"

definition cut_runes :: "string \<Rightarrow> nat \<Rightarrow> string" where
  "cut_runes value limit =
     (let rs = runes value in
      if length rs \<le> limit then value else string_of_runes (take limit rs) @ ellipsis)"

lemma ellipsis_runes: "ellipsis = string_of_runes [0x2026]"
  by (simp add: ellipsis_def string_of_runes_def encode_rune_def valid_rune_def char_of_def bit_0)

lemma string_of_runes_append: "string_of_runes (xs @ ys) = string_of_runes xs @ string_of_runes ys"
  by (simp add: string_of_runes_def)

lemma valid_rune_three:
  assumes "0xE0 \<le> a" "a \<le> 0xEF" "cont 0x80 0xBF c"
    and b: "cont (if a = 0xE0 then 0xA0 else 0x80) (if a = 0xED then 0x9F else 0xBF) b"
  shows "valid_rune ((a - 0xE0) * 4096 + (b - 0x80) * 64 + (c - 0x80))"
proof -
  obtain x where a: "a = 0xE0 + x" using assms(1) le_Suc_ex by blast
  obtain y where y: "b = 0x80 + y" using b le_Suc_ex [of "0x80" b] by (auto simp: cont_def split: if_splits)
  obtain z where z: "c = 0x80 + z" using assms(3) le_Suc_ex by (auto simp: cont_def)
  have "y < 64" "z < 64" "x = 13 \<Longrightarrow> y < 32"
    using assms y z a by (auto simp: cont_def split: if_splits)
  moreover have "x < 13 \<or> x = 13 \<or> 13 < x" "x < 16" using assms(2) a by auto
  ultimately have "x * 4096 + y * 64 + z < 0xD800
      \<or> 0xDFFF < x * 4096 + y * 64 + z \<and> x * 4096 + y * 64 + z \<le> 0x10FFFF"
    by linarith
  then show ?thesis unfolding a y z valid_rune_def by simp
qed

lemma valid_rune_four:
  assumes "0xF0 \<le> a" "a \<le> 0xF4" "cont 0x80 0xBF c" "cont 0x80 0xBF d"
    and b: "cont (if a = 0xF0 then 0x90 else 0x80) (if a = 0xF4 then 0x8F else 0xBF) b"
  shows "valid_rune ((a - 0xF0) * 262144 + (b - 0x80) * 4096 + (c - 0x80) * 64 + (d - 0x80))"
proof -
  obtain x where a: "a = 0xF0 + x" using assms(1) le_Suc_ex by blast
  obtain y where y: "b = 0x80 + y" using b le_Suc_ex [of "0x80" b] by (auto simp: cont_def split: if_splits)
  obtain z where z: "c = 0x80 + z" using assms(3) le_Suc_ex by (auto simp: cont_def)
  obtain w where w: "d = 0x80 + w" using assms(4) le_Suc_ex by (auto simp: cont_def)
  have "y < 64" "z < 64" "w < 64" "x = 4 \<Longrightarrow> y < 16" "x = 0 \<Longrightarrow> 16 \<le> y"
    using assms y z w a by (auto simp: cont_def split: if_splits)
  moreover have "x = 0 \<or> 0 < x \<and> x < 4 \<or> x = 4" using assms(2) a by auto
  ultimately have "0xDFFF < x * 262144 + y * 4096 + z * 64 + w
      \<and> x * 262144 + y * 4096 + z * 64 + w \<le> 0x10FFFF"
    by linarith
  then show ?thesis unfolding a y z w valid_rune_def by simp
qed

lemma valid_rune_small: "r < 0x800 \<Longrightarrow> valid_rune r" "valid_rune rune_error"
  by (simp_all add: valid_rune_def rune_error_def)

lemma valid_rune_cases:
  "a < 0x80 \<Longrightarrow> valid_rune a"
  "0xC2 \<le> a \<and> a \<le> 0xDF \<Longrightarrow> cont 0x80 0xBF b \<Longrightarrow> valid_rune ((a - 0xC0) * 64 + (b - 0x80))"
  "0xE0 \<le> a \<and> a \<le> 0xEF \<Longrightarrow>
   cont (if a = 0xE0 then 0xA0 else 0x80) (if a = 0xED then 0x9F else 0xBF) b
     \<and> cont 0x80 0xBF c \<Longrightarrow>
   valid_rune ((a - 0xE0) * 4096 + (b - 0x80) * 64 + (c - 0x80))"
  "0xF0 \<le> a \<and> a \<le> 0xF4 \<and> cont (if a = 0xF0 then 0x90 else 0x80) (if a = 0xF4 then 0x8F else 0xBF) b
     \<and> cont 0x80 0xBF c \<and> cont 0x80 0xBF d \<Longrightarrow>
   valid_rune ((a - 0xF0) * 262144 + (b - 0x80) * 4096 + (c - 0x80) * 64 + (d - 0x80))"
  subgoal by (rule valid_rune_small(1)) simp
  subgoal by (rule valid_rune_small(1)) (auto simp: cont_def)
  subgoal by (elim conjE) (rule valid_rune_three)
  subgoal by (elim conjE) (rule valid_rune_four)
  done

lemma valid_if:
  "(p \<Longrightarrow> valid_rune (fst x)) \<Longrightarrow> (\<not> p \<Longrightarrow> valid_rune (fst y)) \<Longrightarrow> valid_rune (fst (if p then x else y))"
  by simp

lemma decode_valid: "valid_rune (fst (decode_bytes bs))"
proof -
  consider "bs = []" | a where "bs = [a]" | a b where "bs = [a, b]" | a b c where "bs = [a, b, c]"
    | a b c d ds where "bs = a # b # c # d # ds"
    by (metis list.exhaust)
  then show ?thesis
    by cases (simp_all only: decode_bytes.simps list.case, (rule valid_if
      | subst fst_conv, (rule valid_rune_small(2) | (rule valid_rune_cases; assumption)))+)
qed

lemma runes_valid: "r \<in> set (runes s) \<Longrightarrow> valid_rune r"
proof -
  have "\<forall>r \<in> set (runes_of bs). valid_rune r" for bs
    by (induction bs rule: runes_of.induct) (simp_all add: decode_valid del: decode_bytes.simps)
  then show "r \<in> set (runes s) \<Longrightarrow> valid_rune r" by (simp add: runes_def)
qed

lemma runes_cut: "runes (cut_runes value limit) =
    (if length (runes value) \<le> limit then runes value else take limit (runes value) @ [0x2026])"
proof -
  have "\<forall>r \<in> set (take limit (runes value) @ [0x2026]). valid_rune r"
    using runes_valid by (auto simp: valid_rune_def dest!: in_set_takeD)
  then have "runes (string_of_runes (take limit (runes value) @ [0x2026]))
      = take limit (runes value) @ [0x2026]"
    by (rule runes_string_of_runes)
  then show ?thesis
    by (simp add: cut_runes_def Let_def ellipsis_runes flip: string_of_runes_append)
qed

text \<open>Where it cuts, the cut keeps at most \<open>limit\<close> runes and appends one.\<close>

lemma length_runes_cut: "length (runes (cut_runes value limit)) \<le> Suc limit"
  by (simp add: runes_cut)

subsection \<open>E-mail addresses\<close>

text \<open>
  Everywhere the program calls \<open>mail.ParseAddress(v)\<close> it goes on only if that succeeds
  with the \<open>Address\<close> field equal to \<open>v\<close> itself, that is, if \<open>v\<close> is one bare
  addr-spec without white space, comment, display name or quoting: two dot-atoms of
  \<open>atext\<close> around one \<open>@\<close>, in well-formed UTF-8. \<open>addr_spec v\<close> is this test.
  Address literals (\<open>a@[127.0.0.1]\<close>) are taken as refused.
\<close>

definition atext :: "char \<Rightarrow> bool" where
  "atext c \<longleftrightarrow> (0x21 \<le> code c \<and> code c \<le> 0x7E \<or> 0x80 \<le> code c) \<and>
     c \<notin> set [CHR ''('', CHR '')'', CHR ''<'', CHR ''>'', CHR ''['', CHR '']'', CHR '':'',
              CHR '';'', CHR ''@'', CHR 0x5C, CHR '','', CHR 0x22]"

definition dot_atom :: "string \<Rightarrow> bool" where
  "dot_atom s \<longleftrightarrow> s \<noteq> [] \<and> list_all atext s \<and> \<not> prefix ''.'' s \<and> \<not> contains s ''..''
     \<and> \<not> suffix ''.'' s"

definition addr_spec :: "string \<Rightarrow> bool" where
  "addr_spec v = (case split2 v CHR ''@'' of
     None \<Rightarrow> False
   | Some (l, d) \<Rightarrow> dot_atom l \<and> dot_atom d \<and> valid_utf8 v)"

lemma addr_specD:
  assumes "addr_spec v"
  obtains l d where "v = l @ CHR ''@'' # d" "dot_atom l" "dot_atom d"
    "CHR ''@'' \<notin> set l" "CHR ''@'' \<notin> set d"
proof -
  from assms obtain l d where s: "split2 v CHR ''@'' = Some (l, d)" "dot_atom l" "dot_atom d"
    by (auto simp: addr_spec_def split: option.splits)
  moreover have "CHR ''@'' \<notin> set d"
  proof
    assume "CHR ''@'' \<in> set d"
    moreover have "list_all atext d" using s(3) by (simp add: dot_atom_def)
    ultimately have "atext CHR ''@''" by (simp add: list_all_iff)
    then show False by (simp add: atext_def)
  qed
  ultimately show ?thesis using that split2_Some by metis
qed

lemma addr_spec_at: "addr_spec v \<Longrightarrow> contains v ''@''"
  by (erule addr_specD) (simp add: contains_single)

lemma addr_spec_not_Nil [simp]: "\<not> addr_spec []"
  by (simp add: addr_spec_def)

end
