(* ===== verification/GoJson.thy ===== *)
theory GoJson
  imports GoStrings
begin

section \<open>JSON texts\<close>

text \<open>
  What the program uses of encoding/json on a text: \<open>parse_json s\<close> is the value of a
  well-formed text and \<open>None\<close> for any other, as \<open>Unmarshal\<close> first checks the whole text.
  A number keeps its digits; a string is unescaped, with lone surrogates and ill-formed
  UTF-8 replaced by U+FFFD; an object keeps its members in order, duplicates included. The
  text is cut into tokens, and the tokens drive a parser with an explicit stack, so both are
  total and need no fuel. Go's nesting limit of 10,000 levels is not modelled.
\<close>

datatype json = JNull | JBool bool | JNum string | JStr string | JArr "json list"
  | JObj "(string \<times> json) list"

subsection \<open>Tokens\<close>

datatype token = TOpenArr | TCloseArr | TOpenObj | TCloseObj | TComma | TColon
  | TStr string | TLit json

text \<open>The body of a string literal: raw bytes and \<open>\u\<close> escapes, and what follows the quote.\<close>

definition hex_digit :: "char \<Rightarrow> nat option" where
  "hex_digit c =
     (if 48 \<le> code c \<and> code c \<le> 57 then Some (code c - 48)
      else if 65 \<le> code c \<and> code c \<le> 70 then Some (code c - 55)
      else if 97 \<le> code c \<and> code c \<le> 102 then Some (code c - 87) else None)"

definition hex4 :: "char \<Rightarrow> char \<Rightarrow> char \<Rightarrow> char \<Rightarrow> nat option" where
  "hex4 a b c d = (case (hex_digit a, hex_digit b, hex_digit c, hex_digit d) of
     (Some w, Some x, Some y, Some z) \<Rightarrow> Some (w * 4096 + x * 256 + y * 16 + z) | _ \<Rightarrow> None)"

definition escaped :: "char \<Rightarrow> char option" where
  "escaped c = map_of [(CHR 0x22, CHR 0x22), (CHR 0x5C, CHR 0x5C), (CHR ''/'', CHR ''/''),
     (CHR ''b'', CHR 0x08), (CHR ''f'', CHR 0x0C), (CHR ''n'', CHR 0x0A), (CHR ''r'', CHR 0x0D),
     (CHR ''t'', CHR 0x09)] c"

definition cons_fst :: "'a \<Rightarrow> ('a list \<times> 'b) option \<Rightarrow> ('a list \<times> 'b) option" where
  "cons_fst x r = map_option (\<lambda>(xs, y). (x # xs, y)) r"

fun string_body :: "string \<Rightarrow> ((char + nat) list \<times> string) option" where
  "string_body [] = None"
| "string_body (c # s) =
     (if c = CHR 0x22 then Some ([], s)
      else if code c < 0x20 then None
      else if c \<noteq> CHR 0x5C then cons_fst (Inl c) (string_body s)
      else case s of
        [] \<Rightarrow> None
      | d # s' \<Rightarrow>
        if d = CHR ''u'' then
          (case s' of
             w # x # y # z # s'' \<Rightarrow>
               (case hex4 w x y z of None \<Rightarrow> None | Some u \<Rightarrow> cons_fst (Inr u) (string_body s''))
           | _ \<Rightarrow> None)
        else case escaped d of None \<Rightarrow> None | Some e \<Rightarrow> cons_fst (Inl e) (string_body s'))"

definition surrogate :: "nat \<Rightarrow> bool" where
  "surrogate u \<longleftrightarrow> 0xD800 \<le> u \<and> u \<le> 0xDFFF"

function unquote :: "(char + nat) list \<Rightarrow> string" where
  "unquote [] = []"
| "unquote (Inl c # ts) =
     string_of_runes (runes (c # map projl (takeWhile isl ts))) @ unquote (dropWhile isl ts)"
| "unquote (Inr u # ts) =
     (if \<not> surrogate u then string_of_runes [u] @ unquote ts
      else case ts of
        Inr v # ts' \<Rightarrow>
          if u < 0xDC00 \<and> 0xDC00 \<le> v \<and> v \<le> 0xDFFF
          then string_of_runes [0x10000 + (u - 0xD800) * 1024 + (v - 0xDC00)] @ unquote ts'
          else string_of_runes [rune_error] @ unquote ts
      | _ \<Rightarrow> string_of_runes [rune_error] @ unquote ts)"
  by pat_completeness auto
termination
  by (relation "measure length") (auto simp: le_imp_less_Suc length_dropWhile_le)

text \<open>Number literals: an optional sign, an integer part, a fraction, an exponent.\<close>

definition is_digit :: "char \<Rightarrow> bool" where
  "is_digit c \<longleftrightarrow> 48 \<le> code c \<and> code c \<le> 57"

definition digits_end :: "string \<Rightarrow> string option" where
  "digits_end s = (let r = dropWhile is_digit s in if r = s then None else Some r)"

definition int_end :: "string \<Rightarrow> string option" where
  "int_end s = (let t = (if prefix ''-'' s then tl s else s) in
     if prefix ''0'' t then Some (tl t) else digits_end t)"

definition frac_end :: "string \<Rightarrow> string option" where
  "frac_end s = (if prefix ''.'' s then digits_end (tl s) else Some s)"

definition exp_end :: "string \<Rightarrow> string option" where
  "exp_end s =
     (if prefix ''e'' s \<or> prefix ''E'' s then
        (let t = tl s in digits_end (if prefix ''+'' t \<or> prefix ''-'' t then tl t else t))
      else Some s)"

definition number_end :: "string \<Rightarrow> string option" where
  "number_end s = Option.bind (int_end s) (\<lambda>t. Option.bind (frac_end t) exp_end)"

text \<open>One token and the text after it.\<close>

definition next_token :: "string \<Rightarrow> (token \<times> string) option" where
  "next_token s = (case s of
     [] \<Rightarrow> None
   | c # r \<Rightarrow>
     if c = CHR ''['' then Some (TOpenArr, r) else if c = CHR '']'' then Some (TCloseArr, r)
     else if c = CHR ''{'' then Some (TOpenObj, r) else if c = CHR ''}'' then Some (TCloseObj, r)
     else if c = CHR '','' then Some (TComma, r) else if c = CHR '':'' then Some (TColon, r)
     else if c = CHR 0x22 then map_option (\<lambda>(b, r'). (TStr (unquote b), r')) (string_body r)
     else if prefix ''true'' s then Some (TLit (JBool True), drop 4 s)
     else if prefix ''false'' s then Some (TLit (JBool False), drop 5 s)
     else if prefix ''null'' s then Some (TLit JNull, drop 4 s)
     else map_option (\<lambda>r'. (TLit (JNum (take (length s - length r') s)), r')) (number_end s))"

lemma string_body_length: "string_body s = Some (b, r) \<Longrightarrow> length r < length s"
proof (induction s arbitrary: b r rule: string_body.induct)
  case (2 c s)
  then show ?case
    by (auto simp: cons_fst_def split: if_splits list.splits option.splits) (fastforce)+
qed simp

lemma digits_end_length: "digits_end s = Some r \<Longrightarrow> length r < length s"
proof -
  assume "digits_end s = Some r"
  then have "r = dropWhile is_digit s" "r \<noteq> s" by (auto simp: digits_end_def Let_def split: if_splits)
  then show "length r < length s"
    by (metis length_dropWhile_le order_le_less same_length_different append_same_eq takeWhile_dropWhile_id append_Nil length_append less_add_same_cancel2 length_greater_0_conv)
qed

lemma tl_prefix: "length (tl s) \<le> length s"
  by simp

lemma number_end_length:
  assumes "number_end s = Some r"
  shows "length r < length s"
proof -
  from assms obtain t u where t: "int_end s = Some t" "frac_end t = Some u" "exp_end u = Some r"
    by (auto simp: number_end_def bind_eq_Some_conv)
  from t(1) have "length t < length s"
    using digits_end_length [of s t] digits_end_length [of "tl s" t]
    by (cases s) (auto simp: int_end_def Let_def prefix_def split: if_splits)
  moreover from t(2) have "length u \<le> length t"
    using digits_end_length [of "tl t" u] by (cases t) (auto simp: frac_end_def split: if_splits)
  moreover from t(3) have "length r \<le> length u"
    using digits_end_length [of "tl u" r] digits_end_length [of "tl (tl u)" r]
    by (auto simp: exp_end_def Let_def split: if_splits)
  ultimately show ?thesis by simp
qed

lemma next_token_length: "next_token s = Some (t, r) \<Longrightarrow> length r < length s"
  using string_body_length [of "tl s"] number_end_length [of s]
  by (cases s) (auto simp: next_token_def prefix_def split: if_splits)

definition json_space :: "char \<Rightarrow> bool" where
  "json_space c \<longleftrightarrow> c = CHR '' '' \<or> c = CHR 0x09 \<or> c = CHR 0x0A \<or> c = CHR 0x0D"

function tokens :: "string \<Rightarrow> token list option" where
  "tokens s =
     (let t = dropWhile json_space s in
      if t = [] then Some []
      else case next_token t of None \<Rightarrow> None
        | Some (k, r) \<Rightarrow> map_option (Cons k) (tokens r))"
  by auto
termination
proof (relation "measure length")
  fix s t k and r :: string and p
  assume "t = dropWhile json_space s" "next_token t = Some p" "(k, r) = p"
  then show "(r, s) \<in> measure length"
    using next_token_length [of t k r] length_dropWhile_le [of json_space s] by simp
qed simp

declare tokens.simps [simp del]

subsection \<open>The parser\<close>

datatype frame = InArr "json list" | InObj "(string \<times> json) list" | InMember "(string \<times> json) list" string

datatype expect = WantValue | WantValueOrClose | WantKey | WantKeyOrClose | WantColon | GotValue json

text \<open>
  \<open>GotValue v\<close>: a value has been read and belongs to the innermost frame. Elements and
  members are collected in reverse.
\<close>

definition open_token :: "token \<Rightarrow> frame list \<Rightarrow> (frame list \<times> expect) option" where
  "open_token t st = (case t of
     TOpenArr \<Rightarrow> Some (InArr [] # st, WantValueOrClose)
   | TOpenObj \<Rightarrow> Some (InObj [] # st, WantKeyOrClose)
   | TStr s \<Rightarrow> Some (st, GotValue (JStr s))
   | TLit v \<Rightarrow> Some (st, GotValue v)
   | _ \<Rightarrow> None)"

fun parse_step :: "frame list \<Rightarrow> expect \<Rightarrow> token \<Rightarrow> (frame list \<times> expect) option" where
  "parse_step st WantValue t = open_token t st"
| "parse_step (InArr xs # st) WantValueOrClose TCloseArr = Some (st, GotValue (JArr (rev xs)))"
| "parse_step st WantValueOrClose t = open_token t st"
| "parse_step (InObj ms # st) WantKeyOrClose TCloseObj = Some (st, GotValue (JObj (rev ms)))"
| "parse_step (InObj ms # st) WantKeyOrClose (TStr k) = Some (InMember ms k # st, WantColon)"
| "parse_step (InObj ms # st) WantKey (TStr k) = Some (InMember ms k # st, WantColon)"
| "parse_step st WantColon TColon = Some (st, WantValue)"
| "parse_step (InArr xs # st) (GotValue v) TComma = Some (InArr (v # xs) # st, WantValue)"
| "parse_step (InArr xs # st) (GotValue v) TCloseArr = Some (st, GotValue (JArr (rev (v # xs))))"
| "parse_step (InMember ms k # st) (GotValue v) TComma = Some (InObj ((k, v) # ms) # st, WantKey)"
| "parse_step (InMember ms k # st) (GotValue v) TCloseObj = Some (st, GotValue (JObj (rev ((k, v) # ms))))"
| "parse_step _ _ _ = None"

fun parse_tokens :: "frame list \<Rightarrow> expect \<Rightarrow> token list \<Rightarrow> json option" where
  "parse_tokens st e [] = (case (st, e) of ([], GotValue v) \<Rightarrow> Some v | _ \<Rightarrow> None)"
| "parse_tokens st e (t # ts) =
     (case parse_step st e t of None \<Rightarrow> None | Some (st', e') \<Rightarrow> parse_tokens st' e' ts)"

definition parse_json :: "string \<Rightarrow> json option" where
  "parse_json s = Option.bind (tokens s) (parse_tokens [] WantValue)"

text \<open>
  \<open>json.Unmarshal\<close> into a nil \<open>[]string\<close>, its error dropped: nothing for a text that is not
  well-formed or no array; an element that is no string stays empty.
\<close>

fun string_element :: "json \<Rightarrow> string" where
  "string_element (JStr s) = s"
| "string_element _ = []"

definition string_array :: "string \<Rightarrow> string list" where
  "string_array s = (case parse_json s of Some (JArr vs) \<Rightarrow> map string_element vs | _ \<Rightarrow> [])"

end
