(* ===== verification/GoUrl.thy ===== *)
theory GoUrl
  imports GoJson
begin

section \<open>URLs\<close>

text \<open>
  net/url as the program uses it: \<open>Parse\<close>, with every condition under which it fails, and
  \<open>String\<close>. A string is the list of its bytes; an error is \<open>None\<close>, since no caller reads it.
\<close>

datatype url_mode = EncodePath | EncodeUserPassword | EncodeFragment | EncodeHost | EncodeZone

record url =
  u_scheme :: string
  u_opaque :: string
  u_user :: "(string \<times> string option) option"
  u_host :: string
  u_path :: string
  u_raw_path :: string
  u_omit_host :: bool
  u_force_query :: bool
  u_raw_query :: string
  u_fragment :: string
  u_raw_fragment :: string

definition no_url :: url where
  "no_url = \<lparr>u_scheme = [], u_opaque = [], u_user = None, u_host = [], u_path = [], u_raw_path = [],
     u_omit_host = False, u_force_query = False, u_raw_query = [], u_fragment = [], u_raw_fragment = []\<rparr>"

subsection \<open>Escaping\<close>

definition is_letter :: "char \<Rightarrow> bool" where
  "is_letter c \<longleftrightarrow> 65 \<le> code c \<and> code c \<le> 90 \<or> 97 \<le> code c \<and> code c \<le> 122"

definition is_alnum :: "char \<Rightarrow> bool" where
  "is_alnum c \<longleftrightarrow> is_letter c \<or> is_digit c"

definition should_escape :: "char \<Rightarrow> url_mode \<Rightarrow> bool" where
  "should_escape c mode =
     (if is_alnum c then False
      else if (mode = EncodeHost \<or> mode = EncodeZone) \<and> c \<in> set (CHR 0x27 # CHR 0x22 # ''!$&()*+,;=:[]<>'') then False
      else if c \<in> set ''-_.~'' then False
      else if c \<in> set ''$&+,/:;=?@'' \<and> mode = EncodePath then c = CHR ''?''
      else if c \<in> set ''$&+,/:;=?@'' \<and> mode = EncodeUserPassword then c \<in> set ''@/?:''
      else if c \<in> set ''$&+,/:;=?@'' \<and> mode = EncodeFragment then False
      else if mode = EncodeFragment \<and> c \<in> set ''!()*'' then False
      else True)"

definition hex_upper :: "nat \<Rightarrow> char" where
  "hex_upper n = (if n < 10 then char_of (48 + n) else char_of (55 + n))"

definition percent :: "char \<Rightarrow> string" where
  "percent c = [CHR ''%'', hex_upper (code c div 16), hex_upper (code c mod 16)]"

definition escape :: "string \<Rightarrow> url_mode \<Rightarrow> string" where
  "escape s mode = concat (map (\<lambda>c. if should_escape c mode then percent c else [c]) s)"

fun unescape :: "string \<Rightarrow> url_mode \<Rightarrow> string option" where
  "unescape [] mode = Some []"
| "unescape (c # s) mode =
     (if c = CHR ''%'' then
        (case s of
           a # b # s' \<Rightarrow>
             (case (hex_digit a, hex_digit b) of
                (Some x, Some y) \<Rightarrow>
                  if mode = EncodeHost \<and> x < 8 \<and> [a, b] \<noteq> ''25'' then None
                  else if mode = EncodeZone \<and> [a, b] \<noteq> ''25'' \<and> x * 16 + y \<noteq> 32
                      \<and> should_escape (char_of (x * 16 + y)) EncodeHost then None
                  else map_option (Cons (char_of (x * 16 + y))) (unescape s' mode)
              | _ \<Rightarrow> None)
         | _ \<Rightarrow> None)
      else if (mode = EncodeHost \<or> mode = EncodeZone) \<and> code c < 0x80 \<and> should_escape c mode then None
      else map_option (Cons c) (unescape s mode))"

definition valid_encoded :: "string \<Rightarrow> url_mode \<Rightarrow> bool" where
  "valid_encoded s mode = list_all (\<lambda>c. c \<in> set (CHR 0x27 # ''!$&()*+,;=:@[]%'') \<or> \<not> should_escape c mode) s"

subsection \<open>Parsing\<close>

fun get_scheme :: "string \<Rightarrow> string \<Rightarrow> (string \<times> string) option" where
  "get_scheme acc [] = Some ([], acc)"
| "get_scheme acc (c # s) =
     (if is_letter c then get_scheme (acc @ [c]) s
      else if is_digit c \<or> c \<in> set ''+-.'' then
        (if acc = [] then Some ([], c # s) else get_scheme (acc @ [c]) s)
      else if c = CHR '':'' then (if acc = [] then None else Some (acc, s))
      else Some ([], acc @ c # s))"

definition valid_optional_port :: "string \<Rightarrow> bool" where
  "valid_optional_port p = (case p of [] \<Rightarrow> True | c # ds \<Rightarrow> c = CHR '':'' \<and> list_all is_digit ds)"

text \<open>The text before and after the last occurrence of a byte.\<close>

definition last_cut :: "string \<Rightarrow> char \<Rightarrow> (string \<times> string) option" where
  "last_cut s c = map_option (\<lambda>(a, b). (rev b, rev a)) (split2 (rev s) c)"

text \<open>The text before and from the first occurrence of a word.\<close>

fun index_cut :: "string \<Rightarrow> string \<Rightarrow> (string \<times> string) option" where
  "index_cut [] w = (if w = [] then Some ([], []) else None)"
| "index_cut (c # s) w =
     (if prefix w (c # s) then Some ([], c # s)
      else map_option (\<lambda>(a, b). (c # a, b)) (index_cut s w))"

definition parse_host :: "string \<Rightarrow> string option" where
  "parse_host host =
     (if prefix ''['' host then
        (case last_cut host CHR '']'' of
           None \<Rightarrow> None
         | Some (inside, port) \<Rightarrow>
           if \<not> valid_optional_port port then None
           else (case index_cut inside ''%25'' of
             Some (address, zone) \<Rightarrow>
               Option.bind (unescape address EncodeHost) (\<lambda>h1.
               Option.bind (unescape zone EncodeZone) (\<lambda>h2.
               Option.bind (unescape (CHR '']'' # port) EncodeHost) (\<lambda>h3. Some (h1 @ h2 @ h3))))
           | None \<Rightarrow> unescape host EncodeHost))
      else (case last_cut host CHR '':'' of
        Some (name, port) \<Rightarrow> if valid_optional_port (CHR '':'' # port) then unescape host EncodeHost else None
      | None \<Rightarrow> unescape host EncodeHost))"

definition valid_userinfo :: "string \<Rightarrow> bool" where
  "valid_userinfo s = list_all (\<lambda>c. is_alnum c \<or> c \<in> set (CHR 0x27 # ''-._:~!$&()*+,;=%@'')) s"

definition parse_authority :: "string \<Rightarrow> ((string \<times> string option) option \<times> string) option" where
  "parse_authority authority =
     (case last_cut authority CHR ''@'' of
        None \<Rightarrow> map_option (Pair None) (parse_host authority)
      | Some (userinfo, host0) \<Rightarrow>
        Option.bind (parse_host host0) (\<lambda>host.
        if \<not> valid_userinfo userinfo then None
        else case split2 userinfo CHR '':'' of
          None \<Rightarrow> map_option (\<lambda>u. (Some (u, None), host)) (unescape userinfo EncodeUserPassword)
        | Some (name, password) \<Rightarrow>
            Option.bind (unescape name EncodeUserPassword) (\<lambda>n.
            map_option (\<lambda>p. (Some (n, Some p), host)) (unescape password EncodeUserPassword))))"

definition set_path :: "string \<Rightarrow> url \<Rightarrow> url option" where
  "set_path p u = map_option (\<lambda>path. u\<lparr>u_path := path,
     u_raw_path := (if p = escape path EncodePath then [] else p)\<rparr>) (unescape p EncodePath)"

definition set_fragment :: "string \<Rightarrow> url \<Rightarrow> url option" where
  "set_fragment f u = map_option (\<lambda>frag. u\<lparr>u_fragment := frag,
     u_raw_fragment := (if f = escape frag EncodeFragment then [] else f)\<rparr>) (unescape f EncodeFragment)"

definition cut_at :: "string \<Rightarrow> char \<Rightarrow> string \<times> string" where
  "cut_at s c = (case split2 s c of None \<Rightarrow> (s, []) | Some p \<Rightarrow> p)"

text \<open>\<open>parse\<close> without a fragment, then \<open>Parse\<close>.\<close>

definition parse_hierarchy :: "string \<Rightarrow> url \<Rightarrow> url option" where
  "parse_hierarchy rest u =
     (if (u_scheme u \<noteq> [] \<or> \<not> prefix ''///'' rest) \<and> prefix ''//'' rest then
        (let text = drop 2 rest;
             authority = takeWhile (\<lambda>c. c \<noteq> CHR ''/'') text;
             path = dropWhile (\<lambda>c. c \<noteq> CHR ''/'') text
         in case parse_authority authority of
              None \<Rightarrow> None
            | Some (user, host) \<Rightarrow> set_path path (u\<lparr>u_user := user, u_host := host\<rparr>))
      else set_path rest (u\<lparr>u_omit_host := (u_scheme u \<noteq> [] \<and> prefix ''/'' rest)\<rparr>))"

definition parse_main :: "string \<Rightarrow> url option" where
  "parse_main raw =
     (if list_ex (\<lambda>c. code c < 32 \<or> code c = 127) raw then None
      else if raw = ''*'' then Some (no_url\<lparr>u_path := ''*''\<rparr>)
      else case get_scheme [] raw of
        None \<Rightarrow> None
      | Some (scheme, rest0) \<Rightarrow>
        let force = (rest0 \<noteq> [] \<and> last rest0 = CHR ''?'' \<and> CHR ''?'' \<notin> set (butlast rest0));
            rest = (if force then butlast rest0 else fst (cut_at rest0 CHR ''?''));
            query = (if force then [] else snd (cut_at rest0 CHR ''?''));
            u = no_url\<lparr>u_scheme := to_lower scheme, u_force_query := force, u_raw_query := query\<rparr>
        in if \<not> prefix ''/'' rest \<and> scheme \<noteq> [] then Some (u\<lparr>u_opaque := rest\<rparr>)
           else if \<not> prefix ''/'' rest \<and> CHR '':'' \<in> set (takeWhile (\<lambda>c. c \<noteq> CHR ''/'') rest) then None
           else parse_hierarchy rest u)"

definition parse_url :: "string \<Rightarrow> url option" where
  "parse_url raw =
     (let (main, frag) = cut_at raw CHR ''#'' in
      Option.bind (parse_main main) (\<lambda>u. if frag = [] then Some u else set_fragment frag u))"

subsection \<open>String\<close>

definition escaped_path :: "url \<Rightarrow> string" where
  "escaped_path u =
     (if u_raw_path u \<noteq> [] \<and> valid_encoded (u_raw_path u) EncodePath
         \<and> unescape (u_raw_path u) EncodePath = Some (u_path u) then u_raw_path u
      else if u_path u = ''*'' then ''*'' else escape (u_path u) EncodePath)"

definition escaped_fragment :: "url \<Rightarrow> string" where
  "escaped_fragment u =
     (if u_raw_fragment u \<noteq> [] \<and> valid_encoded (u_raw_fragment u) EncodeFragment
         \<and> unescape (u_raw_fragment u) EncodeFragment = Some (u_fragment u) then u_raw_fragment u
      else escape (u_fragment u) EncodeFragment)"

definition user_string :: "string \<times> string option \<Rightarrow> string" where
  "user_string user =
     (case user of
        (name, None) \<Rightarrow> escape name EncodeUserPassword
      | (name, Some password) \<Rightarrow> escape name EncodeUserPassword @ '':'' @ escape password EncodeUserPassword)"

definition url_authority :: "url \<Rightarrow> string" where
  "url_authority u =
     (if u_scheme u \<noteq> [] \<or> u_host u \<noteq> [] \<or> u_user u \<noteq> None then
        (if u_omit_host u \<and> u_host u = [] \<and> u_user u = None then []
         else (if u_host u \<noteq> [] \<or> u_path u \<noteq> [] \<or> u_user u \<noteq> None then ''//'' else [])
           @ (case u_user u of None \<Rightarrow> [] | Some user \<Rightarrow> user_string user @ ''@'')
           @ escape (u_host u) EncodeHost)
      else [])"

definition url_string :: "url \<Rightarrow> string" where
  "url_string u =
     (let scheme = (if u_scheme u \<noteq> [] then u_scheme u @ '':'' else []);
          main = (if u_opaque u \<noteq> [] then scheme @ u_opaque u
            else
              let acc = scheme @ url_authority u;
                  path = escaped_path u;
                  sep = (if path \<noteq> [] \<and> \<not> prefix ''/'' path \<and> u_host u \<noteq> [] then ''/'' else []);
                  dot = (if acc @ sep = [] \<and> CHR '':'' \<in> set (takeWhile (\<lambda>c. c \<noteq> CHR ''/'') path) then ''./'' else [])
              in acc @ sep @ dot @ path)
      in main
         @ (if u_force_query u \<or> u_raw_query u \<noteq> [] then ''?'' @ u_raw_query u else [])
         @ (if u_fragment u \<noteq> [] then ''#'' @ escaped_fragment u else []))"

end
