(* ===== verification/GoFloat.thy ===== *)
theory GoFloat
  imports GoJson
begin

section \<open>Numbers of a JSON text as 64-bit floats\<close>

text \<open>
  encoding/json reads a number into a \<open>float64\<close>, and \<open>fmt\<close> prints it with \<open>%g\<close>: the shortest
  decimal that gives the same float, with an exponent unless it is between \<open>-4\<close> and \<open>5\<close>. A
  literal of at most 15 significant digits in the normal range is that decimal itself, as no
  two of these round to one float; for any other literal the float and the decimal are
  computed: \<open>round_float\<close> rounds half to even to 53 bits, \<open>shortest\<close> searches the number of
  digits. \<open>None\<close> is a number out of range.
\<close>

subsection \<open>Decimals\<close>

text \<open>Sign, digits without outer zeros, and the position of the point: \<open>0.d\<^sub>1d\<^sub>2\<dots> \<times> 10^dp\<close>.\<close>

type_synonym decimal = "bool \<times> string \<times> int"

definition digits_value :: "string \<Rightarrow> nat" where
  "digits_value ds = fold (\<lambda>c n. n * 10 + (code c - 48)) ds 0"

definition signed_value :: "string \<Rightarrow> int" where
  "signed_value s = (if prefix ''-'' s then - int (digits_value (tl s))
     else if prefix ''+'' s then int (digits_value (tl s)) else int (digits_value s))"

definition strip_zeros :: "bool \<Rightarrow> string \<Rightarrow> int \<Rightarrow> decimal" where
  "strip_zeros neg ds dp =
     (let front = dropWhile (\<lambda>c. c = CHR ''0'') ds;
          core = rev (dropWhile (\<lambda>c. c = CHR ''0'') (rev front))
      in (neg, core, if core = [] then 0 else dp - int (length ds - length front)))"

definition literal_decimal :: "string \<Rightarrow> decimal" where
  "literal_decimal lit =
     (let neg = prefix ''-'' lit;
          body = (if neg then tl lit else lit);
          whole = takeWhile is_digit body;
          rest = dropWhile is_digit body;
          frac = (if prefix ''.'' rest then takeWhile is_digit (tl rest) else []);
          expo = (if prefix ''.'' rest then dropWhile is_digit (tl rest) else rest);
          e = (if expo = [] then 0 else signed_value (tl expo))
      in strip_zeros neg (whole @ frac) (int (length whole) + e))"

subsection \<open>Floats\<close>

text \<open>A positive float is \<open>q \<times> 2^k\<close>; \<open>bit_length\<close> gives the exponent of the leading bit.\<close>

function bit_length :: "nat \<Rightarrow> nat" where
  "bit_length n = (if n = 0 then 0 else Suc (bit_length (n div 2)))"
  by auto
termination by (relation "measure id") auto

declare bit_length.simps [simp del]

definition scaled :: "nat \<Rightarrow> nat \<Rightarrow> int \<Rightarrow> nat \<times> nat" where
  "scaled num den k = (if 0 \<le> k then (num, den * 2 ^ nat k) else (num * 2 ^ nat (- k), den))"

definition round_at :: "nat \<Rightarrow> nat \<Rightarrow> int \<Rightarrow> nat" where
  "round_at num den k =
     (case scaled num den k of (n, d) \<Rightarrow>
        (let q = n div d; r = n mod d in if d < 2 * r \<or> (d = 2 * r \<and> odd q) then q + 1 else q))"

definition round_float :: "nat \<Rightarrow> nat \<Rightarrow> (nat \<times> int) option" where
  "round_float num den =
     (let k0 = int (bit_length num) - int (bit_length den) - 53;
          k1 = (case scaled num den k0 of (n, d) \<Rightarrow> if n div d < 2 ^ 53 then k0 else k0 + 1);
          k = max k1 (- 1074);
          q = round_at num den k
      in if q = 0 then Some (0, 0)
         else if 1024 < int (bit_length q) + k then None else Some (q, k))"

definition decimal_ratio :: "string \<Rightarrow> int \<Rightarrow> nat \<times> nat" where
  "decimal_ratio ds dp =
     (let e = dp - int (length ds); m = digits_value ds in
      if 0 \<le> e then (m * 10 ^ nat e, 1) else (m, 10 ^ nat (- e)))"

definition same_float :: "nat \<times> int \<Rightarrow> string \<Rightarrow> int \<Rightarrow> bool" where
  "same_float x ds dp = (case decimal_ratio ds dp of (n, d) \<Rightarrow>
     case (round_float n d, x) of
       (Some (q, k), (q', k')) \<Rightarrow> (if k \<le> k' then q = q' * 2 ^ nat (k' - k) else q' = q * 2 ^ nat (k - k'))
     | _ \<Rightarrow> False)"

text \<open>The decimals of \<open>n\<close> digits next to the float, below and above it, the nearer first.\<close>

definition neighbours :: "nat \<times> int \<Rightarrow> int \<Rightarrow> nat \<Rightarrow> (string \<times> int) list" where
  "neighbours x dp n =
     (case x of (q, k) \<Rightarrow>
        (let e = dp - int n;
             (num, den) = scaled q 1 (- k);
             (num', den') = (if 0 \<le> e then (num, den * 10 ^ nat e) else (num * 10 ^ nat (- e), den));
             low = num' div den'; r = num' mod den';
             out = (\<lambda>m. let t = nat_string m in (t, dp + int (length t) - int n))
         in if r = 0 then [out low]
            else if 2 * r < den' \<or> (2 * r = den' \<and> even low) then [out low, out (low + 1)]
            else [out (low + 1), out low]))"

fun shortest :: "nat \<Rightarrow> nat \<times> int \<Rightarrow> int \<Rightarrow> nat \<Rightarrow> string \<times> int" where
  "shortest 0 x dp n = (case neighbours x dp n of [] \<Rightarrow> ([], 0) | c # _ \<Rightarrow> c)"
| "shortest (Suc fuel) x dp n =
     (case filter (\<lambda>(ds, p). same_float x ds p) (neighbours x dp n) of
        c # _ \<Rightarrow> c
      | [] \<Rightarrow> shortest fuel x dp (Suc n))"

definition float_decimal :: "string \<Rightarrow> decimal option" where
  "float_decimal lit =
     (case literal_decimal lit of (neg, ds, dp) \<Rightarrow>
        if length ds \<le> 15 \<and> - 300 \<le> dp \<and> dp \<le> 300 then Some (neg, ds, dp)
        else if 400 < dp then None
        else if dp < - 400 then Some (neg, [], 0)
        else case decimal_ratio ds dp of (n, d) \<Rightarrow>
          (case round_float n d of
             None \<Rightarrow> None
           | Some (q, k) \<Rightarrow>
             if q = 0 then Some (neg, [], 0)
             else (case shortest 17 (q, k) dp 1 of (ds', p) \<Rightarrow> Some (strip_zeros neg ds' p))))"

subsection \<open>Printing\<close>

definition exponent_string :: "int \<Rightarrow> string" where
  "exponent_string e =
     (let t = nat_string (nat \<bar>e\<bar>) in
      ''e'' @ (if e < 0 then ''-'' else ''+'') @ (if length t < 2 then ''0'' else []) @ t)"

definition format_g :: "decimal \<Rightarrow> string" where
  "format_g d =
     (case d of (neg, ds, dp) \<Rightarrow>
        (if neg then ''-'' else []) @
        (if ds = [] then ''0''
         else if dp - 1 < - 4 \<or> 6 \<le> dp - 1 then
           take 1 ds @ (if length ds = 1 then [] else ''.'' @ drop 1 ds) @ exponent_string (dp - 1)
         else if dp \<le> 0 then ''0.'' @ replicate (nat (- dp)) CHR ''0'' @ ds
         else if length ds \<le> nat dp then ds @ replicate (nat dp - length ds) CHR ''0''
         else take (nat dp) ds @ ''.'' @ drop (nat dp) ds))"

end
