(* ===== verification/GoTime.thy ===== *)
theory GoTime
  imports GoStrings
begin

section \<open>Time: instants, durations, and timestamps as text\<close>

text \<open>
  A \<open>time.Time\<close> is the number of nanoseconds since the Unix epoch, an \<open>int\<close>; a
  \<open>time.Duration\<close> is a signed 64-bit number of nanoseconds, an \<open>int\<close> whose arithmetic
  is wrapped by \<open>wrap64\<close> where the code can overflow. The store keeps instants as text in
  the layout \<open>2006-01-02T15:04:05.000Z07:00\<close> and lets SQLite compare the texts; the
  theory defines the formatting down to the calendar and proves that the order of the
  texts is the order of the instants in milliseconds.
\<close>

type_synonym time = int
type_synonym duration = int

definition wrap64 :: "int \<Rightarrow> int" where
  "wrap64 n = (n + 2 ^ 63) mod 2 ^ 64 - 2 ^ 63"

lemma wrap64_id: "- (2 ^ 63) \<le> n \<Longrightarrow> n < 2 ^ 63 \<Longrightarrow> wrap64 n = n"
  by (simp add: wrap64_def)

definition millisecond :: duration where "millisecond = 1000000"
definition second :: duration where "second = 1000000000"
definition minute :: duration where "minute = 60000000000"
definition hour :: duration where "hour = 3600000000000"

lemmas duration_units = millisecond_def second_def minute_def hour_def

subsection \<open>The calendar\<close>

text \<open>
  Days are counted from 0000-03-01, so that a leap day ends its year: the day number is
  split into cycles of 400, 100, 4 and 1 years (the last century of 400 years and the last
  year of four are one day longer), and the day of the March-based year into months by the
  line \<open>(153 m + 2) div 5\<close>. \<open>ymd\<close> gives the civil year, month and day.
\<close>

definition epoch_day :: int where
  "epoch_day = 719468"

definition march_year :: "int \<Rightarrow> int \<times> int" where
  "march_year z =
     (let era = z div 146097; doe = z mod 146097;
          c = min (doe div 36524) 3; doc = doe - c * 36524;
          q = doc div 1461; doq = doc mod 1461;
          y = min (doq div 365) 3
      in (400 * era + 100 * c + 4 * q + y, doq - y * 365))"

definition march_month :: "int \<Rightarrow> int \<times> int" where
  "march_month doy = (let m = (5 * doy + 2) div 153 in (m, doy - (153 * m + 2) div 5))"

definition ymd :: "int \<Rightarrow> int \<times> int \<times> int" where
  "ymd day =
     (let (y, doy) = march_year (day + epoch_day); (m, d) = march_month doy
      in (if m < 10 then y else y + 1, if m < 10 then m + 3 else m - 9, d + 1))"

text \<open>The digits of a day number in the mixed radix of the calendar.\<close>

lemma march_year_digits:
  assumes "march_year z = (y, d)"
  obtains e c q k where
    "z = 146097 * e + 36524 * c + 1461 * q + 365 * k + d"
    "y = 400 * e + 100 * c + 4 * q + k"
    "0 \<le> c" "c \<le> 3" "0 \<le> q" "q \<le> 24" "0 \<le> k" "k \<le> 3" "0 \<le> d" "d \<le> 365"
    "k < 3 \<Longrightarrow> d < 365" "1461 * q + 365 * k + d \<le> 36524"
    "c < 3 \<Longrightarrow> 1461 * q + 365 * k + d < 36524"
proof -
  define e where "e = z div 146097"
  define f where "f = z mod 146097"
  define c where "c = min (f div 36524) 3"
  define g where "g = f - c * 36524"
  define q where "q = g div 1461"
  define h where "h = g mod 1461"
  define k where "k = min (h div 365) 3"
  have y: "y = 400 * e + 100 * c + 4 * q + k" "d = h - k * 365"
    using assms unfolding march_year_def Let_def e_def [symmetric] f_def [symmetric]
      c_def [symmetric] g_def [symmetric] q_def [symmetric] h_def [symmetric] k_def [symmetric]
    by auto
  have z: "z = 146097 * e + f" "0 \<le> f" "f < 146097"
    by (simp_all add: e_def f_def)
  have f: "f div 36524 * 36524 \<le> f" "f < f div 36524 * 36524 + 36524" "0 \<le> f div 36524"
  proof -
    have "f = 36524 * (f div 36524) + f mod 36524" "0 \<le> f mod 36524" "f mod 36524 < 36524"
      by simp_all
    then show "f div 36524 * 36524 \<le> f" "f < f div 36524 * 36524 + 36524"
      by linarith+
    show "0 \<le> f div 36524" using z(2) by (simp add: pos_imp_zdiv_nonneg_iff)
  qed
  have c: "0 \<le> c" "c \<le> 3" "0 \<le> g" "g \<le> 36524" "c < 3 \<Longrightarrow> g < 36524"
    using f z unfolding c_def g_def min_def by (auto split: if_splits)
  have q: "g = 1461 * q + h" "0 \<le> h" "h < 1461"
    by (simp_all add: q_def h_def)
  have q2: "0 \<le> q" "q \<le> 24"
    using q c(3,4) by linarith+
  have h: "h div 365 * 365 \<le> h" "h < h div 365 * 365 + 365" "0 \<le> h div 365"
  proof -
    have "h = 365 * (h div 365) + h mod 365" "0 \<le> h mod 365" "h mod 365 < 365"
      by simp_all
    then show "h div 365 * 365 \<le> h" "h < h div 365 * 365 + 365"
      by linarith+
    show "0 \<le> h div 365" using q(2) by (simp add: pos_imp_zdiv_nonneg_iff)
  qed
  have k: "0 \<le> k" "k \<le> 3" "0 \<le> d" "d \<le> 365" "k < 3 \<Longrightarrow> d < 365"
    using h q(3) unfolding k_def y(2) min_def by (auto split: if_splits)
  have e1: "1461 * q + 365 * k + d = g" using q(1) y(2) by linarith
  show ?thesis
    by (rule that [of e c q k]) (use y(1) z(1) c q2 k e1 g_def in linarith)+
qed

lemma march_year_range:
  assumes "march_year z = (y, d)"
  shows "0 \<le> d" "d \<le> 365"
  using march_year_digits [OF assms] by blast+

lemma march_year_mono:
  assumes "march_year z = (y, d)" "march_year z' = (y', d')" "z < z'"
  shows "y < y' \<or> y = y' \<and> d < d'"
proof -
  obtain e c q k where 1:
    "z = 146097 * e + 36524 * c + 1461 * q + 365 * k + d" "y = 400 * e + 100 * c + 4 * q + k"
    "0 \<le> c" "c \<le> 3" "0 \<le> q" "q \<le> 24" "0 \<le> k" "k \<le> 3" "0 \<le> d" "d \<le> 365"
    "k < 3 \<Longrightarrow> d < 365" "1461 * q + 365 * k + d \<le> 36524"
    "c < 3 \<Longrightarrow> 1461 * q + 365 * k + d < 36524"
    using march_year_digits [OF assms(1)] by blast
  obtain e' c' q' k' where 2:
    "z' = 146097 * e' + 36524 * c' + 1461 * q' + 365 * k' + d'"
    "y' = 400 * e' + 100 * c' + 4 * q' + k'"
    "0 \<le> c'" "c' \<le> 3" "0 \<le> q'" "q' \<le> 24" "0 \<le> k'" "k' \<le> 3" "0 \<le> d'" "d' \<le> 365"
    "k' < 3 \<Longrightarrow> d' < 365" "1461 * q' + 365 * k' + d' \<le> 36524"
    "c' < 3 \<Longrightarrow> 1461 * q' + 365 * k' + d' < 36524"
    using march_year_digits [OF assms(2)] by blast
  have e: "e \<le> e'" using 1 2 assms(3) by linarith
  show ?thesis
  proof (cases "e = e'")
    case False
    with e have "e < e'" by simp
    then show ?thesis using 1(2-8) 2(2-8) by linarith
  next
    case e: True
    then have c: "c \<le> c'" using 1 2 assms(3) by linarith
    show ?thesis
    proof (cases "c = c'")
      case False
      with c have "c < c'" by simp
      then show ?thesis using e 1(2-8) 2(2-8) by linarith
    next
      case c: True
      have q: "q \<le> q'" using e c 1 2 assms(3) by linarith
      show ?thesis
      proof (cases "q = q'")
        case False
        with q have "q < q'" by simp
        then show ?thesis using e c 1(2-8) 2(2-8) by linarith
      next
        case q: True
        have "k < k' \<or> k = k' \<and> d < d'" using e c q 1 2 assms(3) by linarith
        then show ?thesis using e c q 1(2) 2(2) by linarith
      qed
    qed
  qed
qed

lemma march_month_range:
  assumes "march_month doy = (m, d)" "0 \<le> doy" "doy \<le> 365"
  shows "0 \<le> m" "m \<le> 11" "0 \<le> d" "d \<le> 30"
proof -
  have m: "m = (5 * doy + 2) div 153" and d: "d = doy - (153 * m + 2) div 5"
    using assms(1) by (auto simp: march_month_def Let_def)
  show "0 \<le> m" "m \<le> 11" using assms(2,3) unfolding m by auto
  have "153 * m \<le> 5 * doy + 2" "5 * doy + 2 < 153 * m + 153"
    using div_mult_mod_eq [of "5 * doy + 2" 153] pos_mod_bound [of 153 "5 * doy + 2"]
      pos_mod_sign [of 153 "5 * doy + 2"] unfolding m by linarith+
  moreover have "5 * ((153 * m + 2) div 5) \<le> 153 * m + 2" "153 * m + 2 < 5 * ((153 * m + 2) div 5) + 5"
    using div_mult_mod_eq [of "153 * m + 2" 5] pos_mod_bound [of 5 "153 * m + 2"]
      pos_mod_sign [of 5 "153 * m + 2"] by linarith+
  ultimately show "0 \<le> d" "d \<le> 30" unfolding d by linarith+
qed

lemma march_month_mono:
  assumes "march_month x = (m, d)" "march_month x' = (m', d')" "x < x'"
  shows "m < m' \<or> m = m' \<and> d < d'"
proof -
  have "m \<le> m'" using assms by (auto simp: march_month_def Let_def intro!: zdiv_mono1)
  then show ?thesis using assms by (auto simp: march_month_def Let_def)
qed

text \<open>Civil dates of later days are later, read as year, month, day.\<close>

lemma ymd_range:
  assumes "ymd day = (y, m, d)"
  shows "1 \<le> m" "m \<le> 12" "1 \<le> d" "d \<le> 31"
proof -
  obtain Y doy where 1: "march_year (day + epoch_day) = (Y, doy)" by fastforce
  obtain M D where 2: "march_month doy = (M, D)" by fastforce
  have "0 \<le> M" "M \<le> 11" "0 \<le> D" "D \<le> 30"
    using march_month_range [OF 2] march_year_range [OF 1] by auto
  with assms 1 2 show "1 \<le> m" "m \<le> 12" "1 \<le> d" "d \<le> 31"
    by (auto simp: ymd_def split: if_splits)
qed

lemma ymd_mono:
  assumes "ymd x = (y, m, d)" "ymd x' = (y', m', d')" "x < x'"
  shows "y < y' \<or> y = y' \<and> (m < m' \<or> m = m' \<and> d < d')"
proof -
  obtain Y doy where 1: "march_year (x + epoch_day) = (Y, doy)" by fastforce
  obtain M D where 2: "march_month doy = (M, D)" by fastforce
  obtain Y' doy' where b1: "march_year (x' + epoch_day) = (Y', doy')" by fastforce
  obtain M' D' where b2: "march_month doy' = (M', D')" by fastforce
  have r: "0 \<le> M" "M \<le> 11" "0 \<le> M'" "M' \<le> 11"
    using march_month_range [OF 2] march_month_range [OF b2] march_year_range [OF 1]
      march_year_range [OF b1] by auto
  have ymd: "12 * y + m = 12 * Y + M + 3" "d = D + 1" "12 * y' + m' = 12 * Y' + M' + 3" "d' = D' + 1"
    using assms(1,2) 1 2 b1 b2 by (auto simp: ymd_def split: if_splits)
  have "Y < Y' \<or> Y = Y' \<and> doy < doy'"
    using march_year_mono [OF 1 b1] assms(3) by simp
  then have "Y < Y' \<or> Y = Y' \<and> (M < M' \<or> M = M' \<and> D < D')"
    using march_month_mono [OF 2 b2] by auto
  then have "12 * y + m < 12 * y' + m' \<or> 12 * y + m = 12 * y' + m' \<and> d < d'"
    using ymd r by linarith
  then show ?thesis
    using ymd_range [OF assms(1)] ymd_range [OF assms(2)] by linarith
qed

lemma ymd_year_mono: "x \<le> x' \<Longrightarrow> fst (ymd x) \<le> fst (ymd x')"
  using ymd_mono [of x "fst (ymd x)" "fst (snd (ymd x))" "snd (snd (ymd x))" x'
      "fst (ymd x')" "fst (snd (ymd x'))" "snd (snd (ymd x'))"]
  by (cases "x = x'") auto

subsection \<open>Timestamps as text\<close>

text \<open>
  \<open>formatTimestamp\<close> of timestamps.go: UTC in the layout
  \<open>2006-01-02T15:04:05.000Z07:00\<close>, with the nanoseconds below a millisecond cut off and the
  year padded to four digits.
\<close>

definition year_string :: "int \<Rightarrow> string" where
  "year_string y =
     (let n = nat \<bar>y\<bar>; digits = (if n < 10000 then pad 4 n else nat_string n)
      in if y < 0 then ''-'' @ digits else digits)"

definition date_string :: "int \<Rightarrow> string" where
  "date_string day = (let (y, m, d) = ymd day
     in year_string y @ ''-'' @ pad 2 (nat m) @ ''-'' @ pad 2 (nat d))"

definition clock_string :: "nat \<Rightarrow> string" where
  "clock_string r =
     pad 2 (r div 1000 div 60 div 60) @ '':'' @ pad 2 (r div 1000 div 60 mod 60) @ '':''
     @ pad 2 (r div 1000 mod 60) @ ''.'' @ pad 3 (r mod 1000)"

definition ms_of :: "time \<Rightarrow> int" where
  "ms_of t = t div millisecond"

definition day_ms :: int where
  "day_ms = 86400000"

definition format_timestamp :: "time \<Rightarrow> string" where
  "format_timestamp t =
     date_string (ms_of t div day_ms) @ ''T'' @ clock_string (nat (ms_of t mod day_ms)) @ ''Z''"

text \<open>The instants of the years 0000 to 9999, the ones the layout can write in four digits.\<close>

definition four_digit_year :: "time \<Rightarrow> bool" where
  "four_digit_year t \<longleftrightarrow> - 719528 * day_ms \<le> ms_of t \<and> ms_of t < 2932897 * day_ms"

lemma four_digit_yearD:
  assumes "four_digit_year t"
  shows "0 \<le> fst (ymd (ms_of t div day_ms))" "fst (ymd (ms_of t div day_ms)) \<le> 9999"
proof -
  have "- 719528 \<le> ms_of t div day_ms" "ms_of t div day_ms \<le> 2932896"
  proof -
    have "ms_of t = 86400000 * (ms_of t div 86400000) + ms_of t mod 86400000"
      "0 \<le> ms_of t mod 86400000" "ms_of t mod 86400000 < 86400000"
      by simp_all
    then show "- 719528 \<le> ms_of t div day_ms" "ms_of t div day_ms \<le> 2932896"
      using assms unfolding four_digit_year_def day_ms_def by linarith+
  qed
  then have "fst (ymd (- 719528)) \<le> fst (ymd (ms_of t div day_ms))"
    "fst (ymd (ms_of t div day_ms)) \<le> fst (ymd 2932896)"
    by (simp_all add: ymd_year_mono)
  moreover have "fst (ymd (- 719528)) = 0" "fst (ymd 2932896) = 9999"
    by code_simp+
  ultimately show "0 \<le> fst (ymd (ms_of t div day_ms))" "fst (ymd (ms_of t div day_ms)) \<le> 9999"
    by simp_all
qed

lemma date_string_eq:
  assumes "ymd day = (y, m, d)" "0 \<le> y" "y \<le> 9999"
  shows "date_string day = pad 4 (nat y) @ ''-'' @ pad 2 (nat m) @ ''-'' @ pad 2 (nat d)"
proof -
  have "nat y < 10000" using assms(3) by simp
  with assms show ?thesis by (simp add: date_string_def year_string_def Let_def)
qed

lemma length_date_string:
  "0 \<le> fst (ymd day) \<Longrightarrow> fst (ymd day) \<le> 9999 \<Longrightarrow> length (date_string day) = 10"
  using date_string_eq by (cases "ymd day") auto

lemma date_string_mono:
  assumes "x < x'" "0 \<le> fst (ymd x)" "fst (ymd x') \<le> 9999"
  shows "date_string x < date_string x'"
proof -
  obtain y m d where 1: "ymd x = (y, m, d)" by (metis prod_cases3)
  obtain y' m' d' where 2: "ymd x' = (y', m', d')" by (metis prod_cases3)
  have le: "y \<le> y'" using ymd_year_mono [of x x'] assms 1 2 by simp
  have r: "1 \<le> m" "m \<le> 12" "1 \<le> d" "d \<le> 31" "1 \<le> m'" "m' \<le> 12" "1 \<le> d'" "d' \<le> 31"
    using ymd_range [OF 1] ymd_range [OF 2] by auto
  have b: "nat y < 10 ^ 4" "nat y' < 10 ^ 4" "nat m < 10 ^ 2" "nat m' < 10 ^ 2"
    "nat d < 10 ^ 2" "nat d' < 10 ^ 2"
    using r le assms 1 2 by auto
  have lex: "nat y < nat y' \<or> nat y = nat y' \<and> (nat m < nat m' \<or> nat m = nat m' \<and> nat d < nat d')"
    using ymd_mono [OF 1 2 assms(1)] r assms(2) 1 le by auto
  have "date_string x = pad 4 (nat y) @ ''-'' @ pad 2 (nat m) @ ''-'' @ pad 2 (nat d)"
    "date_string x' = pad 4 (nat y') @ ''-'' @ pad 2 (nat m') @ ''-'' @ pad 2 (nat d')"
    using date_string_eq [OF 1] date_string_eq [OF 2] assms le 1 2 by auto
  moreover have "pad 4 (nat y) @ ''-'' @ pad 2 (nat m) @ ''-'' @ pad 2 (nat d)
      < pad 4 (nat y') @ ''-'' @ pad 2 (nat m') @ ''-'' @ pad 2 (nat d')"
    using lex by (simp only: append_less_same_length length_pad pad_less pad_inject b) auto
  ultimately show ?thesis by simp
qed

lemma clock_bounds:
  fixes r :: nat
  assumes "r < 86400000"
  shows "r div 1000 div 60 div 60 < 24" "r div 1000 div 60 mod 60 < 60"
    "r div 1000 mod 60 < 60" "r mod 1000 < 1000"
proof -
  from assms have "r div 1000 < 86400" by simp
  then have "r div 1000 div 60 < 1440" by simp
  then show "r div 1000 div 60 div 60 < 24" by simp
qed simp_all

lemma below_pow:
  "(x :: nat) < 24 \<Longrightarrow> x < 10 ^ 2" "(x :: nat) < 60 \<Longrightarrow> x < 10 ^ 2" "(x :: nat) < 1000 \<Longrightarrow> x < 10 ^ 3"
  by simp_all

lemma mod_less_step:
  fixes m n k :: nat
  assumes "0 < k"
  shows "m < n \<longleftrightarrow> m div k < n div k \<or> m div k = n div k \<and> m mod k < n mod k"
proof (rule iffI)
  assume "m < n"
  then have "m div k \<le> n div k" by (simp add: div_le_mono)
  moreover have "m div k = n div k \<Longrightarrow> m mod k < n mod k"
    using \<open>m < n\<close> by (metis div_mult_mod_eq nat_add_left_cancel_less)
  ultimately show "m div k < n div k \<or> m div k = n div k \<and> m mod k < n mod k" by linarith
next
  assume "m div k < n div k \<or> m div k = n div k \<and> m mod k < n mod k"
  then show "m < n"
    by (metis div_le_mono div_mult_mod_eq linorder_not_less nat_add_left_cancel_less)
qed

lemma clock_string_mono:
  assumes "r < r'" "r' < 86400000"
  shows "clock_string r < clock_string r'"
proof -
  let ?h = "\<lambda>x :: nat. x div 1000 div 60 div 60" and ?m = "\<lambda>x :: nat. x div 1000 div 60 mod 60"
    and ?s = "\<lambda>x :: nat. x div 1000 mod 60" and ?f = "\<lambda>x :: nat. x mod 1000"
  have bound: "?h x < 10 ^ 2 \<and> ?m x < 10 ^ 2 \<and> ?s x < 10 ^ 2 \<and> ?f x < 10 ^ 3"
    if "x < 86400000" for x
    using clock_bounds [OF that] below_pow by blast
  have b: "?h r < 10 ^ 2" "?m r < 10 ^ 2" "?s r < 10 ^ 2" "?f r < 10 ^ 3"
    "?h r' < 10 ^ 2" "?m r' < 10 ^ 2" "?s r' < 10 ^ 2" "?f r' < 10 ^ 3"
    using bound [of r] bound [of r'] assms by auto
  have "?h r < ?h r' \<or> ?h r = ?h r' \<and> (?m r < ?m r' \<or> ?m r = ?m r' \<and>
      (?s r < ?s r' \<or> ?s r = ?s r' \<and> ?f r < ?f r'))"
  proof -
    have "r div 1000 < r' div 1000 \<or> r div 1000 = r' div 1000 \<and> ?f r < ?f r'"
      using assms(1) mod_less_step [of 1000 r r'] by simp
    moreover have "r div 1000 < r' div 1000 \<longleftrightarrow> r div 1000 div 60 < r' div 1000 div 60
        \<or> r div 1000 div 60 = r' div 1000 div 60 \<and> ?s r < ?s r'"
      by (rule mod_less_step) simp
    moreover have "r div 1000 div 60 < r' div 1000 div 60 \<longleftrightarrow> ?h r < ?h r'
        \<or> ?h r = ?h r' \<and> ?m r < ?m r'"
      by (rule mod_less_step) simp
    ultimately show ?thesis by metis
  qed
  then show ?thesis
    unfolding clock_string_def
    by (simp only: append_less_same_length length_pad pad_less pad_inject b) auto
qed

lemma length_clock_string: "length (clock_string r) = 12"
  by (simp add: clock_string_def)

lemma format_timestamp_mono:
  assumes "four_digit_year t" "four_digit_year u" "ms_of t < ms_of u"
  shows "format_timestamp t < format_timestamp u"
proof -
  let ?d = "\<lambda>t. ms_of t div day_ms" and ?r = "\<lambda>t. nat (ms_of t mod day_ms)"
  have len: "length (date_string (?d t)) = length (date_string (?d u))"
    using assms four_digit_yearD length_date_string by presburger
  have r: "0 \<le> ms_of x mod day_ms" "ms_of x mod day_ms < 86400000" for x
    by (simp_all add: day_ms_def)
  have "?d t \<le> ?d u" using assms(3) by (simp add: day_ms_def zdiv_mono1)
  then consider "?d t < ?d u" | "?d t = ?d u" "ms_of t mod day_ms < ms_of u mod day_ms"
    using assms(3) by (metis add_less_cancel_left div_mult_mod_eq order_le_less)
  then show ?thesis
  proof cases
    case 1
    then have "date_string (?d t) < date_string (?d u)"
      using assms four_digit_yearD date_string_mono by blast
    then show ?thesis
      by (simp add: format_timestamp_def append_less_same_length len)
  next
    case 2
    then have "clock_string (?r t) < clock_string (?r u)"
      using r [of t] r [of u] by (intro clock_string_mono) linarith+
    with 2(1) show ?thesis
      by (simp add: format_timestamp_def append_less_same_length length_clock_string)
  qed
qed

text \<open>Text order is the order in milliseconds.\<close>

lemma format_timestamp_less:
  assumes "four_digit_year t" "four_digit_year u"
  shows "format_timestamp t < format_timestamp u \<longleftrightarrow> ms_of t < ms_of u"
proof -
  have eq: "ms_of t = ms_of u \<Longrightarrow> format_timestamp t = format_timestamp u"
    by (simp add: format_timestamp_def)
  show ?thesis
    using format_timestamp_mono [OF assms] format_timestamp_mono [OF assms(2,1)] eq
    by (metis less_irrefl linorder_cases order_less_asym)
qed

lemma format_timestamp_le:
  assumes "four_digit_year t" "four_digit_year u"
  shows "format_timestamp t \<le> format_timestamp u \<longleftrightarrow> ms_of t \<le> ms_of u"
  using format_timestamp_less [OF assms(2,1)] by (simp add: not_less [symmetric])

text \<open>
  \<open>time.Parse\<close> with that layout, on the texts the layout writes in UTC: fixed widths,
  the separators in place, a date of the calendar, a time of the day, and \<open>Z\<close>. A date is
  one of the calendar if it is the date of its own day number.
\<close>

definition day_of :: "int \<Rightarrow> int \<Rightarrow> int \<Rightarrow> int" where
  "day_of y m d =
     (let Y = (if 2 < m then y else y - 1); M = (if 2 < m then m - 3 else m + 9)
      in 365 * Y + Y div 4 - Y div 100 + Y div 400 + (153 * M + 2) div 5 + d - 1 - epoch_day)"

definition field_at :: "string \<Rightarrow> nat \<Rightarrow> nat \<Rightarrow> nat option" where
  "field_at s i w = number (take w (drop i s))"

definition parse_timestamp :: "string \<Rightarrow> time option" where
  "parse_timestamp s =
     (if length s = 24 \<and> s ! 4 = CHR ''-'' \<and> s ! 7 = CHR ''-'' \<and> s ! 10 = CHR ''T''
         \<and> s ! 13 = CHR '':'' \<and> s ! 16 = CHR '':'' \<and> s ! 19 = CHR ''.'' \<and> s ! 23 = CHR ''Z''
      then case (field_at s 0 4, field_at s 5 2, field_at s 8 2, field_at s 11 2,
                 field_at s 14 2, field_at s 17 2, field_at s 20 3) of
          (Some y, Some m, Some d, Some h, Some mi, Some sec, Some f) \<Rightarrow>
            (let day = day_of (int y) (int m) (int d) in
             if ymd day = (int y, int m, int d) \<and> h < 24 \<and> mi < 60 \<and> sec < 60
             then Some ((day * day_ms + int (((h * 60 + mi) * 60 + sec) * 1000 + f)) * millisecond)
             else None)
        | _ \<Rightarrow> None
      else None)"

lemma march_day:
  assumes "march_year z = (y, d)"
  shows "365 * y + y div 4 - y div 100 + y div 400 + d = z"
proof -
  obtain e c q k where 1:
    "z = 146097 * e + 36524 * c + 1461 * q + 365 * k + d" "y = 400 * e + 100 * c + 4 * q + k"
    "0 \<le> c" "c \<le> 3" "0 \<le> q" "q \<le> 24" "0 \<le> k" "k \<le> 3"
    using march_year_digits [OF assms] by metis
  have "y div 4 = 100 * e + 25 * c + q"
    by (rule int_div_pos_eq [of _ _ _ k]) (use 1(2,7,8) in auto)
  moreover have "y div 100 = 4 * e + c"
    by (rule int_div_pos_eq [of _ _ _ "4 * q + k"]) (use 1(2,5-8) in auto)
  moreover have "y div 400 = e"
    by (rule int_div_pos_eq [of _ _ _ "100 * c + 4 * q + k"]) (use 1(2-8) in auto)
  ultimately show ?thesis using 1(1,2) by linarith
qed

lemma day_of_ymd:
  assumes "ymd day = (y, m, d)"
  shows "day_of y m d = day"
proof -
  obtain Y doy where 1: "march_year (day + epoch_day) = (Y, doy)" by fastforce
  obtain M D where 2: "march_month doy = (M, D)" by fastforce
  have r: "0 \<le> M" "M \<le> 11"
    using march_month_range [OF 2] march_year_range [OF 1] by auto
  have D: "D = doy - (153 * M + 2) div 5" using 2 by (auto simp: march_month_def Let_def)
  have "d = D + 1" "(if 2 < m then y else y - 1) = Y" "(if 2 < m then m - 3 else m + 9) = M"
    using assms 1 2 r by (auto simp: ymd_def split: if_splits)
  then show ?thesis
    using march_day [OF 1] D by (simp add: day_of_def)
qed

lemma nth_append_right: "length xs \<le> i \<Longrightarrow> (xs @ ys) ! i = ys ! (i - length xs)"
  by (simp add: nth_append)

lemma timestamp_fields:
  assumes "length a = 4" "length b = 2" "length c = 2" "length h = 2" "length m = 2"
    "length s = 2" "length f = 3"
    and t: "t = a @ ''-'' @ b @ ''-'' @ c @ ''T'' @ h @ '':'' @ m @ '':'' @ s @ ''.'' @ f @ ''Z''"
  shows "length t = 24" "t ! 4 = CHR ''-''" "t ! 7 = CHR ''-''" "t ! 10 = CHR ''T''"
    "t ! 13 = CHR '':''" "t ! 16 = CHR '':''" "t ! 19 = CHR ''.''" "t ! 23 = CHR ''Z''"
    "field_at t 0 4 = number a" "field_at t 5 2 = number b" "field_at t 8 2 = number c"
    "field_at t 11 2 = number h" "field_at t 14 2 = number m" "field_at t 17 2 = number s"
    "field_at t 20 3 = number f"
  unfolding t field_at_def
  by (simp_all add: assms(1-7) nth_append_right del: number.simps nth_append_length)

theorem parse_format_timestamp:
  assumes "four_digit_year t"
  shows "parse_timestamp (format_timestamp t) = Some (ms_of t * millisecond)"
proof -
  define day where "day = ms_of t div day_ms"
  define r where "r = nat (ms_of t mod day_ms)"
  obtain y m d where ymd: "ymd day = (y, m, d)" by (metis prod_cases3)
  have y: "0 \<le> y" "y \<le> 9999"
    using four_digit_yearD [OF assms] ymd by (auto simp: day_def)
  have md: "1 \<le> m" "m \<le> 12" "1 \<le> d" "d \<le> 31" by (rule ymd_range [OF ymd])+
  have r: "r < 86400000" "int r = ms_of t mod day_ms"
    by (simp_all add: r_def day_ms_def nat_less_iff)
  note cb = clock_bounds [OF r(1)]
  have eq: "format_timestamp t = pad 4 (nat y) @ ''-'' @ pad 2 (nat m) @ ''-'' @ pad 2 (nat d)
      @ ''T'' @ pad 2 (r div 1000 div 60 div 60) @ '':'' @ pad 2 (r div 1000 div 60 mod 60) @ '':''
      @ pad 2 (r div 1000 mod 60) @ ''.'' @ pad 3 (r mod 1000) @ ''Z''"
    by (simp add: format_timestamp_def date_string_eq [OF ymd y] clock_string_def
        flip: day_def r_def)
  have n: "number (pad 4 (nat y)) = Some (nat y)" "number (pad 2 (nat m)) = Some (nat m)"
    "number (pad 2 (nat d)) = Some (nat d)"
    "number (pad 2 (r div 1000 div 60 div 60)) = Some (r div 1000 div 60 div 60)"
    "number (pad 2 (r div 1000 div 60 mod 60)) = Some (r div 1000 div 60 mod 60)"
    "number (pad 2 (r div 1000 mod 60)) = Some (r div 1000 mod 60)"
    "number (pad 3 (r mod 1000)) = Some (r mod 1000)"
    using y md cb by (simp_all add: number_pad below_pow del: number.simps)
  have i: "int (nat y) = y" "int (nat m) = m" "int (nat d) = d" using y md by auto
  have c: "((r div 1000 div 60 div 60 * 60 + r div 1000 div 60 mod 60) * 60 + r div 1000 mod 60) * 1000
      + r mod 1000 = r"
    by simp
  have "day * day_ms + int r = ms_of t"
    by (simp add: r(2) day_def)
  then show ?thesis
    unfolding parse_timestamp_def
      timestamp_fields [OF length_pad length_pad length_pad length_pad length_pad length_pad
        length_pad eq]
    by (simp only: n i c day_of_ymd [OF ymd] ymd cb option.case prod.case Let_def simp_thms if_True)
qed

lemma ms_of_mult [simp]: "ms_of (n * millisecond) = n"
  by (simp add: ms_of_def millisecond_def)

lemma ms_of_mono: "t \<le> u \<Longrightarrow> ms_of t \<le> ms_of u"
  by (simp add: ms_of_def millisecond_def zdiv_mono1)

lemma ms_of_le_iff: "m * millisecond \<le> t \<longleftrightarrow> m \<le> ms_of t"
  by (simp add: ms_of_def millisecond_def) linarith

end
