(* ===== verification/GoLayout.thy ===== *)
theory GoLayout
  imports GoJson GoTime
begin

section \<open>Reading times\<close>

text \<open>
  \<open>time.Parse\<close> with the layouts of the GitLab decoder. Each reader takes what it needs from
  the front of the text and gives the rest. Only the instant is kept, no caller reads the zone.
  The abbreviation of a zone means what the machine's local zone says, \<open>local_zone\<close> gives its
  offset in seconds at an instant; an unknown one stands for UTC.
\<close>

text \<open>\<open>getnum\<close>: two digits, or one where the layout does not fix the width.\<close>

definition get_num :: "bool \<Rightarrow> string \<Rightarrow> (nat \<times> string) option" where
  "get_num fixed s =
     (case s of
        a # b # r \<Rightarrow> if \<not> is_digit a then None
          else if is_digit b then Some ((code a - 48) * 10 + (code b - 48), r)
          else if fixed then None else Some (code a - 48, b # r)
      | [a] \<Rightarrow> if is_digit a \<and> \<not> fixed then Some (code a - 48, []) else None
      | [] \<Rightarrow> None)"

definition get_year :: "string \<Rightarrow> (nat \<times> string) option" where
  "get_year s = (if length s < 4 then None else map_option (\<lambda>n. (n, drop 4 s)) (number (take 4 s)))"

text \<open>A literal of the layout; a space stands for any number of spaces, none only at the end.\<close>

definition skip_byte :: "char \<Rightarrow> string \<Rightarrow> string option" where
  "skip_byte c s = (if prefix [c] s then Some (tl s) else None)"

definition skip_spaces :: "string \<Rightarrow> string option" where
  "skip_spaces s = (if s \<noteq> [] \<and> hd s \<noteq> CHR '' '' then None else Some (dropWhile (\<lambda>c. c = CHR '' '') s))"

text \<open>A fraction of a second where the text has one, in nanoseconds; digits after the ninth are cut.\<close>

definition nanoseconds :: "string \<Rightarrow> nat" where
  "nanoseconds ds = (case number (take 9 (ds @ replicate 9 CHR ''0'')) of None \<Rightarrow> 0 | Some n \<Rightarrow> n)"

definition get_fraction :: "string \<Rightarrow> nat \<times> string" where
  "get_fraction s =
     (case s of
        p # d # r \<Rightarrow> if (p = CHR ''.'' \<or> p = CHR '','') \<and> is_digit d
          then (nanoseconds (takeWhile is_digit (d # r)), dropWhile is_digit (d # r)) else (0, s)
      | _ \<Rightarrow> (0, s))"

text \<open>\<open>2006-01-02\<close>, a separator, \<open>15:04:05\<close>: the nanoseconds since the epoch, as if in UTC.\<close>

definition get_date :: "string \<Rightarrow> ((nat \<times> nat \<times> nat) \<times> string) option" where
  "get_date s =
     Option.bind (get_year s) (\<lambda>(y, s1). Option.bind (skip_byte CHR ''-'' s1) (\<lambda>s2.
     Option.bind (get_num True s2) (\<lambda>(m, s3). Option.bind (skip_byte CHR ''-'' s3) (\<lambda>s4.
     Option.bind (get_num True s4) (\<lambda>(d, s5). Some ((y, m, d), s5))))))"

definition get_clock :: "string \<Rightarrow> (nat \<times> string) option" where
  "get_clock s =
     Option.bind (get_num False s) (\<lambda>(h, s1). Option.bind (skip_byte CHR '':'' s1) (\<lambda>s2.
     Option.bind (get_num True s2) (\<lambda>(mi, s3). Option.bind (skip_byte CHR '':'' s3) (\<lambda>s4.
     Option.bind (get_num True s4) (\<lambda>(sec, s5).
       if h < 24 \<and> mi < 60 \<and> sec < 60 then Some ((h * 60 + mi) * 60 + sec, s5) else None)))))"

definition instant :: "nat \<times> nat \<times> nat \<Rightarrow> nat \<Rightarrow> nat \<Rightarrow> time option" where
  "instant date clock ns =
     (case date of (y, m, d) \<Rightarrow>
        (let day = day_of (int y) (int m) (int d) in
         if 1 \<le> m \<and> m \<le> 12 \<and> ymd day = (int y, int m, int d)
         then Some ((day * 86400 + int clock) * second + int ns) else None))"

definition date_clock :: "(string \<Rightarrow> string option) \<Rightarrow> string \<Rightarrow> (time \<times> string) option" where
  "date_clock sep s =
     Option.bind (get_date s) (\<lambda>(date, s1). Option.bind (sep s1) (\<lambda>s2.
     Option.bind (get_clock s2) (\<lambda>(clock, s3).
       (case get_fraction s3 of (ns, s4) \<Rightarrow> map_option (\<lambda>t. (t, s4)) (instant date clock ns)))))"

text \<open>A numeric offset, \<open>+07:00\<close> or \<open>+0700\<close>, in seconds.\<close>

definition get_offset :: "bool \<Rightarrow> string \<Rightarrow> (int \<times> string) option" where
  "get_offset colon s =
     (if length s < (if colon then 6 else 5) \<or> (colon \<and> s ! 3 \<noteq> CHR '':'') then None
      else
        let minutes = (if colon then drop 4 s else drop 3 s) in
        case (get_num True (take 2 (drop 1 s)), get_num True (take 2 minutes)) of
          (Some (h, _), Some (mi, _)) \<Rightarrow>
            if 24 < h \<or> 60 < mi then None
            else if hd s = CHR ''+'' then Some (int ((h * 60 + mi) * 60), drop 2 minutes)
            else if hd s = CHR ''-'' then Some (- int ((h * 60 + mi) * 60), drop 2 minutes)
            else None
        | _ \<Rightarrow> None)"

text \<open>The abbreviation of a zone: three to five capitals, or GMT with an hour.\<close>

definition is_capital :: "char \<Rightarrow> bool" where
  "is_capital c \<longleftrightarrow> 65 \<le> code c \<and> code c \<le> 90"

definition signed_hour :: "string \<Rightarrow> nat" where
  "signed_hour s =
     (case s of
        sign # r \<Rightarrow>
          (let ds = takeWhile is_digit r in
           if sign \<in> set ''+-'' \<and> ds \<noteq> [] \<and> the (number ds) < 24 then 1 + length ds else 0)
      | [] \<Rightarrow> 0)"

definition zone_length :: "string \<Rightarrow> nat option" where
  "zone_length s =
     (let n = length (takeWhile is_capital (take 6 s)) in
      if length s < 3 then None
      else if prefix ''ChST'' s \<or> prefix ''MeST'' s then Some 4
      else if prefix ''GMT'' s then Some (3 + signed_hour (drop 3 s))
      else if hd s \<in> set ''+-'' then (if signed_hour s = 0 then None else Some (signed_hour s))
      else if n = 5 then (if s ! 4 = CHR ''T'' then Some 5 else None)
      else if n = 4 then (if s ! 3 = CHR ''T'' \<or> prefix ''WITA'' s then Some 4 else None)
      else if n = 3 then Some 3 else None)"

subsection \<open>The layouts\<close>

definition parse_rfc3339 :: "string \<Rightarrow> time option" where
  "parse_rfc3339 s =
     Option.bind (date_clock (skip_byte CHR ''T'') s) (\<lambda>(t, r).
       if r = ''Z'' then Some t
       else case get_offset True r of
         Some (off, []) \<Rightarrow> Some (t - off * second)
       | _ \<Rightarrow> None)"

definition parse_named_zone :: "(string \<Rightarrow> time \<Rightarrow> int option) \<Rightarrow> string \<Rightarrow> time option" where
  "parse_named_zone local_zone s =
     Option.bind (date_clock skip_spaces s) (\<lambda>(t, r0). Option.bind (skip_spaces r0) (\<lambda>r.
       if prefix ''UTC'' r then (if drop 3 r = [] then Some t else None)
       else case zone_length r of
         None \<Rightarrow> None
       | Some n \<Rightarrow>
         if drop n r \<noteq> [] then None
         else (case local_zone (take n r) t of None \<Rightarrow> Some t | Some off \<Rightarrow> Some (t - off * second))))"

definition parse_numeric_zone :: "string \<Rightarrow> time option" where
  "parse_numeric_zone s =
     Option.bind (date_clock skip_spaces s) (\<lambda>(t, r0). Option.bind (skip_spaces r0) (\<lambda>r.
       case get_offset False r of
         Some (off, []) \<Rightarrow> Some (t - off * second)
       | _ \<Rightarrow> None))"

text \<open>
  The layout with three fixed digits of fraction reads what \<open>parse_rfc3339\<close> reads, and besides
  a fraction with a sign, which \<open>atoi\<close> lets through: \<open>.+12\<close> is twelve milliseconds.
\<close>

definition parse_millis :: "string \<Rightarrow> time option" where
  "parse_millis s =
     Option.bind (get_date s) (\<lambda>(date, s1). Option.bind (skip_byte CHR ''T'' s1) (\<lambda>s2.
     Option.bind (get_clock s2) (\<lambda>(clock, s3).
       if length s3 = 5 \<and> (hd s3 = CHR ''.'' \<or> hd s3 = CHR '','') \<and> s3 ! 4 = CHR ''Z'' then
         (let f = take 3 (tl s3); ds = (if hd f \<in> set ''+-'' then tl f else f) in
          case number ds of
            None \<Rightarrow> None
          | Some n \<Rightarrow> if hd f = CHR ''-'' \<and> n \<noteq> 0 then None else instant date clock (n * 1000000))
       else None)))"

end
