(* ===== verification/Domain.thy ===== *)
theory Domain
  imports GoTime
begin

section \<open>The domain model\<close>

text \<open>
  The structs of \<open>internal/domain\<close> as records, in their order and with their fields.
  \<open>Provider\<close>, \<open>EventKind\<close> and \<open>AddressKind\<close> are string types with named constants in
  Go and are so here; a pointer is an \<open>option\<close>, a slice is a list, a map is a \<open>gomap\<close>.
  The zero values of the structs are the definitions \<open>no_\<dots>\<close>.
\<close>

subsection \<open>event.go\<close>

type_synonym provider = string
type_synonym event_kind = string

abbreviation (input) ProviderGitLab :: provider where "ProviderGitLab \<equiv> ''gitlab''"
abbreviation (input) ProviderGitHub :: provider where "ProviderGitHub \<equiv> ''github''"
abbreviation (input) ProviderForgejo :: provider where "ProviderForgejo \<equiv> ''forgejo''"

abbreviation (input) EventKindPipeline :: event_kind where "EventKindPipeline \<equiv> ''pipeline''"
abbreviation (input) EventKindMergeRequest :: event_kind where "EventKindMergeRequest \<equiv> ''merge_request''"
abbreviation (input) EventKindNote :: event_kind where "EventKindNote \<equiv> ''note''"
abbreviation (input) EventKindIssue :: event_kind where "EventKindIssue \<equiv> ''issue''"

record identity =
  i_provider :: provider
  i_provider_id :: string
  i_username :: string
  i_email :: string
  i_name :: string

record project_ref =
  p_id :: string
  p_path :: string
  p_url :: string
  p_default_branch :: string

record resource_ref =
  r_kind :: event_kind
  r_id :: string
  r_iid :: string
  r_title :: string
  r_url :: string

record change =
  ch_field :: string
  ch_before :: string
  ch_after :: string
  ch_added :: "identity list"
  ch_removed :: "identity list"

record pipeline_job =
  job_id :: string
  job_name :: string
  job_status :: string
  job_allow_failure :: bool
  job_url :: string

record pipeline_details =
  pl_id :: string
  pl_iid :: string
  pl_name :: string
  pl_ref :: string
  pl_sha :: string
  pl_source :: string
  pl_status :: string
  pl_url :: string
  pl_commit_url :: string
  pl_commit_author :: identity
  pl_merge_request :: "resource_ref option"
  pl_failed_jobs :: "pipeline_job list"

record merge_request_details =
  mr_id :: string
  mr_iid :: string
  mr_title :: string
  mr_description :: string
  mr_url :: string
  mr_source_branch :: string
  mr_target_branch :: string
  mr_state :: string
  mr_author :: identity
  mr_reviewers :: "identity list"
  mr_assignees :: "identity list"

record issue_details =
  is_id :: string
  is_iid :: string
  is_title :: string
  is_description :: string
  is_url :: string
  is_state :: string
  is_author :: identity
  is_assignees :: "identity list"

record note_details =
  nt_id :: string
  nt_body :: string
  nt_action :: string
  nt_noteable_type :: string
  nt_url :: string
  nt_system :: bool
  nt_merge_request :: "merge_request_details option"
  nt_issue :: "issue_details option"

record canonical_event =
  ev_event_key :: string
  ev_source :: provider
  ev_source_label :: string
  ev_source_version :: string
  ev_source_event :: string
  ev_kind :: event_kind
  ev_action :: string
  ev_received_at :: time
  ev_occurred_at :: "time option"
  ev_project :: project_ref
  ev_actor :: identity
  ev_author :: "identity option"
  ev_reviewers :: "identity list"
  ev_assignees :: "identity list"
  ev_mentions :: "identity list"
  ev_object :: resource_ref
  ev_changes :: "change list"
  ev_pipeline :: "pipeline_details option"
  ev_merge_request :: "merge_request_details option"
  ev_note :: "note_details option"
  ev_issue :: "issue_details option"
  ev_source_text :: string
  ev_raw_status :: string
  ev_metadata :: "(string, string) gomap"

subsection \<open>notification.go\<close>

type_synonym address_kind = string

abbreviation (input) AddressKindEmail :: address_kind where "AddressKindEmail \<equiv> ''email''"

record recipient_address =
  a_kind :: address_kind
  a_value :: string
  a_display_name :: string

record pipeline_state =
  ps_correlation_key :: string
  ps_status :: string
  ps_recipients :: "recipient_address list"
  ps_updated_at :: time

record notification_reason =
  re_code :: string
  re_text :: string

record notification_link =
  ln_label :: string
  ln_url :: string

abbreviation (input) ActionOpenSettings :: string where "ActionOpenSettings \<equiv> ''open_settings''"
abbreviation (input) ActionCloseSettings :: string where "ActionCloseSettings \<equiv> ''close_settings''"
abbreviation (input) ActionMuteAll :: string where "ActionMuteAll \<equiv> ''mute_all''"
abbreviation (input) ActionUnmuteAll :: string where "ActionUnmuteAll \<equiv> ''unmute_all''"

record notification_action =
  na_action :: string
  na_label :: string
  na_value :: "(string, string) gomap"

record notification =
  n_event_key :: string
  n_kind :: event_kind
  n_action :: string
  n_project :: project_ref
  n_object :: resource_ref
  n_recipient :: recipient_address
  n_reasons :: "notification_reason list"
  n_title :: string
  n_summary :: string
  n_source_text :: string
  n_url :: string
  n_facts :: "(string, string) gomap"
  n_failed_jobs :: "string list"
  n_failed_job_links :: "notification_link list"
  n_related_links :: "notification_link list"
  n_actions :: "notification_action list"

record delivery =
  d_key :: string
  d_notification :: notification

record delivery_receipt =
  rc_provider_message_id :: string

record delivery_failure =
  f_class :: string
  f_retryable :: bool
  f_message :: string

subsection \<open>interaction.go and the structs of ports\<close>

abbreviation (input) InteractionApplied :: string where "InteractionApplied \<equiv> ''applied''"
abbreviation (input) InteractionDuplicate :: string where "InteractionDuplicate \<equiv> ''duplicate''"
abbreviation (input) InteractionRejected :: string where "InteractionRejected \<equiv> ''rejected''"
abbreviation (input) InteractionIgnored :: string where "InteractionIgnored \<equiv> ''ignored''"

record interaction =
  in_event_id :: string
  in_message_id :: string
  in_actor_id :: string
  in_action :: string
  in_value :: "(string, string) gomap"

record preference_state =
  pr_muted :: bool
  pr_muted_until :: "time option"

record interaction_result =
  ir_status :: string
  ir_notification :: "notification option"
  ir_settings :: "preference_state option"
  ir_toast :: string

record interaction_record =
  rec_event_id :: string
  rec_provider :: provider
  rec_message_id :: string
  rec_actor_id :: string
  rec_action :: string
  rec_result :: string

record recorded_delivery =
  rd_key :: string
  rd_notification :: notification

subsection \<open>Zero values\<close>

definition no_identity :: identity where
  "no_identity = \<lparr>i_provider = [], i_provider_id = [], i_username = [], i_email = [], i_name = []\<rparr>"

definition no_address :: recipient_address where
  "no_address = \<lparr>a_kind = [], a_value = [], a_display_name = []\<rparr>"

definition no_project :: project_ref where
  "no_project = \<lparr>p_id = [], p_path = [], p_url = [], p_default_branch = []\<rparr>"

definition no_resource :: resource_ref where
  "no_resource = \<lparr>r_kind = [], r_id = [], r_iid = [], r_title = [], r_url = []\<rparr>"

definition no_pipeline :: pipeline_details where
  "no_pipeline = \<lparr>pl_id = [], pl_iid = [], pl_name = [], pl_ref = [], pl_sha = [], pl_source = [],
     pl_status = [], pl_url = [], pl_commit_url = [], pl_commit_author = no_identity,
     pl_merge_request = None, pl_failed_jobs = []\<rparr>"

definition no_merge_request :: merge_request_details where
  "no_merge_request = \<lparr>mr_id = [], mr_iid = [], mr_title = [], mr_description = [], mr_url = [],
     mr_source_branch = [], mr_target_branch = [], mr_state = [], mr_author = no_identity,
     mr_reviewers = [], mr_assignees = []\<rparr>"

definition no_issue :: issue_details where
  "no_issue = \<lparr>is_id = [], is_iid = [], is_title = [], is_description = [], is_url = [],
     is_state = [], is_author = no_identity, is_assignees = []\<rparr>"

definition no_note :: note_details where
  "no_note = \<lparr>nt_id = [], nt_body = [], nt_action = [], nt_noteable_type = [], nt_url = [],
     nt_system = False, nt_merge_request = None, nt_issue = None\<rparr>"

definition no_event :: canonical_event where
  "no_event = \<lparr>ev_event_key = [], ev_source = [], ev_source_label = [], ev_source_version = [],
     ev_source_event = [], ev_kind = [], ev_action = [], ev_received_at = 0, ev_occurred_at = None,
     ev_project = no_project, ev_actor = no_identity, ev_author = None, ev_reviewers = [],
     ev_assignees = [], ev_mentions = [], ev_object = no_resource, ev_changes = [],
     ev_pipeline = None, ev_merge_request = None, ev_note = None, ev_issue = None,
     ev_source_text = [], ev_raw_status = [], ev_metadata = []\<rparr>"

definition no_notification :: notification where
  "no_notification = \<lparr>n_event_key = [], n_kind = [], n_action = [], n_project = no_project,
     n_object = no_resource, n_recipient = no_address, n_reasons = [], n_title = [], n_summary = [],
     n_source_text = [], n_url = [], n_facts = [], n_failed_jobs = [], n_failed_job_links = [],
     n_related_links = [], n_actions = []\<rparr>"

definition no_preference_state :: preference_state where
  "no_preference_state = \<lparr>pr_muted = False, pr_muted_until = None\<rparr>"

lemmas zero_values = no_identity_def no_address_def no_project_def no_resource_def no_pipeline_def
  no_merge_request_def no_issue_def no_note_def no_event_def no_notification_def
  no_preference_state_def

end
