(* ===== verification/Policy.thy ===== *)
theory Policy
  imports Domain
begin

section \<open>Recipient policy and the actions of a card\<close>

text \<open>
  recipient_policy.go: the allowlist of recipients, consulted by the router and again by
  the delivery worker; actions.go. A policy pointer may be nil, so \<open>allows\<close> takes an
  option.
\<close>

record recipient_policy =
  allow_all :: bool
  allowed_emails :: "(string, unit) gomap"

definition normalize_recipient_email :: "string \<Rightarrow> string" where
  "normalize_recipient_email value =
     (let v = to_lower (trim_space value) in
      if \<not> addr_spec v \<or> \<not> contains v ''@'' then [] else v)"

fun add_emails :: "string list \<Rightarrow> (string, unit) gomap \<Rightarrow> (string, unit) gomap" where
  "add_emails [] m = m"
| "add_emails (e # es) m =
     (let email = normalize_recipient_email e in
      add_emails es (if email \<noteq> [] then AList.update email () m else m))"

definition new_recipient_policy :: "string list \<Rightarrow> recipient_policy" where
  "new_recipient_policy emails =
     \<lparr>allow_all = (length emails = 0), allowed_emails = add_emails emails []\<rparr>"

definition allows :: "recipient_policy option \<Rightarrow> recipient_address \<Rightarrow> bool" where
  "allows p address =
     (case p of
        None \<Rightarrow> True
      | Some pol \<Rightarrow> allow_all pol
          \<or> map_of (allowed_emails pol) (normalize_recipient_email (a_value address)) \<noteq> None)"

definition mute_duration :: duration where
  "mute_duration = 30 * 24 * hour"

definition settings_action :: notification_action where
  "settings_action = \<lparr>na_action = ActionOpenSettings,
     na_label = [CHR 0xE2, CHR 0x9A, CHR 0x99] @ '' Settings'', na_value = []\<rparr>"

definition notification_actions :: "notification_action list" where
  "notification_actions = [settings_action]"

lemma normalize_recipient_email_eq:
  "normalize_recipient_email value \<noteq> [] \<Longrightarrow>
   normalize_recipient_email value = to_lower (trim_space value)"
  by (auto simp: normalize_recipient_email_def Let_def split: if_splits)

lemma normalize_recipient_email_idem:
  "normalize_recipient_email (normalize_recipient_email value) = normalize_recipient_email value"
  by (auto simp: normalize_recipient_email_def Let_def trim_space_to_lower)

lemma map_of_add_emails:
  "map_of (add_emails es m) e \<noteq> None \<longleftrightarrow>
   map_of m e \<noteq> None \<or> e \<noteq> [] \<and> e \<in> normalize_recipient_email ` set es"
  by (induction es arbitrary: m) (auto simp: Let_def update_conv' split: if_splits)

text \<open>
  What the allowlist means: with no entries everyone is allowed; otherwise the normalised
  address must be a well-formed address among the normalised entries.
\<close>

lemma allows_new_policy:
  "allows (Some (new_recipient_policy emails)) address \<longleftrightarrow>
   emails = [] \<or> normalize_recipient_email (a_value address) \<noteq> []
     \<and> normalize_recipient_email (a_value address) \<in> normalize_recipient_email ` set emails"
  using map_of_add_emails [of emails "[]"]
  by (simp add: allows_def new_recipient_policy_def)

text \<open>
  An allowlist that names no well-formed address allows nobody, unlike the empty one.
\<close>

lemma allows_malformed_list:
  "emails \<noteq> [] \<Longrightarrow> \<forall>e \<in> set emails. normalize_recipient_email e = [] \<Longrightarrow>
   \<not> allows (Some (new_recipient_policy emails)) address"
  unfolding allows_new_policy by auto

end
