(* ===== verification/Store.thy ===== *)
theory Store
  imports Policy
begin

section \<open>The SQLite store: tables, events and the outbox\<close>

text \<open>
  internal/adapter/database/sqlite/store.go. The database is a record of tables, a table a
  list of rows in the order of insertion; an SQL statement is a function on the rows, with
  its \<open>WHERE\<close> as the guard. A JSON column holds the value it encodes (\<open>Json v\<close>), or
  \<open>Corrupt\<close> for a text that does not decode. Timestamps are the texts the store writes.

  Every operation takes the instant it reads from the clock and a \<open>fault\<close>: the error, if
  any, the driver returns for the n-th call the operation makes on the database. An
  operation in a transaction gives back the database it started from when it fails, which is
  what the deferred \<open>Rollback\<close> does. Ties in \<open>ORDER BY\<close> are broken by insertion.
\<close>

datatype 'a stored = Json 'a | Corrupt

datatype delivery_status = Pending | Processing | Delivered | Failed

record event_row =
  er_event_key :: string
  er_source :: provider
  er_source_version :: string
  er_source_event :: string
  er_kind :: string
  er_action :: string
  er_status :: string
  er_event_json :: "canonical_event option"
  er_project_id :: "string option"
  er_received_at :: string
  er_occurred_at :: "string option"
  er_created_at :: string

record delivery_row =
  dr_key :: string
  dr_event_key :: string
  dr_status :: delivery_status
  dr_notification :: "notification stored"
  dr_attempts :: int
  dr_retryable :: bool
  dr_next_attempt_at :: string
  dr_lease_until :: "string option"
  dr_provider_message_id :: "string option"
  dr_last_error_class :: "string option"
  dr_last_error_message :: "string option"
  dr_created_at :: string
  dr_updated_at :: string
  dr_delivered_at :: "string option"

record identity_row =
  ir_id :: int
  ir_provider :: provider
  ir_provider_id :: string
  ir_username :: string
  ir_email :: string
  ir_display_name :: string
  ir_enabled :: bool
  ir_updated_at :: string

record preference_row =
  pf_email :: string
  pf_enabled :: bool
  pf_ci_failed :: bool
  pf_ci_recovered :: bool
  pf_mr_review_requested :: bool
  pf_mr_assigned :: bool
  pf_mr_updated :: bool
  pf_mr_approved :: bool
  pf_mr_state_changed :: bool
  pf_mr_comment :: bool
  pf_mention :: bool
  pf_issue_assigned :: bool
  pf_issue_updated :: bool
  pf_project_include :: string
  pf_project_exclude :: string
  pf_muted_until :: string
  pf_updated_at :: string

record pipeline_state_row =
  psr_correlation_key :: string
  psr_status :: string
  psr_recipients :: "recipient_address list stored"
  psr_updated_at :: string

record unresolved_row =
  un_event_key :: string
  un_provider :: provider
  un_provider_id :: string
  un_username :: string
  un_first_seen :: string
  un_last_seen :: string
  un_occurrences :: int

record interaction_row =
  ix_event_id :: string
  ix_message_id :: string
  ix_actor_id :: string
  ix_action :: string
  ix_result :: string
  ix_created_at :: string
  ix_updated_at :: string

record db =
  db_events :: "event_row list"
  db_deliveries :: "delivery_row list"
  db_identities :: "identity_row list"
  db_preferences :: "preference_row list"
  db_pipeline_states :: "pipeline_state_row list"
  db_unresolved :: "unresolved_row list"
  db_interactions :: "interaction_row list"
  db_next_identity_id :: int

definition empty_db :: db where
  "empty_db = \<lparr>db_events = [], db_deliveries = [], db_identities = [], db_preferences = [],
     db_pipeline_states = [], db_unresolved = [], db_interactions = [], db_next_identity_id = 1\<rparr>"

type_synonym fault = "nat \<Rightarrow> go_error option"

definition no_fault :: fault where
  "no_fault n = None"

lemma no_fault_none: "\<forall>n. no_fault n = None"
  by (simp add: no_fault_def)

subsection \<open>Configuration\<close>

record store_config =
  cfg_lease_duration :: duration
  cfg_max_attempts :: int
  cfg_retry_delay :: duration

definition default_config :: store_config where
  "default_config = \<lparr>cfg_lease_duration = 5 * minute, cfg_max_attempts = 5,
     cfg_retry_delay = second\<rparr>"

text \<open>The part of \<open>Open\<close> that fills in the configuration.\<close>

definition open_config :: "store_config \<Rightarrow> store_config" where
  "open_config c =
     \<lparr>cfg_lease_duration = (if cfg_lease_duration c \<le> 0 then cfg_lease_duration default_config
                              else cfg_lease_duration c),
      cfg_max_attempts = (if cfg_max_attempts c \<le> 0 then cfg_max_attempts default_config
                          else cfg_max_attempts c),
      cfg_retry_delay = (if cfg_retry_delay c \<le> 0 then cfg_retry_delay default_config
                         else cfg_retry_delay c)\<rparr>"

definition config_ok :: "store_config \<Rightarrow> bool" where
  "config_ok c \<longleftrightarrow> 0 < cfg_lease_duration c \<and> 0 < cfg_max_attempts c \<and> 0 < cfg_retry_delay c"

lemma config_ok_open [simp]: "config_ok (open_config c)"
  by (simp add: config_ok_def open_config_def default_config_def duration_units)

lemma config_ok_default [simp]: "config_ok default_config"
  by (simp add: config_ok_def default_config_def duration_units)

subsection \<open>Enqueue\<close>

definition zero_time :: time where
  "zero_time = - 62135596800 * second"

definition format_optional_time :: "time option \<Rightarrow> string option" where
  "format_optional_time value = map_option format_timestamp value"

definition event_row_of :: "canonical_event \<Rightarrow> time \<Rightarrow> event_row" where
  "event_row_of event now =
     \<lparr>er_event_key = ev_event_key event, er_source = ev_source event,
      er_source_version = ev_source_version event, er_source_event = ev_source_event event,
      er_kind = ev_kind event, er_action = ev_action event, er_status = ''accepted'',
      er_event_json = Some event, er_project_id = Some (p_id (ev_project event)),
      er_received_at = format_timestamp (ev_received_at event),
      er_occurred_at = format_optional_time (ev_occurred_at event),
      er_created_at = format_timestamp now\<rparr>"

text \<open>\<open>INSERT OR IGNORE INTO events\<close>: the primary key is the event key.\<close>

definition insert_event :: "event_row \<Rightarrow> event_row list \<Rightarrow> event_row list" where
  "insert_event r rows =
     (if er_event_key r \<in> er_event_key ` set rows then rows else rows @ [r])"

definition new_delivery_row :: "time \<Rightarrow> string \<Rightarrow> delivery \<Rightarrow> delivery_row" where
  "new_delivery_row now event_key d =
     \<lparr>dr_key = d_key d, dr_event_key = event_key, dr_status = Pending,
      dr_notification = Json (d_notification d), dr_attempts = 0, dr_retryable = True,
      dr_next_attempt_at = format_timestamp now, dr_lease_until = None,
      dr_provider_message_id = None, dr_last_error_class = None, dr_last_error_message = None,
      dr_created_at = format_timestamp now, dr_updated_at = format_timestamp now,
      dr_delivered_at = None\<rparr>"

definition insert_delivery :: "delivery_row \<Rightarrow> delivery_row list \<Rightarrow> delivery_row list" where
  "insert_delivery r rows = (if dr_key r \<in> dr_key ` set rows then rows else rows @ [r])"

fun insert_deliveries ::
  "fault \<Rightarrow> nat \<Rightarrow> time \<Rightarrow> string \<Rightarrow> delivery list \<Rightarrow> delivery_row list
     \<Rightarrow> (nat \<times> delivery_row list) res" where
  "insert_deliveries f n now event_key [] rows = Inr (n, rows)"
| "insert_deliveries f n now event_key (d # ds) rows =
     (if d_key d = [] \<or> a_value (n_recipient (d_notification d)) = []
      then insert_deliveries f n now event_key ds rows
      else case f n of
        Some e \<Rightarrow> Inl (Wrap (''insert delivery '' @ d_key d) e)
      | None \<Rightarrow> insert_deliveries f (Suc n) now event_key ds
                 (insert_delivery (new_delivery_row now event_key d) rows))"

text \<open>\<open>INSERT INTO pipeline_states ... ON CONFLICT DO UPDATE\<close>, in \<open>enqueue\<close> and \<open>Put\<close>.\<close>

definition pipeline_state_row_of :: "pipeline_state \<Rightarrow> time \<Rightarrow> pipeline_state_row" where
  "pipeline_state_row_of st now =
     \<lparr>psr_correlation_key = ps_correlation_key st, psr_status = ps_status st,
      psr_recipients = Json (ps_recipients st),
      psr_updated_at =
        format_timestamp (if ps_updated_at st = zero_time then now else ps_updated_at st)\<rparr>"

definition upsert_pipeline_state ::
  "pipeline_state_row \<Rightarrow> pipeline_state_row list \<Rightarrow> pipeline_state_row list" where
  "upsert_pipeline_state r rows =
     (if psr_correlation_key r \<in> psr_correlation_key ` set rows
      then map (\<lambda>x. if psr_correlation_key x = psr_correlation_key r then r else x) rows
      else rows @ [r])"

definition enqueue ::
  "fault \<Rightarrow> time \<Rightarrow> canonical_event \<Rightarrow> delivery list \<Rightarrow> pipeline_state option \<Rightarrow> db
     \<Rightarrow> go_error option \<times> db" where
  "enqueue f now event deliveries state db =
     (if ev_event_key event = [] then (Some (Msg ''event key is required''), db)
      else case f 0 of
        Some e \<Rightarrow> (Some (Wrap ''begin enqueue transaction'' e), db)
      | None \<Rightarrow> case f 1 of
        Some e \<Rightarrow> (Some (Wrap ''insert event'' e), db)
      | None \<Rightarrow>
        let events = insert_event (event_row_of event now) (db_events db) in
        case insert_deliveries f 2 now (ev_event_key event) deliveries (db_deliveries db) of
          Inl e \<Rightarrow> (Some e, db)
        | Inr (n, rows) \<Rightarrow>
          let commit = (\<lambda>m states. case f m of
                Some e \<Rightarrow> (Some (Wrap ''commit enqueue transaction'' e), db)
              | None \<Rightarrow> (None, db\<lparr>db_events := events, db_deliveries := rows,
                                  db_pipeline_states := states\<rparr>))
          in case state of
            None \<Rightarrow> commit n (db_pipeline_states db)
          | Some st \<Rightarrow> (case f n of
              Some e \<Rightarrow> (Some (Wrap ''write pipeline state in enqueue transaction'' e), db)
            | None \<Rightarrow> commit (Suc n)
                (upsert_pipeline_state (pipeline_state_row_of st now) (db_pipeline_states db))))"

text \<open>\<open>RecordIgnored\<close>.\<close>

definition record_ignored ::
  "fault \<Rightarrow> time \<Rightarrow> string \<Rightarrow> string \<Rightarrow> string \<Rightarrow> db \<Rightarrow> go_error option \<times> db" where
  "record_ignored f now event_key source_version source_event db =
     (if event_key = [] then (Some (Msg ''event key is required''), db)
      else case f 0 of
        Some e \<Rightarrow> (Some (Wrap ''record ignored event'' e), db)
      | None \<Rightarrow> (None, db\<lparr>db_events := insert_event
          \<lparr>er_event_key = event_key, er_source = ProviderGitLab,
           er_source_version = source_version, er_source_event = source_event,
           er_kind = ''ignored'', er_action = [], er_status = ''ignored'', er_event_json = None,
           er_project_id = None, er_received_at = format_timestamp now, er_occurred_at = None,
           er_created_at = format_timestamp now\<rparr> (db_events db)\<rparr>))"

subsection \<open>Claim\<close>

text \<open>The condition under which \<open>Claim\<close> takes a row, in its \<open>SELECT\<close> and \<open>UPDATE\<close>.\<close>

definition ready :: "store_config \<Rightarrow> string \<Rightarrow> delivery_row \<Rightarrow> bool" where
  "ready c now r \<longleftrightarrow>
     (dr_status r = Pending \<and> dr_next_attempt_at r \<le> now \<and> dr_attempts r < cfg_max_attempts c)
     \<or> (dr_status r = Failed \<and> dr_retryable r \<and> dr_next_attempt_at r \<le> now
          \<and> dr_attempts r < cfg_max_attempts c)
     \<or> (dr_status r = Processing
          \<and> (case dr_lease_until r of None \<Rightarrow> False | Some l \<Rightarrow> l \<le> now)
          \<and> dr_attempts r < cfg_max_attempts c)"

definition select_ready :: "store_config \<Rightarrow> string \<Rightarrow> nat \<Rightarrow> delivery_row list \<Rightarrow> delivery_row list" where
  "select_ready c now limit rows =
     take limit (sort_key (\<lambda>r. (dr_next_attempt_at r, dr_created_at r)) (filter (ready c now) rows))"

definition claim_row :: "string \<Rightarrow> string \<Rightarrow> delivery_row \<Rightarrow> delivery_row" where
  "claim_row now lease r =
     r\<lparr>dr_status := Processing, dr_attempts := dr_attempts r + 1, dr_lease_until := Some lease,
       dr_updated_at := now\<rparr>"

fun claim_rows ::
  "fault \<Rightarrow> nat \<Rightarrow> store_config \<Rightarrow> string \<Rightarrow> string \<Rightarrow> delivery_row list \<Rightarrow> delivery_row list
     \<Rightarrow> (delivery list \<times> delivery_row list \<times> nat) res" where
  "claim_rows f n c now lease [] rows = Inr ([], rows, n)"
| "claim_rows f n c now lease (item # items) rows =
     (case f n of
        Some e \<Rightarrow> Inl (Wrap (''claim delivery '' @ dr_key item) e)
      | None \<Rightarrow>
        let hit = (\<lambda>r. dr_key r = dr_key item \<and> ready c now r);
            rows' = map (\<lambda>r. if hit r then claim_row now lease r else r) rows
        in if filter hit rows = [] then claim_rows f (Suc n) c now lease items rows'
           else case dr_notification item of
             Corrupt \<Rightarrow> Inl (Wrap (''decode delivery '' @ dr_key item) (Msg ''invalid JSON''))
           | Json nt \<Rightarrow>
             (case claim_rows f (Suc n) c now lease items rows' of
                Inl e \<Rightarrow> Inl e
              | Inr (ds, rows'', m) \<Rightarrow>
                  Inr (\<lparr>d_key = dr_key item, d_notification = nt\<rparr> # ds, rows'', m)))"

definition claim ::
  "store_config \<Rightarrow> fault \<Rightarrow> time \<Rightarrow> string \<Rightarrow> int \<Rightarrow> db \<Rightarrow> delivery list res \<times> db" where
  "claim c f now worker_id limit0 db =
     (let limit = (if limit0 \<le> 0 then 10 else limit0);
          now_text = format_timestamp now;
          lease = format_timestamp (now + cfg_lease_duration c)
      in case f 0 of
        Some e \<Rightarrow> (Inl (Wrap ''begin claim transaction'' e), db)
      | None \<Rightarrow> case f 1 of
        Some e \<Rightarrow> (Inl (Wrap ''query outbox'' e), db)
      | None \<Rightarrow>
        case claim_rows f 2 c now_text lease
               (select_ready c now_text (nat limit) (db_deliveries db)) (db_deliveries db) of
          Inl e \<Rightarrow> (Inl e, db)
        | Inr (ds, rows, m) \<Rightarrow>
          (case f m of
             Some e \<Rightarrow> (Inl (Wrap (''commit claim transaction for '' @ worker_id) e), db)
           | None \<Rightarrow> (Inr ds, db\<lparr>db_deliveries := rows\<rparr>)))"

subsection \<open>MarkDelivered and MarkFailed\<close>

definition update_deliveries ::
  "string \<Rightarrow> (delivery_row \<Rightarrow> delivery_row) \<Rightarrow> delivery_row list \<Rightarrow> delivery_row list" where
  "update_deliveries key g rows = map (\<lambda>r. if dr_key r = key then g r else r) rows"

definition mark_delivered ::
  "fault \<Rightarrow> time \<Rightarrow> string \<Rightarrow> delivery_receipt \<Rightarrow> db \<Rightarrow> go_error option \<times> db" where
  "mark_delivered f now key receipt db =
     (if key = [] then (Some (Msg ''delivery key is required''), db)
      else case f 0 of
        Some e \<Rightarrow> (Some (Wrap ''mark delivery delivered'' e), db)
      | None \<Rightarrow>
        if key \<notin> dr_key ` set (db_deliveries db)
        then (Some (Msg (''delivery not found: '' @ key)), db)
        else (None, db\<lparr>db_deliveries := update_deliveries key
          (\<lambda>r. r\<lparr>dr_status := Delivered, dr_lease_until := None,
                 dr_provider_message_id := Some (rc_provider_message_id receipt),
                 dr_last_error_class := None, dr_last_error_message := None,
                 dr_delivered_at := Some (format_timestamp now),
                 dr_updated_at := format_timestamp now\<rparr>) (db_deliveries db)\<rparr>))"

text \<open>
  The delay before the next attempt: the loop doubles it \<open>attempts - 1\<close> times and stops at
  one hour; the doubling is on 64-bit durations.
\<close>

fun backoff_loop :: "nat \<Rightarrow> duration \<Rightarrow> duration" where
  "backoff_loop 0 b = b"
| "backoff_loop (Suc n) b =
     (let b' = wrap64 (b * 2) in if hour \<le> b' then hour else backoff_loop n b')"

definition backoff :: "duration \<Rightarrow> int \<Rightarrow> duration" where
  "backoff delay attempts = backoff_loop (nat (attempts - 1)) delay"

definition truncate_error :: "string \<Rightarrow> string" where
  "truncate_error value = cut_runes value 1000"

definition mark_failed ::
  "store_config \<Rightarrow> fault \<Rightarrow> time \<Rightarrow> string \<Rightarrow> delivery_failure \<Rightarrow> db \<Rightarrow> go_error option \<times> db" where
  "mark_failed c f now key failure db =
     (if key = [] then (Some (Msg ''delivery key is required''), db)
      else case f 0 of
        Some e \<Rightarrow> (Some (Wrap ''read delivery attempts'' e), db)
      | None \<Rightarrow>
        case find (\<lambda>r. dr_key r = key) (db_deliveries db) of
          None \<Rightarrow> (Some (Wrap ''read delivery attempts'' NoRows), db)
        | Some row \<Rightarrow>
          let attempts = dr_attempts row;
              again = (f_retryable failure \<and> attempts < cfg_max_attempts c);
              next_attempt = (if again then now + backoff (cfg_retry_delay c) attempts else now)
          in case f 1 of
            Some e \<Rightarrow> (Some (Wrap ''mark delivery failed'' e), db)
          | None \<Rightarrow> (None, db\<lparr>db_deliveries := update_deliveries key
              (\<lambda>r. r\<lparr>dr_status := (if again then Pending else Failed), dr_retryable := again,
                     dr_next_attempt_at := format_timestamp next_attempt, dr_lease_until := None,
                     dr_last_error_class := Some (f_class failure),
                     dr_last_error_message := Some (truncate_error (f_message failure)),
                     dr_updated_at := format_timestamp now\<rparr>) (db_deliveries db)\<rparr>))"

end
