(* ===== verification/StoreIdentity.thy ===== *)
theory StoreIdentity
  imports Store
begin

section \<open>The SQLite store: identities\<close>

text \<open>
  The identity mappings of store.go: \<open>usableEmail\<close>, \<open>Resolve\<close>, \<open>Upsert\<close>,
  \<open>DisableExcept\<close> and \<open>Record\<close>. The two partial unique indexes of the table are the
  predicate \<open>unique_identities\<close>, which SQLite checks after each write; the last group of
  lemmas shows that \<open>Upsert\<close> never runs into it, and what a lookup returns after a write.
\<close>

definition usable_email :: "string \<Rightarrow> string" where
  "usable_email value =
     (let v = to_lower (trim_space value) in
      if v = [] \<or> v = ''[redacted]'' \<or> contains v ''noreply'' then []
      else if \<not> addr_spec v \<or> \<not> contains v ''@'' then []
      else v)"

lemma usable_email_idem [simp]: "usable_email (usable_email v) = usable_email v"
  by (auto simp: usable_email_def Let_def trim_space_to_lower)

lemma usable_email_normalized:
  "usable_email v \<noteq> [] \<Longrightarrow> normalize_recipient_email v = usable_email v"
  by (auto simp: usable_email_def normalize_recipient_email_def Let_def split: if_splits)

subsection \<open>Resolve\<close>

text \<open>\<open>ORDER BY k DESC LIMIT 1\<close>.\<close>

fun latest :: "('a \<Rightarrow> string) \<Rightarrow> 'a list \<Rightarrow> 'a option" where
  "latest k [] = None"
| "latest k (r # rs) =
     (case latest k rs of None \<Rightarrow> Some r | Some s \<Rightarrow> if k r < k s then Some s else Some r)"

lemma latest_in: "latest k rows = Some r \<Longrightarrow> r \<in> set rows"
  by (induction rows) (auto split: option.splits if_splits)

lemma latest_None [simp]: "latest k rows = None \<longleftrightarrow> rows = []"
  by (cases rows) (auto split: option.splits)

lemma latest_only: "r \<in> set rows \<Longrightarrow> \<forall>s \<in> set rows. s = r \<Longrightarrow> latest k rows = Some r"
  using latest_in [of k rows] latest_None [of k rows] by (cases "latest k rows") auto

definition provider_or_default :: "provider \<Rightarrow> provider" where
  "provider_or_default p = (if p = [] then ProviderGitLab else p)"

definition identity_of_row :: "provider \<Rightarrow> identity \<Rightarrow> identity_row \<Rightarrow> identity" where
  "identity_of_row provider query r =
     \<lparr>i_provider = provider,
      i_provider_id = (if i_provider_id query = [] then i_provider_id query else ir_provider_id r),
      i_username = (if i_username query = [] then i_username query else ir_username r),
      i_email = ir_email r, i_name = ir_display_name r\<rparr>"

text \<open>The row that the query of \<open>Resolve\<close> returns.\<close>

definition lookup_identity :: "identity \<Rightarrow> identity_row list \<Rightarrow> identity_row option" where
  "lookup_identity q rows =
     (let provider = provider_or_default (i_provider q) in
      if i_provider_id q \<noteq> [] then
        latest ir_updated_at (filter (\<lambda>r. ir_provider r = provider \<and> ir_enabled r
          \<and> ir_provider_id r = i_provider_id q) rows)
      else latest ir_updated_at (filter (\<lambda>r. ir_provider r = provider \<and> ir_enabled r
          \<and> ir_username r = to_lower (i_username q)) rows))"

fun resolve :: "fault \<Rightarrow> nat \<Rightarrow> db \<Rightarrow> identity list \<Rightarrow> identity list res" where
  "resolve f n db [] = Inr []"
| "resolve f n db (q # qs) =
     (let cons = (\<lambda>m i. case resolve f m db qs of Inl e \<Rightarrow> Inl e | Inr is \<Rightarrow> Inr (i # is)) in
      if usable_email (i_email q) \<noteq> [] then cons n (q\<lparr>i_email := usable_email (i_email q)\<rparr>)
      else if i_provider_id q = [] \<and> i_username q = [] then cons n q
      else case f n of
        Some e \<Rightarrow> Inl (Wrap ''resolve identity'' e)
      | None \<Rightarrow>
        (case lookup_identity q (db_identities db) of
           None \<Rightarrow> cons (Suc n) q
         | Some r \<Rightarrow> cons (Suc n) (identity_of_row (provider_or_default (i_provider q)) q r)))"

text \<open>What one identity becomes.\<close>

definition resolved_identity :: "db \<Rightarrow> identity \<Rightarrow> identity" where
  "resolved_identity db q =
     (if usable_email (i_email q) \<noteq> [] then q\<lparr>i_email := usable_email (i_email q)\<rparr>
      else if i_provider_id q = [] \<and> i_username q = [] then q
      else case lookup_identity q (db_identities db) of
         None \<Rightarrow> q
       | Some r \<Rightarrow> identity_of_row (provider_or_default (i_provider q)) q r)"

lemma resolve_eq:
  "resolve f n db qs = Inr out \<Longrightarrow> out = map (resolved_identity db) qs"
  by (induction f n db qs arbitrary: out rule: resolve.induct)
    (auto simp: resolved_identity_def Let_def split: if_splits option.splits sum.splits)

lemma resolve_no_fault:
  assumes "\<And>n. f n = None"
  shows "resolve f n db qs = Inr (map (resolved_identity db) qs)"
proof (induction qs arbitrary: n)
  case (Cons q qs)
  have "f n = None" by (rule assms)
  then show ?case
    by (simp add: Let_def Cons resolved_identity_def split: option.split)
qed simp

subsection \<open>Upsert and DisableExcept\<close>

text \<open>The partial unique indexes \<open>identities_provider_id_idx\<close> and \<open>identities_username_idx\<close>.\<close>

definition unique_on :: "(identity_row \<Rightarrow> string) \<Rightarrow> identity_row list \<Rightarrow> bool" where
  "unique_on k rows \<longleftrightarrow>
     distinct (map (\<lambda>r. (ir_provider r, k r)) (filter (\<lambda>r. k r \<noteq> []) rows))"

definition unique_identities :: "identity_row list \<Rightarrow> bool" where
  "unique_identities rows \<longleftrightarrow> unique_on ir_provider_id rows \<and> unique_on ir_username rows"

definition constraint_failed :: go_error where
  "constraint_failed = Driver ''UNIQUE constraint failed''"

definition write_identities ::
  "string \<Rightarrow> identity_row list \<Rightarrow> int \<Rightarrow> db \<Rightarrow> go_error option \<times> db" where
  "write_identities what rows next_id db =
     (if unique_identities rows
      then (None, db\<lparr>db_identities := rows, db_next_identity_id := next_id\<rparr>)
      else (Some (Wrap what constraint_failed), db))"

definition set_identity :: "identity \<Rightarrow> bool \<Rightarrow> string \<Rightarrow> identity_row \<Rightarrow> identity_row" where
  "set_identity ident enabled now r =
     r\<lparr>ir_provider_id := i_provider_id ident, ir_username := i_username ident,
       ir_email := i_email ident, ir_display_name := i_name ident, ir_enabled := enabled,
       ir_updated_at := now\<rparr>"

definition conflict :: "provider \<Rightarrow> string \<Rightarrow> go_error" where
  "conflict provider username =
     Msg (''identity mapping conflict for provider '' @ provider @ '' and username '' @ username)"

text \<open>The two lookups of \<open>Upsert\<close>, each made only for a non-empty key.\<close>

definition find_identity ::
  "(identity_row \<Rightarrow> string) \<Rightarrow> provider \<Rightarrow> string \<Rightarrow> identity_row list \<Rightarrow> identity_row option" where
  "find_identity k p v rows =
     (if v \<noteq> [] then find (\<lambda>r. ir_provider r = p \<and> k r = v) rows else None)"

definition normalized_identity :: "identity \<Rightarrow> identity" where
  "normalized_identity i = i\<lparr>i_email := usable_email (i_email i),
     i_username := to_lower (trim_space (i_username i))\<rparr>"

definition save_identity ::
  "fault \<Rightarrow> nat \<Rightarrow> string \<Rightarrow> provider \<Rightarrow> identity \<Rightarrow> bool \<Rightarrow> int \<Rightarrow> db \<Rightarrow> go_error option \<times> db" where
  "save_identity f n now_text provider ident enabled row_id db =
     (if 0 < row_id then
        (case f n of
          Some e \<Rightarrow> (Some (Wrap ''update identity'' e), db)
        | None \<Rightarrow> write_identities ''update identity''
            (map (\<lambda>r. if ir_id r = row_id then set_identity ident enabled now_text r else r)
              (db_identities db)) (db_next_identity_id db) db)
      else
        (case f n of
          Some e \<Rightarrow> (Some (Wrap ''insert identity'' e), db)
        | None \<Rightarrow> write_identities ''insert identity''
            (db_identities db @
              [\<lparr>ir_id = db_next_identity_id db, ir_provider = provider,
                ir_provider_id = i_provider_id ident, ir_username = i_username ident,
                ir_email = i_email ident, ir_display_name = i_name ident, ir_enabled = enabled,
                ir_updated_at = now_text\<rparr>])
            (db_next_identity_id db + 1) db))"

definition upsert ::
  "fault \<Rightarrow> time \<Rightarrow> provider \<Rightarrow> identity \<Rightarrow> bool \<Rightarrow> db \<Rightarrow> go_error option \<times> db" where
  "upsert f now provider identity0 enabled db =
     (if usable_email (i_email identity0) = []
      then (Some (Msg ''a usable identity email is required''), db)
      else
        let ident = normalized_identity identity0;
            n1 = (if i_provider_id ident \<noteq> [] then 1 else 0);
            n2 = n1 + (if i_username ident \<noteq> [] then 1 else 0);
            by_provider_id = find_identity ir_provider_id provider (i_provider_id ident) (db_identities db);
            by_username = find_identity ir_username provider (i_username ident) (db_identities db)
        in case (if i_provider_id ident \<noteq> [] then f 0 else None) of
          Some e \<Rightarrow> (Some (Wrap ''find identity by provider ID'' e), db)
        | None \<Rightarrow> case (if i_username ident \<noteq> [] then f n1 else None) of
          Some e \<Rightarrow> (Some (Wrap ''find identity by username'' e), db)
        | None \<Rightarrow>
          if (case by_username of None \<Rightarrow> False
              | Some u \<Rightarrow> i_provider_id ident \<noteq> [] \<and> ir_provider_id u \<noteq> []
                  \<and> i_provider_id ident \<noteq> ir_provider_id u)
          then (Some (conflict provider (i_username ident)), db)
          else if (case (by_provider_id, by_username) of
                (Some p, Some u) \<Rightarrow> ir_id p \<noteq> ir_id u | _ \<Rightarrow> False)
          then (Some (conflict provider (i_username ident)), db)
          else save_identity f n2 (format_timestamp now) provider ident enabled
            (case by_provider_id of Some p \<Rightarrow> ir_id p
             | None \<Rightarrow> (case by_username of Some u \<Rightarrow> ir_id u | None \<Rightarrow> 0)) db)"

definition disable_except ::
  "fault \<Rightarrow> time \<Rightarrow> provider \<Rightarrow> string list \<Rightarrow> db \<Rightarrow> int res \<times> db" where
  "disable_except f now provider enabled_ids db =
     (let stale = (\<lambda>r. ir_provider r = provider \<and> ir_provider_id r \<notin> set enabled_ids) in
      case f 0 of
        Some e \<Rightarrow> (Inl (Wrap ''disable stale identities'' e), db)
      | None \<Rightarrow>
        let db' = db\<lparr>db_identities := map (\<lambda>r. if stale r
              then r\<lparr>ir_enabled := False, ir_updated_at := format_timestamp now\<rparr> else r)
              (db_identities db)\<rparr>
        in case f 1 of
          Some e \<Rightarrow> (Inl (Wrap ''count disabled identities'' e), db')
        | None \<Rightarrow> (Inr (int (length (filter stale (db_identities db)))), db'))"

subsection \<open>Record\<close>

definition unresolved_key :: "unresolved_row \<Rightarrow> string \<times> provider \<times> string \<times> string" where
  "unresolved_key r = (un_event_key r, un_provider r, un_provider_id r, un_username r)"

definition unresolved_row_of :: "string \<Rightarrow> string \<Rightarrow> identity \<Rightarrow> unresolved_row" where
  "unresolved_row_of now event_key i =
     \<lparr>un_event_key = event_key, un_provider = provider_or_default (i_provider i),
      un_provider_id = i_provider_id i, un_username = to_lower (i_username i),
      un_first_seen = now, un_last_seen = now, un_occurrences = 1\<rparr>"

definition upsert_unresolved :: "unresolved_row \<Rightarrow> unresolved_row list \<Rightarrow> unresolved_row list" where
  "upsert_unresolved r rows =
     (if unresolved_key r \<in> unresolved_key ` set rows
      then map (\<lambda>x. if unresolved_key x = unresolved_key r
        then x\<lparr>un_last_seen := un_last_seen r, un_occurrences := un_occurrences x + 1\<rparr> else x) rows
      else rows @ [r])"

fun record_loop ::
  "fault \<Rightarrow> nat \<Rightarrow> string \<Rightarrow> string \<Rightarrow> identity list \<Rightarrow> unresolved_row list
     \<Rightarrow> go_error option \<times> unresolved_row list" where
  "record_loop f n now event_key [] rows = (None, rows)"
| "record_loop f n now event_key (i # is) rows =
     (if i_provider_id i = [] \<and> i_username i = [] then record_loop f n now event_key is rows
      else case f n of
        Some e \<Rightarrow> (Some (Wrap ''record unresolved identity'' e), rows)
      | None \<Rightarrow> record_loop f (Suc n) now event_key is
                 (upsert_unresolved (unresolved_row_of now event_key i) rows))"

definition record_unresolved ::
  "fault \<Rightarrow> time \<Rightarrow> string \<Rightarrow> identity list \<Rightarrow> db \<Rightarrow> go_error option \<times> db" where
  "record_unresolved f now event_key ids db =
     (if event_key = [] then (Some (Msg ''event key is required''), db)
      else
        let (e, rows) = record_loop f 0 (format_timestamp now) event_key ids (db_unresolved db)
        in (e, db\<lparr>db_unresolved := rows\<rparr>))"


subsection \<open>The invariant of the table\<close>

definition identity_row_ok :: "int \<Rightarrow> identity_row \<Rightarrow> bool" where
  "identity_row_ok next_id r \<longleftrightarrow>
     0 < ir_id r \<and> ir_id r < next_id
     \<and> ir_email r \<noteq> [] \<and> usable_email (ir_email r) = ir_email r
     \<and> to_lower (trim_space (ir_username r)) = ir_username r"

definition identity_inv :: "db \<Rightarrow> bool" where
  "identity_inv db \<longleftrightarrow>
     0 < db_next_identity_id db
     \<and> (\<forall>r \<in> set (db_identities db). identity_row_ok (db_next_identity_id db) r)
     \<and> distinct (map ir_id (db_identities db)) \<and> unique_identities (db_identities db)"

lemma identity_inv_empty [simp]: "identity_inv empty_db"
  by (simp add: identity_inv_def empty_db_def unique_identities_def unique_on_def)

text \<open>With distinct row ids a unique index says that equal keys mean the same row.\<close>

definition same_key :: "(identity_row \<Rightarrow> string) \<Rightarrow> identity_row \<Rightarrow> identity_row \<Rightarrow> bool" where
  "same_key k r s \<longleftrightarrow> k r \<noteq> [] \<and> ir_provider r = ir_provider s \<and> k r = k s"

lemma unique_on_iff:
  assumes "distinct (map ir_id rows)"
  shows "unique_on k rows \<longleftrightarrow> (\<forall>r \<in> set rows. \<forall>s \<in> set rows. same_key k r s \<longrightarrow> ir_id r = ir_id s)"
proof -
  have d: "distinct rows" using assms distinct_map by blast
  have "unique_on k rows \<longleftrightarrow> (\<forall>r \<in> set rows. \<forall>s \<in> set rows. same_key k r s \<longrightarrow> r = s)"
    unfolding unique_on_def distinct_map inj_on_def same_key_def
    by (simp add: d) metis
  also have "\<dots> \<longleftrightarrow> (\<forall>r \<in> set rows. \<forall>s \<in> set rows. same_key k r s \<longrightarrow> ir_id r = ir_id s)"
    using map_fst_eq_same [OF assms] by metis
  finally show ?thesis .
qed

lemma unique_on_find:
  assumes "unique_on k rows" "distinct (map ir_id rows)" "r \<in> set rows" "k r = v" "v \<noteq> []"
    "ir_provider r = p"
  shows "find (\<lambda>r. ir_provider r = p \<and> k r = v) rows = Some r"
proof -
  obtain s where s: "find (\<lambda>r. ir_provider r = p \<and> k r = v) rows = Some s"
    using assms(3-6) by (cases "find (\<lambda>r. ir_provider r = p \<and> k r = v) rows") (auto simp: find_None_iff)
  then have s': "s \<in> set rows" "ir_provider s = p" "k s = v" by (auto simp: find_Some_iff)
  then have "same_key k r s" using assms(4-6) by (simp add: same_key_def)
  then have "ir_id r = ir_id s" using assms(1-3) s'(1) by (simp add: unique_on_iff)
  then have "r = s" using map_fst_eq_same assms(2,3) s'(1) by metis
  with s show ?thesis by simp
qed

lemma unique_on_update:
  assumes "distinct (map ir_id rows)" "unique_on k rows"
    and g: "\<And>r. ir_id (g r) = ir_id r" "\<And>r. ir_provider (g r) = ir_provider r" "\<And>r. k (g r) = v"
    and other: "\<And>r s. r \<in> set rows \<Longrightarrow> ir_id r = n \<Longrightarrow> s \<in> set rows \<Longrightarrow> ir_provider s = ir_provider r
      \<Longrightarrow> v \<noteq> [] \<Longrightarrow> k s = v \<Longrightarrow> ir_id s = n"
  shows "unique_on k (map (\<lambda>r. if ir_id r = n then g r else r) rows)"
proof -
  have d: "distinct (map ir_id (map (\<lambda>r. if ir_id r = n then g r else r) rows))"
    using assms(1) g(1) by (simp add: comp_def if_distrib [of ir_id] cong: if_cong)
  have u: "same_key k r s \<Longrightarrow> ir_id r = ir_id s" if "r \<in> set rows" "s \<in> set rows" for r s
    using assms(1,2) that by (simp add: unique_on_iff)
  have "ir_id (if ir_id r = n then g r else r) = ir_id (if ir_id s = n then g s else s)"
    if "r \<in> set rows" "s \<in> set rows"
      "same_key k (if ir_id r = n then g r else r) (if ir_id s = n then g s else s)" for r s
  proof (cases "ir_id r = n"; cases "ir_id s = n")
    assume rs: "ir_id r = n" "ir_id s \<noteq> n"
    then have "same_key k (g r) s" using that(3) by simp
    then have "v \<noteq> []" "ir_provider s = ir_provider r" "k s = v" unfolding same_key_def g by auto
    with other [OF that(1) rs(1) that(2)] rs(2) show ?thesis by blast
  next
    assume rs: "ir_id r \<noteq> n" "ir_id s = n"
    then have "same_key k r (g s)" using that(3) by simp
    then have "v \<noteq> []" "ir_provider r = ir_provider s" "k r = v" unfolding same_key_def g by auto
    with other [OF that(2) rs(2) that(1)] rs(1) show ?thesis by blast
  qed (use u [OF that(1,2)] that(3) g(1) in simp_all)
  then show ?thesis unfolding unique_on_iff [OF d] set_map by (simp only: ball_simps) blast
qed

lemma unique_on_snoc:
  assumes "unique_on k rows" "\<And>r. r \<in> set rows \<Longrightarrow> ir_provider r = ir_provider x \<Longrightarrow> k x \<noteq> []
      \<Longrightarrow> k r \<noteq> k x"
  shows "unique_on k (rows @ [x])"
  using assms by (force simp: unique_on_def)

lemma set_identity_simps [simp]:
  "ir_id (set_identity i e now r) = ir_id r"
  "ir_provider (set_identity i e now r) = ir_provider r"
  "ir_provider_id (set_identity i e now r) = i_provider_id i"
  "ir_username (set_identity i e now r) = i_username i"
  "ir_email (set_identity i e now r) = i_email i"
  "ir_enabled (set_identity i e now r) = e"
  by (simp_all add: set_identity_def)


lemma find_identity_Some:
  "find_identity k p v rows = Some r \<Longrightarrow> r \<in> set rows \<and> ir_provider r = p \<and> k r = v \<and> v \<noteq> []"
  by (auto simp: find_identity_def find_Some_iff split: if_splits)

lemma find_identity_None:
  "find_identity k p v rows = None \<longleftrightarrow> v = [] \<or> (\<forall>r \<in> set rows. ir_provider r = p \<longrightarrow> k r \<noteq> v)"
  by (auto simp: find_identity_def find_None_iff)

lemma find_identity_unique:
  "unique_on k rows \<Longrightarrow> distinct (map ir_id rows) \<Longrightarrow> r \<in> set rows \<Longrightarrow> k r \<noteq> [] \<Longrightarrow>
   find_identity k (ir_provider r) (k r) rows = Some r"
  by (simp add: find_identity_def unique_on_find)

lemma identity_inv_update:
  assumes inv: "identity_inv db" and r: "r \<in> set (db_identities db)" "ir_provider r = provider"
    and i: "i = normalized_identity i0" "usable_email (i_email i0) \<noteq> []"
    and P: "\<And>s. s \<in> set (db_identities db) \<Longrightarrow> ir_provider s = provider \<Longrightarrow> i_provider_id i \<noteq> [] \<Longrightarrow>
      ir_provider_id s = i_provider_id i \<Longrightarrow> ir_id s = ir_id r"
    and U: "\<And>s. s \<in> set (db_identities db) \<Longrightarrow> ir_provider s = provider \<Longrightarrow> i_username i \<noteq> [] \<Longrightarrow>
      ir_username s = i_username i \<Longrightarrow> ir_id s = ir_id r"
    and rows: "rows = map (\<lambda>x. if ir_id x = ir_id r then set_identity i en now x else x) (db_identities db)"
  shows "unique_identities rows" "identity_inv (db\<lparr>db_identities := rows\<rparr>)"
proof -
  have d: "distinct (map ir_id (db_identities db))" and u: "unique_on ir_provider_id (db_identities db)"
    "unique_on ir_username (db_identities db)"
    and ok: "\<forall>r \<in> set (db_identities db). identity_row_ok (db_next_identity_id db) r"
    using inv by (auto simp: identity_inv_def unique_identities_def)
  have p: "x \<in> set (db_identities db) \<Longrightarrow> ir_id x = ir_id r \<Longrightarrow> ir_provider x = provider" for x
    using map_fst_eq_same [OF d, of x r] r by auto
  have "unique_on ir_provider_id rows"
    unfolding rows
    by (rule unique_on_update [OF d u(1), where v = "i_provider_id i"]) (simp_all add: P p)
  moreover have "unique_on ir_username rows"
    unfolding rows
    by (rule unique_on_update [OF d u(2), where v = "i_username i"]) (simp_all add: U p)
  ultimately show un: "unique_identities rows" by (simp add: unique_identities_def)
  have "distinct (map ir_id rows)"
    using d by (simp add: rows comp_def if_distrib [of ir_id] cong: if_cong)
  moreover have "\<forall>x \<in> set rows. identity_row_ok (db_next_identity_id db) x"
    using ok i by (auto simp: rows identity_row_ok_def normalized_identity_def trim_space_to_lower)
  ultimately show "identity_inv (db\<lparr>db_identities := rows\<rparr>)"
    using un inv by (simp add: identity_inv_def)
qed

lemma identity_inv_insert:
  assumes inv: "identity_inv db" and x: "ir_id x = db_next_identity_id db" "ir_provider x = provider"
    "ir_provider_id x = i_provider_id i" "ir_username x = i_username i" "ir_email x = i_email i"
    and i: "i = normalized_identity i0" "usable_email (i_email i0) \<noteq> []"
    and P: "\<And>s. s \<in> set (db_identities db) \<Longrightarrow> ir_provider s = provider \<Longrightarrow> i_provider_id i \<noteq> [] \<Longrightarrow>
      ir_provider_id s \<noteq> i_provider_id i"
    and U: "\<And>s. s \<in> set (db_identities db) \<Longrightarrow> ir_provider s = provider \<Longrightarrow> i_username i \<noteq> [] \<Longrightarrow>
      ir_username s \<noteq> i_username i"
  shows "unique_identities (db_identities db @ [x])"
    "identity_inv (db\<lparr>db_identities := db_identities db @ [x],
       db_next_identity_id := db_next_identity_id db + 1\<rparr>)"
proof -
  have u: "unique_on ir_provider_id (db_identities db)" "unique_on ir_username (db_identities db)"
    and ok: "\<forall>r \<in> set (db_identities db). identity_row_ok (db_next_identity_id db) r"
    using inv by (auto simp: identity_inv_def unique_identities_def)
  show un: "unique_identities (db_identities db @ [x])"
    unfolding unique_identities_def
    by (intro conjI unique_on_snoc u) (use P U x in auto)
  have "\<forall>r \<in> set (db_identities db). ir_id r < db_next_identity_id db"
    using ok by (simp add: identity_row_ok_def)
  then have "distinct (map ir_id (db_identities db @ [x]))"
    using inv x(1) by (auto simp: identity_inv_def)
  moreover have "\<forall>r \<in> set (db_identities db @ [x]). identity_row_ok (db_next_identity_id db + 1) r"
    using ok i x inv
    by (auto simp: identity_row_ok_def normalized_identity_def trim_space_to_lower identity_inv_def)
  ultimately show "identity_inv (db\<lparr>db_identities := db_identities db @ [x],
       db_next_identity_id := db_next_identity_id db + 1\<rparr>)"
    using un inv by (simp add: identity_inv_def)
qed


text \<open>
  \<open>Upsert\<close> by cases: an error leaves the database alone and is never the constraint of a
  unique index; otherwise the row of the provider id, or else of the username, is
  overwritten, or a row is added.
\<close>

definition row_for :: "int \<Rightarrow> provider \<Rightarrow> identity \<Rightarrow> bool \<Rightarrow> string \<Rightarrow> identity_row" where
  "row_for n provider i enabled now =
     \<lparr>ir_id = n, ir_provider = provider, ir_provider_id = i_provider_id i,
      ir_username = i_username i, ir_email = i_email i, ir_display_name = i_name i,
      ir_enabled = enabled, ir_updated_at = now\<rparr>"

lemma set_identity_row_for:
  "set_identity i en now r = row_for (ir_id r) (ir_provider r) i en now"
  by (simp add: set_identity_def row_for_def)

definition upsert_error :: "fault \<Rightarrow> provider \<Rightarrow> identity \<Rightarrow> go_error \<Rightarrow> bool" where
  "upsert_error f provider i err \<longleftrightarrow>
     err = Msg ''a usable identity email is required'' \<or> err = conflict provider (i_username i)
     \<or> (\<exists>n w cause. f n = Some cause \<and> err = Wrap w cause)"

text \<open>The rows that the two lookups of \<open>Upsert\<close> find.\<close>

abbreviation (input) by_id :: "db \<Rightarrow> provider \<Rightarrow> identity \<Rightarrow> identity_row option" where
  "by_id db p i \<equiv> find_identity ir_provider_id p (i_provider_id i) (db_identities db)"

abbreviation (input) by_name :: "db \<Rightarrow> provider \<Rightarrow> identity \<Rightarrow> identity_row option" where
  "by_name db p i \<equiv> find_identity ir_username p (i_username i) (db_identities db)"

lemma by_id_unique:
  assumes "identity_inv db" "s \<in> set (db_identities db)" "ir_provider s = p" "i_provider_id i \<noteq> []"
    "ir_provider_id s = i_provider_id i"
  shows "by_id db p i = Some s"
  using find_identity_unique [of ir_provider_id "db_identities db" s] assms
  by (auto simp: identity_inv_def unique_identities_def)

lemma by_name_unique:
  assumes "identity_inv db" "s \<in> set (db_identities db)" "ir_provider s = p" "i_username i \<noteq> []"
    "ir_username s = i_username i"
  shows "by_name db p i = Some s"
  using find_identity_unique [of ir_username "db_identities db" s] assms
  by (auto simp: identity_inv_def unique_identities_def)

text \<open>The checks before the write: an upsert fails, or saves with rows that do not conflict.\<close>

lemma upsert_saves:
  assumes up: "upsert f now provider i0 en db = (e, db')" and email: "usable_email (i_email i0) \<noteq> []"
    and i: "i = normalized_identity i0"
  obtains (fail) err where "e = Some err" "db' = db" "upsert_error f provider i err"
  | (save) n where
      "save_identity f n (format_timestamp now) provider i en
        (case by_id db provider i of Some p \<Rightarrow> ir_id p
         | None \<Rightarrow> (case by_name db provider i of Some u \<Rightarrow> ir_id u | None \<Rightarrow> 0)) db = (e, db')"
      "\<And>p u. by_id db provider i = Some p \<Longrightarrow> by_name db provider i = Some u \<Longrightarrow> ir_id p = ir_id u"
      "\<And>u. by_name db provider i = Some u \<Longrightarrow> i_provider_id i \<noteq> [] \<Longrightarrow> ir_provider_id u \<in> {[], i_provider_id i}"
proof -
  let ?P = "by_id db provider i" and ?U = "by_name db provider i"
  let ?save = "\<lambda>n. save_identity f n (format_timestamp now) provider i en
    (case ?P of Some p \<Rightarrow> ir_id p | None \<Rightarrow> (case ?U of Some u \<Rightarrow> ir_id u | None \<Rightarrow> 0)) db"
  let ?two = "case (?P, ?U) of (Some p, Some u) \<Rightarrow> ir_id p \<noteq> ir_id u | _ \<Rightarrow> False"
  let ?other = "case ?U of None \<Rightarrow> False
    | Some u \<Rightarrow> i_provider_id i \<noteq> [] \<and> ir_provider_id u \<noteq> [] \<and> i_provider_id i \<noteq> ir_provider_id u"
  have up': "(case (if i_provider_id i \<noteq> [] then f 0 else None) of
          Some e \<Rightarrow> (Some (Wrap ''find identity by provider ID'' e), db)
        | None \<Rightarrow> case (if i_username i \<noteq> [] then f (if i_provider_id i \<noteq> [] then 1 else 0) else None) of
          Some e \<Rightarrow> (Some (Wrap ''find identity by username'' e), db)
        | None \<Rightarrow>
          if ?other then (Some (conflict provider (i_username i)), db)
          else if ?two then (Some (conflict provider (i_username i)), db)
          else ?save ((if i_provider_id i \<noteq> [] then 1 else 0) + (if i_username i \<noteq> [] then 1 else 0))) = (e, db')"
    using up email unfolding upsert_def Let_def i by (simp only: if_False)
  show ?thesis
  proof (cases "\<exists>n. ?save n = (e, db') \<and> \<not> ?two \<and> \<not> ?other")
    case False
    with up' have "e \<noteq> None \<and> db' = db \<and> upsert_error f provider i (the e)"
      by (auto simp: upsert_error_def split: if_splits option.splits)
    then show ?thesis by (intro fail [of "the e"]) auto
  next
    case True
    then obtain n where "?save n = (e, db')" "\<not> ?two" "\<not> ?other" by blast
    then show ?thesis by (intro save [of n]) auto
  qed
qed

text \<open>The write itself, to the row that was found or as a new row.\<close>

lemma save_existing:
  fixes en :: bool and now_text :: string
  assumes inv: "identity_inv db" and i: "i = normalized_identity i0" and email: "usable_email (i_email i0) \<noteq> []"
    and r: "r \<in> set (db_identities db)" "ir_provider r = provider"
    and only: "\<And>s. by_id db provider i = Some s \<Longrightarrow> ir_id s = ir_id r" "\<And>s. by_name db provider i = Some s \<Longrightarrow> ir_id s = ir_id r"
    and ok: "f n = None"
  defines "db1 \<equiv> db\<lparr>db_identities := map (\<lambda>x. if ir_id x = ir_id r then set_identity i en now_text x else x) (db_identities db)\<rparr>"
  shows "save_identity f n now_text provider i en (ir_id r) db = (None, db1)" "identity_inv db1"
proof -
  have pos: "0 < ir_id r" using inv r(1) by (auto simp: identity_inv_def identity_row_ok_def)
  have "unique_identities (db_identities db1)" "identity_inv db1"
    unfolding db1_def
    by (simp, (rule identity_inv_update [OF inv r i email _ _ refl], (use only by_id_unique [OF inv] by_name_unique [OF inv] in blast)+)+)
  then show "save_identity f n now_text provider i en (ir_id r) db = (None, db1)" "identity_inv db1"
    using ok pos by (simp_all add: save_identity_def write_identities_def db1_def)
qed

lemma save_new:
  fixes en :: bool and now_text :: string
  assumes inv: "identity_inv db" and i: "i = normalized_identity i0" and email: "usable_email (i_email i0) \<noteq> []"
    and none: "by_id db provider i = None" "by_name db provider i = None" and ok: "f n = None"
  defines "db1 \<equiv> db\<lparr>db_identities := db_identities db @ [row_for (db_next_identity_id db) provider i en now_text],
    db_next_identity_id := db_next_identity_id db + 1\<rparr>"
  shows "save_identity f n now_text provider i en 0 db = (None, db1)" "identity_inv db1"
proof -
  let ?x = "row_for (db_next_identity_id db) provider i en now_text"
  have x: "ir_id ?x = db_next_identity_id db" "ir_provider ?x = provider"
    "ir_provider_id ?x = i_provider_id i" "ir_username ?x = i_username i" "ir_email ?x = i_email i"
    by (simp_all add: row_for_def)
  have new: "ir_provider_id s \<noteq> i_provider_id i" if "s \<in> set (db_identities db)" "ir_provider s = provider" "i_provider_id i \<noteq> []" for s
    using by_id_unique [OF inv that] none(1) by auto
  have new': "ir_username s \<noteq> i_username i" if "s \<in> set (db_identities db)" "ir_provider s = provider" "i_username i \<noteq> []" for s
    using by_name_unique [OF inv that] none(2) by auto
  have ins: "unique_identities (db_identities db @ [?x])" "identity_inv db1"
    unfolding db1_def by (rule identity_inv_insert [OF inv x i email new new']; assumption)+
  show "save_identity f n now_text provider i en 0 db = (None, db1)"
    unfolding save_identity_def write_identities_def row_for_def [symmetric] db1_def using ok ins(1) by simp
  show "identity_inv db1" by (rule ins(2))
qed

lemma upsert_write:
  assumes inv: "identity_inv db" and up: "upsert f now provider i0 en db = (e, db')"
    and i: "i = normalized_identity i0"
  obtains (fail) err where "e = Some err" "db' = db" "upsert_error f provider i err"
  | (update) r where "e = None" "usable_email (i_email i0) \<noteq> []" "r \<in> set (db_identities db)"
      "ir_provider r = provider"
      "db' = db\<lparr>db_identities := map (\<lambda>x. if ir_id x = ir_id r
        then set_identity i en (format_timestamp now) x else x) (db_identities db)\<rparr>" "identity_inv db'"
      "i_provider_id i \<noteq> [] \<Longrightarrow> ir_provider_id r \<in> {[], i_provider_id i}"
  | (insert) "e = None" "usable_email (i_email i0) \<noteq> []"
      "db' = db\<lparr>db_identities := db_identities db
          @ [row_for (db_next_identity_id db) provider i en (format_timestamp now)],
        db_next_identity_id := db_next_identity_id db + 1\<rparr>"
      "identity_inv db'"
proof (cases "usable_email (i_email i0) = []")
  case True
  with up show ?thesis by (intro fail) (auto simp: upsert_def upsert_error_def)
next
  case email: False
  from up email i show ?thesis
  proof (cases rule: upsert_saves)
    case (save n)
    show ?thesis
    proof (cases "f n")
      case (Some err)
      with save(1) have "db' = db" "e \<noteq> None" "upsert_error f provider i (the e)"
        by (auto simp: save_identity_def upsert_error_def split: if_splits)
      then show ?thesis by (intro fail [of "the e"]) auto
    next
      case ok: None
      note found = find_identity_Some [of ir_provider_id provider "i_provider_id i" "db_identities db"]
        find_identity_Some [of ir_username provider "i_username i" "db_identities db"]
      consider (id) p where "by_id db provider i = Some p"
        | (name) u where "by_id db provider i = None" "by_name db provider i = Some u"
        | (none) "by_id db provider i = None" "by_name db provider i = None" by fastforce
      then show ?thesis
      proof cases
        case (id p)
        with found have p: "p \<in> set (db_identities db)" "ir_provider p = provider" "ir_provider_id p = i_provider_id i" by blast+
        have one: "\<And>s. by_id db provider i = Some s \<Longrightarrow> ir_id s = ir_id p" "\<And>s. by_name db provider i = Some s \<Longrightarrow> ir_id s = ir_id p"
          using id by simp (rule save(2) [OF id, symmetric])
        note w = save_existing [where f = f and n = n and en = en and now_text = "format_timestamp now", OF inv i email p(1,2) one ok]
        have "e = None \<and> db' = db\<lparr>db_identities := map (\<lambda>x. if ir_id x = ir_id p
            then set_identity i en (format_timestamp now) x else x) (db_identities db)\<rparr>"
          using save(1) w(1) unfolding id by simp
        then show ?thesis using update [of p] email p w(2) by simp
      next
        case (name u)
        with found have u: "u \<in> set (db_identities db)" "ir_provider u = provider" by blast+
        have one: "\<And>s. by_id db provider i = Some s \<Longrightarrow> ir_id s = ir_id u" "\<And>s. by_name db provider i = Some s \<Longrightarrow> ir_id s = ir_id u"
          using name by auto
        note w = save_existing [where f = f and n = n and en = en and now_text = "format_timestamp now", OF inv i email u one ok]
        have "e = None \<and> db' = db\<lparr>db_identities := map (\<lambda>x. if ir_id x = ir_id u
            then set_identity i en (format_timestamp now) x else x) (db_identities db)\<rparr>"
          using save(1) w(1) unfolding name by simp
        then show ?thesis using update [of u] email u w(2) save(3) [OF name(2)] by simp
      next
        case none
        note w = save_new [where f = f and n = n and en = en and now_text = "format_timestamp now", OF inv i email none ok]
        have "e = None \<and> db' = db\<lparr>db_identities := db_identities db
            @ [row_for (db_next_identity_id db) provider i en (format_timestamp now)],
          db_next_identity_id := db_next_identity_id db + 1\<rparr>"
          using save(1) w(1) unfolding none by simp
        then show ?thesis using insert email w(2) by simp
      qed
    qed
  qed (rule fail)
qed

subsection \<open>Lookups after writes\<close>

lemma latest_unique:
  assumes "unique_on k rows" "distinct (map ir_id rows)" "r \<in> set rows" "P r"
    and same: "\<And>s. P s \<Longrightarrow> same_key k s r"
  shows "latest t (filter P rows) = Some r"
proof (rule latest_only)
  show "\<forall>s \<in> set (filter P rows). s = r"
  proof
    fix s assume "s \<in> set (filter P rows)"
    then have s: "s \<in> set rows" "same_key k s r" using same by auto
    then have "ir_id s = ir_id r" using assms(1-3) by (simp add: unique_on_iff)
    then show "s = r" using map_fst_eq_same [OF assms(2) s(1) assms(3)] by simp
  qed
qed (use assms(3,4) in simp)

lemma lookup_identity_provider_id:
  assumes "identity_inv db" "r \<in> set (db_identities db)" "ir_enabled r"
    "ir_provider r = provider_or_default (i_provider q)" "i_provider_id q \<noteq> []"
    "ir_provider_id r = i_provider_id q"
  shows "lookup_identity q (db_identities db) = Some r"
proof -
  have "unique_on ir_provider_id (db_identities db)" "distinct (map ir_id (db_identities db))"
    using assms(1) by (auto simp: identity_inv_def unique_identities_def)
  then show ?thesis
    unfolding lookup_identity_def Let_def if_P [OF assms(5)]
    by (rule latest_unique) (use assms(2-6) in \<open>simp_all add: same_key_def\<close>)
qed

lemma lookup_identity_username:
  assumes "identity_inv db" "r \<in> set (db_identities db)" "ir_enabled r"
    "ir_provider r = provider_or_default (i_provider q)" "i_provider_id q = []" "ir_username r \<noteq> []"
    "ir_username r = to_lower (i_username q)"
  shows "lookup_identity q (db_identities db) = Some r"
proof -
  have u: "unique_on ir_username (db_identities db)" "distinct (map ir_id (db_identities db))"
    using assms(1) by (auto simp: identity_inv_def unique_identities_def)
  have "\<not> i_provider_id q \<noteq> []" using assms(5) by simp
  note e = if_not_P [OF this]
  show ?thesis
    unfolding lookup_identity_def Let_def e
    by (rule latest_unique [OF u]) (use assms(2-7) in \<open>simp_all add: same_key_def\<close>)
qed

lemma lookup_identity_Some:
  "lookup_identity q rows = Some r \<Longrightarrow> r \<in> set rows \<and> ir_enabled r
     \<and> ir_provider r = provider_or_default (i_provider q)"
  by (auto simp: lookup_identity_def Let_def dest!: latest_in split: if_splits)

definition queries :: "identity \<Rightarrow> provider \<Rightarrow> identity \<Rightarrow> bool" where
  "queries q provider i \<longleftrightarrow>
     provider_or_default (i_provider q) = provider \<and> usable_email (i_email q) = []
     \<and> (if i_provider_id q \<noteq> [] then i_provider_id q = i_provider_id i
        else i_username q \<noteq> [] \<and> to_lower (i_username q) = to_lower (trim_space (i_username i)))"

lemma upsert_row:
  assumes "identity_inv db" "upsert f now provider i0 en db = (None, db')"
  obtains r where "r \<in> set (db_identities db')" "ir_provider r = provider" "ir_enabled r = en"
    "ir_provider_id r = i_provider_id i0" "ir_username r = to_lower (trim_space (i_username i0))"
    "ir_email r = usable_email (i_email i0)" "identity_inv db'"
  using assms(2)
proof (cases rule: upsert_write [OF assms(1) assms(2) refl, case_names fail update insert])
  case (update r)
  let ?r = "set_identity (normalized_identity i0) en (format_timestamp now) r"
  have "?r \<in> set (db_identities db')"
    unfolding update(5) by (auto intro!: image_eqI [of _ _ r] update(3))
  then show ?thesis
    by (rule that) (simp_all add: update(4,6) normalized_identity_def)
next
  case insert
  let ?r = "row_for (db_next_identity_id db) provider (normalized_identity i0) en (format_timestamp now)"
  have "?r \<in> set (db_identities db')"
    unfolding insert(3) by simp
  then show ?thesis
    by (rule that) (simp_all add: insert(4) row_for_def normalized_identity_def)
qed simp

lemma upsert_inv [inv_intros]:
  assumes "identity_inv db" "upsert f now provider i0 en db = (e, db')"
  shows "identity_inv db'"
  by (cases rule: upsert_write [OF assms(1) assms(2) refl]) (use assms(1) in auto)

lemma resolved_after_upsert:
  assumes "identity_inv db" "upsert f now provider i0 True db = (None, db')" "queries q provider i0"
  shows "i_email (resolved_identity db' q) = usable_email (i_email i0)"
proof -
  obtain r where r: "r \<in> set (db_identities db')" "ir_provider r = provider" "ir_enabled r = True"
    "ir_provider_id r = i_provider_id i0" "ir_username r = to_lower (trim_space (i_username i0))"
    "ir_email r = usable_email (i_email i0)" "identity_inv db'"
    using upsert_row [OF assms(1,2)] by blast
  have q: "usable_email (i_email q) = []" "\<not> (i_provider_id q = [] \<and> i_username q = [])"
    using assms(3) by (auto simp: queries_def split: if_splits)
  have "lookup_identity q (db_identities db') = Some r"
  proof (cases "i_provider_id q = []")
    case True
    then have "i_username q \<noteq> []" "ir_username r = to_lower (i_username q)"
      "ir_provider r = provider_or_default (i_provider q)"
      using assms(3) r by (auto simp: queries_def)
    then show ?thesis using lookup_identity_username [OF r(7,1)] True r(3) by (simp add: to_lower_def)
  next
    case False
    then show ?thesis
      using assms(3) r by (intro lookup_identity_provider_id [OF r(7,1)]) (auto simp: queries_def)
  qed
  then show ?thesis
    unfolding resolved_identity_def if_not_P [OF q(2)] using q(1) r(6) by (simp add: identity_of_row_def)
qed

subsection \<open>Unresolved identities\<close>

definition identifiable :: "identity \<Rightarrow> bool" where
  "identifiable i \<longleftrightarrow> i_provider_id i \<noteq> [] \<or> i_username i \<noteq> []"

lemma distinct_upsert_unresolved:
  assumes "distinct (map unresolved_key rows)"
  shows "distinct (map unresolved_key (upsert_unresolved r rows))"
proof -
  have "map unresolved_key (map (\<lambda>x. if unresolved_key x = unresolved_key r
      then x\<lparr>un_last_seen := un_last_seen r, un_occurrences := un_occurrences x + 1\<rparr> else x) rows)
      = map unresolved_key rows"
    by (simp add: unresolved_key_def)
  then show ?thesis
    using assms by (auto simp: upsert_unresolved_def simp del: map_map)
qed

lemma map_no_key: "k \<notin> f ` set xs \<Longrightarrow> map (\<lambda>x. if f x = k then g x else x) xs = xs"
  by (rule map_idI) auto

lemma sum_bump:
  assumes "\<And>x. h (g x) = h x + (1::int)"
  shows "distinct (map f xs) \<Longrightarrow> k \<in> f ` set xs \<Longrightarrow>
    sum_list (map h (map (\<lambda>x. if f x = k then g x else x) xs)) = sum_list (map h xs) + 1"
proof (induction xs)
  case (Cons a xs)
  show ?case
  proof (cases "f a = k")
    case True
    then have "k \<notin> f ` set xs" using Cons.prems(1) by auto
    then have "map (\<lambda>x. if f x = k then g x else x) xs = xs" by (rule map_no_key)
    then show ?thesis using True by (simp add: assms del: map_map)
  next
    case False
    with Cons show ?thesis by (simp del: map_map)
  qed
qed simp

lemma sum_upsert_unresolved:
  assumes "distinct (map unresolved_key rows)" "un_occurrences r = 1"
  shows "sum_list (map un_occurrences (upsert_unresolved r rows))
    = sum_list (map un_occurrences rows) + 1"
proof (cases "unresolved_key r \<in> unresolved_key ` set rows")
  case True
  then show ?thesis
    unfolding upsert_unresolved_def if_P [OF True] by (intro sum_bump assms(1)) simp_all
next
  case False
  with assms(2) show ?thesis by (simp add: upsert_unresolved_def)
qed

lemma record_loop_total:
  assumes "distinct (map unresolved_key rows)" "record_loop f n now ek ids rows = (None, rows')"
  shows "distinct (map unresolved_key rows') \<and> sum_list (map un_occurrences rows')
    = sum_list (map un_occurrences rows) + int (length (filter identifiable ids))"
  using assms
proof (induction f n now ek ids rows rule: record_loop.induct)
  case (2 f n now ek i ids rows)
  show ?case
  proof (cases "identifiable i")
    case True
    with 2(4) have "f n = None"
      "record_loop f (Suc n) now ek ids (upsert_unresolved (unresolved_row_of now ek i) rows) = (None, rows')"
      by (auto simp: identifiable_def split: option.splits if_splits)
    with 2(2) [OF _ _ distinct_upsert_unresolved [OF 2(3)]] True
      sum_upsert_unresolved [OF 2(3), of "unresolved_row_of now ek i"]
    show ?thesis by (auto simp: identifiable_def unresolved_row_of_def)
  next
    case False
    with 2(1,3,4) show ?thesis by (auto simp: identifiable_def)
  qed
qed simp


subsection \<open>Properties\<close>

definition bob :: identity where
  "bob = \<lparr>i_provider = [], i_provider_id = ''42'', i_username = ''Bob'',
     i_email = ''Bob@example.com'', i_name = ''Bob''\<rparr>"

definition bob_query :: identity where
  "bob_query = \<lparr>i_provider = ProviderGitLab, i_provider_id = [], i_username = ''bob'',
     i_email = [], i_name = []\<rparr>"

definition with_bob :: db where
  "with_bob = snd (upsert no_fault 0 ProviderGitLab bob True empty_db)"

text \<open>C25: an upsert keeps the identity table well formed: row ids and the two partial unique
  indexes stay unique, every mapped address is a usable one and every username is lower case.
  It fails only for an unusable address, a mapping conflict or an error of the driver, never
  on a unique index, and then the table is unchanged.\<close>

theorem upsert_keeps_mappings:
  assumes "identity_inv db" "upsert f now provider i en db = (e, db')"
  shows "identity_inv db' \<and> (case e of None \<Rightarrow> usable_email (i_email i) \<noteq> []
    | Some err \<Rightarrow> db' = db \<and> upsert_error f provider (normalized_identity i) err)"
  using upsert_inv [OF assms] by (cases rule: upsert_write [OF assms refl]) auto

theorem upsert_keeps_mappings_witness:
  "upsert no_fault 0 ProviderGitLab bob True empty_db = (None, with_bob) \<and> identity_inv with_bob
   \<and> length (db_identities with_bob) = 1"
proof -
  have 1: "upsert no_fault 0 ProviderGitLab bob True empty_db = (None, with_bob)"
    unfolding with_bob_def by (rule prod_eqI) (simp_all, code_simp)
  have "length (db_identities with_bob) = 1" by code_simp
  with 1 upsert_keeps_mappings [OF identity_inv_empty 1] show ?thesis by simp
qed

text \<open>What was mapped is found: after a successful upsert of an enabled identity, \<open>Resolve\<close>
  gives its normalised address to every query without a usable address that carries its
  provider id, or carries no provider id and its username in any case.\<close>

theorem resolve_after_upsert:
  assumes "identity_inv db" "upsert f now provider i True db = (None, db')"
    "\<forall>q \<in> set qs. queries q provider i"
  shows "\<exists>out. resolve no_fault n db' qs = Inr out \<and> length out = length qs
    \<and> (\<forall>r \<in> set out. i_email r = usable_email (i_email i))"
  using resolve_no_fault [of no_fault n db' qs] no_fault_none resolved_after_upsert [OF assms(1,2)] assms(3)
  by simp

theorem resolve_after_upsert_witness:
  "map_sum id (map i_email) (resolve no_fault 0 with_bob [bob_query]) = Inr [''bob@example.com'']"
proof -
  have "fst (upsert no_fault 0 ProviderGitLab bob True empty_db) = None" by code_simp
  then have 1: "upsert no_fault 0 ProviderGitLab bob True empty_db = (None, with_bob)"
    by (simp add: with_bob_def prod_eq_iff)
  have 2: "\<forall>q \<in> set [bob_query]. queries q ProviderGitLab bob" by code_simp
  have 3: "usable_email (i_email bob) = ''bob@example.com''" by code_simp
  from resolve_after_upsert [OF identity_inv_empty 1 2, of 0, unfolded 3]
  show ?thesis by (auto simp: length_Suc_conv)
qed

text \<open>\<open>DisableExcept\<close> takes every identity that the directory no longer lists out of use:
  afterwards a query of that provider is either left unmapped or mapped to an enabled row
  whose provider id is listed.\<close>

theorem disable_except_stops_mapping:
  assumes "disable_except f now provider ids db = (Inr n, db')"
    "provider_or_default (i_provider q) = provider" "usable_email (i_email q) = []"
  shows "\<exists>r. resolve no_fault m db' [q] = Inr [r] \<and>
    (r = q \<or> (\<exists>row \<in> set (db_identities db'). ir_enabled row \<and> ir_provider_id row \<in> set ids
      \<and> r = identity_of_row provider q row))"
proof -
  have db': "db_identities db' = map (\<lambda>r. if ir_provider r = provider \<and> ir_provider_id r \<notin> set ids
      then r\<lparr>ir_enabled := False, ir_updated_at := format_timestamp now\<rparr> else r) (db_identities db)"
    using assms(1) unfolding disable_except_def Let_def
    by (cases "f 0"; cases "f 1"; simp; elim conjE; hypsubst; simp)
  have rows: "ir_provider_id row \<in> set ids"
    if row: "row \<in> set (db_identities db')" "ir_enabled row" "ir_provider row = provider" for row
  proof -
    from row(1) obtain r where "row = (if ir_provider r = provider \<and> ir_provider_id r \<notin> set ids
        then r\<lparr>ir_enabled := False, ir_updated_at := format_timestamp now\<rparr> else r)"
      unfolding db' set_map by (rule imageE)
    with row(2,3) show ?thesis by (simp split: if_splits)
  qed
  have "resolved_identity db' q = q \<or> (\<exists>row \<in> set (db_identities db'). ir_enabled row
      \<and> ir_provider_id row \<in> set ids \<and> resolved_identity db' q = identity_of_row provider q row)"
    using assms(2,3) rows lookup_identity_Some [of q "db_identities db'"]
    unfolding resolved_identity_def by (auto split: option.split)
  then show ?thesis
    using resolve_no_fault [of no_fault m db' "[q]"] no_fault_none by simp
qed

theorem disable_except_stops_mapping_witness:
  "\<exists>r. resolve no_fault 0 (snd (disable_except no_fault 0 ProviderGitLab [''7''] with_bob)) [bob_query]
     = Inr [r] \<and> (r = bob_query \<or> (\<exists>row \<in> set (db_identities (snd (disable_except no_fault 0
        ProviderGitLab [''7''] with_bob))). ir_enabled row \<and> ir_provider_id row \<in> set [''7'']
      \<and> r = identity_of_row ProviderGitLab bob_query row))"
proof -
  have "fst (disable_except no_fault 0 ProviderGitLab [''7''] with_bob) = Inr 1" by code_simp
  then have 1: "disable_except no_fault 0 ProviderGitLab [''7''] with_bob
      = (Inr 1, snd (disable_except no_fault 0 ProviderGitLab [''7''] with_bob))"
    by (simp add: prod_eq_iff)
  show ?thesis by (rule disable_except_stops_mapping [OF 1]) code_simp+
qed

text \<open>Recording unresolved identities keeps one row for each event and identity and
  counts every identity that has a provider id or a username once.\<close>

theorem record_unresolved_counts:
  assumes "distinct (map unresolved_key (db_unresolved db))"
    "record_unresolved f now event_key ids db = (None, db')"
  shows "distinct (map unresolved_key (db_unresolved db'))
    \<and> sum_list (map un_occurrences (db_unresolved db'))
      = sum_list (map un_occurrences (db_unresolved db)) + int (length (filter identifiable ids))"
proof -
  obtain rows where "record_loop f 0 (format_timestamp now) event_key ids (db_unresolved db) = (None, rows)"
    "db_unresolved db' = rows"
    using assms(2) by (auto simp: record_unresolved_def split: if_splits prod.splits)
  with record_loop_total [OF assms(1)] show ?thesis by blast
qed

theorem record_unresolved_counts_witness:
  "sum_list (map un_occurrences (db_unresolved (snd (record_unresolved no_fault 0 ''ev''
     [bob, bob_query, bob] empty_db)))) = 3"
proof -
  let ?r = "record_unresolved no_fault 0 ''ev'' [bob, bob_query, bob] empty_db"
  have "fst ?r = None" by code_simp
  then have 1: "?r = (None, snd ?r)" by (simp add: prod_eq_iff)
  have 2: "distinct (map unresolved_key (db_unresolved empty_db))" by (simp add: empty_db_def)
  have 3: "int (length (filter identifiable [bob, bob_query, bob])) = 3" by code_simp
  from record_unresolved_counts [OF 2 1, unfolded 3] show ?thesis by (simp add: empty_db_def)
qed

end
