(* ===== verification/DecoderText.thy ===== *)
theory DecoderText
  imports GoUrl GoFloat GoLayout StoreIdentity
begin

section \<open>Reading a GitLab payload: values, texts and links\<close>

text \<open>
  The helpers of adapter/git/gitlab/v17_6/decoder.go. The payload is a JSON value; a Go map
  made of an object keeps the last of equal keys, a nil map is the empty list, a missing
  member is \<open>nil\<close>. \<open>string_value\<close> prints as \<open>fmt\<close> does, numbers with \<open>%g\<close>.
\<close>

type_synonym object = "(string \<times> json) list"

definition member :: "object \<Rightarrow> string \<Rightarrow> json" where
  "member data k = (case map_of (rev data) k of None \<Rightarrow> JNull | Some v \<Rightarrow> v)"

fun map_value :: "json \<Rightarrow> object" where
  "map_value (JObj ms) = ms"
| "map_value v = []"

fun array_value :: "json \<Rightarrow> json list" where
  "array_value (JArr vs) = vs"
| "array_value v = []"

text \<open>The members of a Go map in the order of their keys, the last of equal keys.\<close>

definition sorted_members :: "(string \<times> 'v) list \<Rightarrow> (string \<times> 'v) list" where
  "sorted_members ms = map (\<lambda>k. (k, the (map_of (rev ms) k))) (sorted_list_of_set (fst ` set ms))"

definition number_text :: "string \<Rightarrow> string" where
  "number_text lit = (case float_decimal lit of None \<Rightarrow> [] | Some d \<Rightarrow> format_g d)"

definition bool_text :: "bool \<Rightarrow> string" where
  "bool_text b = (if b then ''true'' else ''false'')"

text \<open>\<open>fmt.Sprint\<close> of a value inside another.\<close>

fun sprint :: "json \<Rightarrow> string" where
  "sprint JNull = ''<nil>''"
| "sprint (JBool b) = bool_text b"
| "sprint (JNum lit) = number_text lit"
| "sprint (JStr s) = s"
| "sprint (JArr vs) = ''['' @ join (map sprint vs) '' '' @ '']''"
| "sprint (JObj ms) =
     ''map['' @ join (map (\<lambda>(k, t). k @ '':'' @ t) (sorted_members (map (\<lambda>(k, v). (k, sprint v)) ms))) '' '' @ '']''"

definition string_value :: "json \<Rightarrow> string" where
  "string_value v = (case v of JNull \<Rightarrow> [] | _ \<Rightarrow> sprint v)"

definition bool_value :: "json \<Rightarrow> bool" where
  "bool_value v = (case v of JBool b \<Rightarrow> b | _ \<Rightarrow> equal_fold (string_value v) ''true'')"

subsection \<open>JSON texts of values\<close>

text \<open>
  \<open>json.Marshal\<close>, with keys sorted, the characters of HTML escaped, and numbers as
  JavaScript writes them.
\<close>

definition unicode_escape :: "nat \<Rightarrow> string" where
  "unicode_escape n = [CHR 0x5C, CHR ''u''] @ map (\<lambda>d. if d < 10 then char_of (48 + d) else char_of (87 + d))
     [n div 4096 mod 16, n div 256 mod 16, n div 16 mod 16, n mod 16]"

definition json_rune :: "nat \<Rightarrow> string" where
  "json_rune r =
     (if r = 0x22 then [CHR 0x5C, CHR 0x22] else if r = 0x5C then [CHR 0x5C, CHR 0x5C]
      else if r = 8 then [CHR 0x5C, CHR ''b''] else if r = 12 then [CHR 0x5C, CHR ''f'']
      else if r = 10 then [CHR 0x5C, CHR ''n''] else if r = 13 then [CHR 0x5C, CHR ''r'']
      else if r = 9 then [CHR 0x5C, CHR ''t'']
      else if r < 32 \<or> r = 0x3C \<or> r = 0x3E \<or> r = 0x26 \<or> r = 0x2028 \<or> r = 0x2029 then unicode_escape r
      else string_of_runes [r])"

text \<open>The runes of a text, each with whether it stands for a byte that is not well-formed UTF-8.\<close>

function marked_runes_of :: "nat list \<Rightarrow> (nat \<times> bool) list" where
  "marked_runes_of [] = []"
| "marked_runes_of (b # bs) =
     (fst (decode_bytes (b # bs)), decode_bytes (b # bs) = (rune_error, 1))
       # marked_runes_of (drop (snd (decode_bytes (b # bs))) (b # bs))"
  by pat_completeness auto
termination
  by (relation "measure length", simp, simp only: in_measure decode_drop_less)

definition marked_runes :: "string \<Rightarrow> (nat \<times> bool) list" where
  "marked_runes s = marked_runes_of (map code s)"

lemma map_fst_marked_runes: "map fst (marked_runes s) = runes s"
proof -
  have "map fst (marked_runes_of bs) = runes_of bs" for bs
    by (induction bs rule: marked_runes_of.induct) (simp_all del: decode_bytes.simps)
  then show ?thesis by (simp add: marked_runes_def runes_def)
qed

definition json_string :: "string \<Rightarrow> string" where
  "json_string s = [CHR 0x22]
     @ concat (map (\<lambda>(r, bad). if bad then unicode_escape r else json_rune r) (marked_runes s)) @ [CHR 0x22]"

definition json_number :: "string \<Rightarrow> string" where
  "json_number lit =
     (case float_decimal lit of
        None \<Rightarrow> []
      | Some (neg, ds, dp) \<Rightarrow>
        (if neg then ''-'' else []) @
        (if ds = [] then ''0''
         else if dp - 1 < - 6 \<or> 21 \<le> dp - 1 then
           take 1 ds @ (if length ds = 1 then [] else ''.'' @ drop 1 ds)
             @ (if dp - 1 < 0 then ''e-'' else ''e+'') @ nat_string (nat \<bar>dp - 1\<bar>)
         else if dp \<le> 0 then ''0.'' @ replicate (nat (- dp)) CHR ''0'' @ ds
         else if length ds \<le> nat dp then ds @ replicate (nat dp - length ds) CHR ''0''
         else take (nat dp) ds @ ''.'' @ drop (nat dp) ds))"

fun marshal :: "json \<Rightarrow> string" where
  "marshal JNull = ''null''"
| "marshal (JBool b) = bool_text b"
| "marshal (JNum lit) = json_number lit"
| "marshal (JStr s) = json_string s"
| "marshal (JArr vs) = ''['' @ join (map marshal vs) '','' @ '']''"
| "marshal (JObj ms) =
     ''{'' @ join (map (\<lambda>(k, t). json_string k @ '':'' @ t) (sorted_members (map (\<lambda>(k, v). (k, marshal v)) ms))) '','' @ ''}''"

definition scalar_string :: "json \<Rightarrow> string" where
  "scalar_string v = (case v of JNull \<Rightarrow> [] | JObj ms \<Rightarrow> marshal v | JArr vs \<Rightarrow> marshal v | _ \<Rightarrow> string_value v)"

text \<open>A payload is refused if it holds a number that no \<open>float64\<close> can hold.\<close>

fun in_range :: "json \<Rightarrow> bool" where
  "in_range (JNum lit) = (float_decimal lit \<noteq> None)"
| "in_range (JArr vs) = list_all in_range vs"
| "in_range (JObj ms) = list_all (\<lambda>(k, v). in_range v) ms"
| "in_range v = True"

subsection \<open>Texts\<close>

fun first_non_empty :: "string list \<Rightarrow> string" where
  "first_non_empty [] = []"
| "first_non_empty (v # vs) = (if trim_space v \<noteq> [] then v else first_non_empty vs)"

definition decoder_usable_email :: "string \<Rightarrow> string" where
  "decoder_usable_email value =
     (let v = to_lower (trim_space value) in
      if v = [] \<or> v = ''[redacted]'' \<or> contains v ''noreply'' then []
      else if \<not> addr_spec v \<or> \<not> contains v ''@'' then []
      else v)"

lemma decoder_usable_email_eq: "decoder_usable_email = usable_email"
  by (rule ext) (simp add: decoder_usable_email_def usable_email_def)

subsection \<open>Links\<close>

definition valid_http_url :: "string \<Rightarrow> bool" where
  "valid_http_url value =
     (case parse_url (trim_space value) of
        None \<Rightarrow> False
      | Some u \<Rightarrow> u_host u \<noteq> [] \<and> (equal_fold (u_scheme u) ''http'' \<or> equal_fold (u_scheme u) ''https''))"

fun first_http_url :: "string list \<Rightarrow> string" where
  "first_http_url [] = []"
| "first_http_url (v # vs) = (if valid_http_url v then trim_space v else first_http_url vs)"

definition fallback_url :: "string \<Rightarrow> string \<Rightarrow> string \<Rightarrow> string" where
  "fallback_url project_url resource iid =
     (if project_url = [] \<or> iid = [] then []
      else trim_right project_url CHR ''/'' @ ''/-/'' @ resource @ ''/'' @ iid)"

definition fallback_pipeline_url :: "string \<Rightarrow> string \<Rightarrow> string" where
  "fallback_pipeline_url project_url i = fallback_url project_url ''pipelines'' i"

definition fallback_job_url :: "string \<Rightarrow> string \<Rightarrow> string" where
  "fallback_job_url project_url i = fallback_url project_url ''jobs'' i"

definition note_anchor_url :: "string \<Rightarrow> string \<Rightarrow> string" where
  "note_anchor_url resource_url note_id =
     (if \<not> valid_http_url resource_url \<or> note_id = [] then []
      else case parse_url resource_url of
        None \<Rightarrow> []
      | Some u \<Rightarrow> url_string (u\<lparr>u_fragment := ''note_'' @ note_id\<rparr>))"

text \<open>\<open>WithLinkBase\<close>, and the rewriting of a link to that base.\<close>

definition with_link_base :: "string \<Rightarrow> url option" where
  "with_link_base base = (if \<not> valid_http_url base then None else parse_url (trim_space base))"

definition rewrite_url :: "url option \<Rightarrow> string \<Rightarrow> string" where
  "rewrite_url link_base value =
     (case link_base of
        None \<Rightarrow> value
      | Some base \<Rightarrow>
        if value = [] \<or> \<not> valid_http_url value then value
        else case parse_url (trim_space value) of
          None \<Rightarrow> value
        | Some u \<Rightarrow> url_string (u\<lparr>u_scheme := u_scheme base, u_host := u_host base\<rparr>))"

subsection \<open>Mentions\<close>

text \<open>\<open>fencedCode\<close> and \<open>inlineCode\<close>: each match, from the left, becomes a space.\<close>

lemma index_cut_length: "index_cut s w = Some (a, b) \<Longrightarrow> length b \<le> length s"
  by (induction s w arbitrary: a b rule: index_cut.induct) (fastforce split: if_splits)+

lemma split2_length: "split2 s c = Some (a, b) \<Longrightarrow> length b < length s"
  using split2_Some by fastforce

definition fence :: string where
  "fence = ''```''"

function strip_fenced :: "string \<Rightarrow> string" where
  "strip_fenced s =
     (if s = [] then []
      else if prefix fence s then
        (case index_cut (drop 3 s) fence of
           Some (inside, rest) \<Rightarrow> '' '' @ strip_fenced (drop 3 rest)
         | None \<Rightarrow> hd s # strip_fenced (tl s))
      else hd s # strip_fenced (tl s))"
  by auto
termination
  by (relation "measure length") (auto simp: neq_Nil_conv dest: index_cut_length)

function strip_inline :: "string \<Rightarrow> string" where
  "strip_inline s =
     (case s of
        [] \<Rightarrow> []
      | c # r \<Rightarrow>
        if c = CHR ''`'' then
          (case split2 r CHR ''`'' of
             Some (inside, rest) \<Rightarrow> '' '' @ strip_inline rest
           | None \<Rightarrow> c # strip_inline r)
        else c # strip_inline r)"
  by auto
termination
  by (relation "measure length") (auto dest: split2_length)

declare strip_fenced.simps [simp del] strip_inline.simps [simp del]

text \<open>
  \<open>mentionPattern\<close>: a name follows an at sign at the start of the text or after a character
  that is no part of an address; it is as long as its at most 64 characters allow and ends at
  a word boundary. \<open>name_length s\<close> is the length of the name at the front of \<open>s\<close>.
\<close>

definition address_char :: "char \<Rightarrow> bool" where
  "address_char c \<longleftrightarrow> is_alnum c \<or> c \<in> set ''._%+-''"

definition name_char :: "char \<Rightarrow> bool" where
  "name_char c \<longleftrightarrow> is_alnum c \<or> c \<in> set ''_.-''"

definition word_char :: "char \<Rightarrow> bool" where
  "word_char c \<longleftrightarrow> is_alnum c \<or> c = CHR ''_''"

definition boundary :: "string \<Rightarrow> nat \<Rightarrow> bool" where
  "boundary s k \<longleftrightarrow> word_char (s ! (k - 1)) \<noteq> (k < length s \<and> word_char (s ! k))"

definition name_length :: "string \<Rightarrow> nat option" where
  "name_length s =
     (if s = [] \<or> \<not> is_alnum (hd s) then None
      else find (boundary s) (rev [1..<Suc (length (takeWhile name_char (take 64 s)))]))"

lemma find_in_set: "find P xs = Some x \<Longrightarrow> x \<in> set xs \<and> P x"
  by (auto simp: find_Some_iff)

lemma name_length_range:
  assumes "name_length s = Some k"
  shows "1 \<le> k" "k \<le> length (takeWhile name_char (take 64 s))" "k \<le> length s" "boundary s k" "is_alnum (hd s)"
proof -
  have k: "k \<in> set (rev [1..<Suc (length (takeWhile name_char (take 64 s)))])" "boundary s k"
    using assms find_in_set unfolding name_length_def by (metis option.distinct(1))+
  then show "1 \<le> k" "k \<le> length (takeWhile name_char (take 64 s))" "boundary s k" by auto
  moreover have "length (takeWhile name_char (take 64 s)) \<le> length s"
    using length_takeWhile_le [of name_char "take 64 s"] by simp
  ultimately show "k \<le> length s" by simp
  show "is_alnum (hd s)" using assms by (auto simp: name_length_def split: if_splits)
qed

text \<open>All matches from the left; only the first may stand at the start of the text.\<close>

definition mention_here :: "bool \<Rightarrow> string \<Rightarrow> (nat \<times> nat) option" where
  "mention_here at_start s =
     (case (if at_start \<and> prefix ''@'' s then name_length (tl s) else None) of
        Some k \<Rightarrow> Some (1, k)
      | None \<Rightarrow>
        (case s of
           c # d # r \<Rightarrow> if \<not> address_char c \<and> d = CHR ''@'' then map_option (Pair 2) (name_length r) else None
         | _ \<Rightarrow> None))"

function scan_mentions :: "bool \<Rightarrow> string \<Rightarrow> string list" where
  "scan_mentions at_start s =
     (if s = [] then []
      else case mention_here at_start s of
        Some (i, k) \<Rightarrow> take k (drop i s) # scan_mentions False (drop (i + k) s)
      | None \<Rightarrow> scan_mentions False (tl s))"
  by auto
termination
  by (relation "measure (length \<circ> snd)")
    (auto simp: mention_here_def split: if_splits option.splits list.splits dest: name_length_range(1))

declare scan_mentions.simps [simp del]

definition clean_text :: "string \<Rightarrow> string" where
  "clean_text text = strip_inline (strip_fenced text)"

fun add_mentions :: "string list \<Rightarrow> string list \<Rightarrow> string list" where
  "add_mentions [] seen = []"
| "add_mentions (m # ms) seen =
     (let username = to_lower (trim_space m) in
      if username = [] \<or> username = ''all'' \<or> username = ''here'' \<or> username \<in> set seen
      then add_mentions ms seen
      else username # add_mentions ms (username # seen))"

definition extract_mentions :: "string list \<Rightarrow> identity list" where
  "extract_mentions texts =
     map (\<lambda>u. no_identity\<lparr>i_username := u\<rparr>)
       (add_mentions (concat (map (\<lambda>t. scan_mentions True (clean_text t)) texts)) [])"

subsection \<open>What counts as a mention\<close>

text \<open>
  Said directly: every at sign at the start or after a character that is no part of an address,
  with a name behind it. The search with its consumed matches finds exactly these.
\<close>

definition name_at :: "string \<Rightarrow> string list" where
  "name_at s = (case name_length s of None \<Rightarrow> [] | Some k \<Rightarrow> [take k s])"

fun mentions_ref :: "bool \<Rightarrow> string \<Rightarrow> string list" where
  "mentions_ref free [] = []"
| "mentions_ref free (c # s) =
     (if free \<and> c = CHR ''@'' then name_at s else []) @ mentions_ref (\<not> address_char c) s"

lemma name_char_address: "name_char c \<Longrightarrow> address_char c \<and> c \<noteq> CHR ''@''"
  by (auto simp: name_char_def address_char_def is_alnum_def is_letter_def is_digit_def code_def)

lemma mentions_ref_names: "xs \<noteq> [] \<Longrightarrow> list_all name_char xs \<Longrightarrow> mentions_ref free (xs @ t) = mentions_ref False t"
proof (induction xs arbitrary: free)
  case (Cons x xs)
  have x: "mentions_ref free ((x # xs) @ t) = mentions_ref False (xs @ t)"
    using name_char_address [of x] Cons.prems by simp
  show ?case
  proof (cases "xs = []")
    case False
    show ?thesis unfolding x using Cons.IH [OF False] Cons.prems by simp
  qed (use x in simp)
qed simp

lemma name_taken:
  assumes "name_length s = Some k"
  shows "mentions_ref free s = mentions_ref False (drop k s)" "take k s \<noteq> []" "list_all name_char (take k s)"
proof -
  note k = name_length_range [OF assms]
  have "take k (take 64 s) = take k (takeWhile name_char (take 64 s))"
    using k(2) by (metis append_take_drop_id take_append takeWhile_dropWhile_id diff_is_0_eq' take0 append_Nil2)
  moreover have "take k (take 64 s) = take k s"
    using k(2) length_takeWhile_le [of name_char "take 64 s"] by (simp add: min_absorb1)
  ultimately have e: "take k s = take k (takeWhile name_char (take 64 s))" by simp
  have "set (takeWhile name_char (take 64 s)) \<subseteq> Collect name_char" using set_takeWhileD by fastforce
  then show l: "list_all name_char (take k s)" unfolding e list_all_iff by (auto dest: in_set_takeD)
  show n: "take k s \<noteq> []" using k(1,3) by auto
  show "mentions_ref free s = mentions_ref False (drop k s)"
    using mentions_ref_names [OF n l, of free "drop k s"] by simp
qed

lemma mentions_ref_free:
  "\<not> (prefix ''@'' s \<and> name_length (tl s) \<noteq> None) \<Longrightarrow> mentions_ref free s = mentions_ref False s"
  by (cases s) (auto simp: name_at_def)

lemma scan_is_ref: "scan_mentions free s = mentions_ref free s"
proof (induction free s rule: scan_mentions.induct)
  case (1 free s)
  show ?case
  proof (cases s)
    case Nil
    then show ?thesis by (simp add: scan_mentions.simps)
  next
    case (Cons c r)
    show ?thesis
    proof (cases "mention_here free s")
      case None
      have "scan_mentions free s = scan_mentions False r"
        using None Cons by (simp add: scan_mentions.simps [of free "c # r"])
      also have "\<dots> = mentions_ref False r" using 1 None Cons by auto
      also have "\<dots> = mentions_ref (\<not> address_char c) r"
      proof (cases "address_char c")
        case False
        have "\<not> (prefix ''@'' r \<and> name_length (tl r) \<noteq> None)"
          using None Cons False by (cases r) (auto simp: mention_here_def split: if_splits option.splits)
        from mentions_ref_free [OF this] show ?thesis by metis
      qed simp
      also have "\<dots> = mentions_ref free s"
        using None Cons by (auto simp: mention_here_def name_at_def split: option.splits if_splits)
      finally show ?thesis .
    next
      case (Some ik)
      obtain i k where ik: "ik = (i, k)" by fastforce
      have scan: "scan_mentions free s = take k (drop i s) # scan_mentions False (drop (i + k) s)"
        using Some Cons ik by (simp add: scan_mentions.simps [of free "c # r"])
      have IH: "scan_mentions False (drop (i + k) s) = mentions_ref False (drop (i + k) s)"
        using 1 Some Cons ik by auto
      consider (first) "i = 1" "free" "c = CHR ''@''" "name_length r = Some k"
        | (later) d t where "i = 2" "r = d # t" "\<not> address_char c" "d = CHR ''@''" "name_length t = Some k"
            "\<not> (free \<and> c = CHR ''@'' \<and> name_length r \<noteq> None)"
        using Some Cons ik by (cases r) (auto simp: mention_here_def split: if_splits option.splits)
      then show ?thesis
      proof cases
        case first
        have "mentions_ref free s = take k r # mentions_ref False (drop k r)"
          using Cons first name_taken(1) [OF first(4)] by (simp add: name_at_def)
        then show ?thesis unfolding scan IH using Cons first(1) by simp
      next
        case later
        have "mentions_ref free s = mentions_ref True r"
          using Cons later(3,6) by (auto simp: name_at_def split: option.split)
        also have "\<dots> = take k t # mentions_ref False (drop k t)"
          using later name_taken(1) [OF later(5)] by (simp add: name_at_def)
        finally show ?thesis unfolding scan IH using Cons later(1,2) by simp
      qed
    qed
  qed
qed

lemma add_mentions_spec:
  "distinct (add_mentions ms seen) \<and> set (add_mentions ms seen)
    = (\<lambda>m. to_lower (trim_space m)) ` set ms - {[], ''all'', ''here''} - set seen"
proof (induction ms seen rule: add_mentions.induct)
  case (2 m ms seen)
  define u where "u = to_lower (trim_space m)"
  show ?case
  proof (cases "u = [] \<or> u = ''all'' \<or> u = ''here'' \<or> u \<in> set seen")
    case True
    then have e: "add_mentions (m # ms) seen = add_mentions ms seen" by (simp add: u_def)
    have s: "(\<lambda>m. to_lower (trim_space m)) ` set (m # ms) = insert u ((\<lambda>m. to_lower (trim_space m)) ` set ms)"
      by (simp add: u_def)
    show ?thesis unfolding e s using 2(1) [OF u_def True] True by blast
  next
    case False
    then have e: "add_mentions (m # ms) seen = u # add_mentions ms (u # seen)" by (simp add: u_def Let_def)
    have s: "(\<lambda>m. to_lower (trim_space m)) ` set (m # ms) = insert u ((\<lambda>m. to_lower (trim_space m)) ` set ms)"
      by (simp add: u_def)
    show ?thesis unfolding e s using 2(2) [OF u_def False] False by force
  qed
qed simp

lemma mention_usernames:
  "distinct (map i_username (extract_mentions texts))"
  "set (map i_username (extract_mentions texts))
    = (\<lambda>m. to_lower (trim_space m)) ` (\<Union>t \<in> set texts. set (mentions_ref True (clean_text t))) - {[], ''all'', ''here''}"
  using add_mentions_spec [of "concat (map (\<lambda>t. scan_mentions True (clean_text t)) texts)" "[]"]
  by (simp_all add: extract_mentions_def comp_def scan_is_ref)

end
