(* ===== verification/GoHttp.thy ===== *)
theory GoHttp
  imports DecoderText
begin

section \<open>HTTP and JSON structures\<close>

text \<open>
  What the two API clients share. The other side of the network is a \<open>world\<close>: it answers a
  request, given everything that was sent and waited for before, and tells whether the context
  is done when a wait ends. A client threads the trace of its requests and waits. The second
  part is \<open>json.Unmarshal\<close> into a structure or a slice that may already hold values, since a
  retried request decodes into the same variable again.
\<close>

subsection \<open>The network\<close>

record http_request =
  hr_method :: string
  hr_url :: string
  hr_headers :: "(string \<times> string) list"
  hr_body :: "string option"

record http_response =
  hs_status :: nat
  hs_header :: "string \<Rightarrow> string"
  hs_body :: "string res"

datatype net_event = Sent http_request | Waited int

record world =
  w_answer :: "net_event list \<Rightarrow> http_request \<Rightarrow> http_response res"
  w_done :: "net_event list \<Rightarrow> bool"

fun sent :: "net_event list \<Rightarrow> http_request list" where
  "sent [] = []"
| "sent (Sent r # tr) = r # sent tr"
| "sent (Waited d # tr) = sent tr"

lemma sent_append [simp]: "sent (a @ b) = sent a @ sent b"
  by (induction a rule: sent.induct) auto

subsection \<open>Numbers\<close>

text \<open>\<open>strconv.Atoi\<close> with its range.\<close>

definition in_int64 :: "int \<Rightarrow> bool" where
  "in_int64 x \<longleftrightarrow> - (2 ^ 63) \<le> x \<and> x < 2 ^ 63"

definition atoi :: "string \<Rightarrow> int option" where
  "atoi s =
     (let ds = (if prefix ''-'' s \<or> prefix ''+'' s then tl s else s);
          n = (if prefix ''-'' s then - int (digits_value ds) else int (digits_value ds))
      in if ds = [] \<or> \<not> list_all is_digit ds \<or> \<not> in_int64 n then None else Some n)"

subsection \<open>Unmarshal into a structure\<close>

text \<open>
  A decoder takes a JSON value and what the variable holds, and returns what it holds after
  and whether there was no error; an error does not stop the decoding of what follows.
\<close>

type_synonym 'a into = "json \<Rightarrow> 'a \<Rightarrow> 'a \<times> bool"

definition into_string :: "string into" where
  "into_string v old = (case v of JStr s \<Rightarrow> (s, True) | JNull \<Rightarrow> (old, True) | _ \<Rightarrow> (old, False))"

definition into_bool :: "bool into" where
  "into_bool v old = (case v of JBool b \<Rightarrow> (b, True) | JNull \<Rightarrow> (old, True) | _ \<Rightarrow> (old, False))"

definition into_int :: "int into" where
  "into_int v old =
     (case v of
        JNum lit \<Rightarrow> (case atoi lit of None \<Rightarrow> (old, False) | Some n \<Rightarrow> (n, True))
      | JNull \<Rightarrow> (old, True)
      | _ \<Rightarrow> (old, False))"

text \<open>A value of type \<open>any\<close>; \<open>JNull\<close> is nil.\<close>

definition into_any :: "json into" where
  "into_any v old = (v, in_range v)"

text \<open>A field with its JSON name and its setter; a member goes to the field of its exact name or else of its name in other case.\<close>

type_synonym 'r fields = "(string \<times> (json \<Rightarrow> 'r \<Rightarrow> 'r \<times> bool)) list"

definition field_of :: "'r fields \<Rightarrow> string \<Rightarrow> (json \<Rightarrow> 'r \<Rightarrow> 'r \<times> bool) option" where
  "field_of fs k =
     (case map_of fs k of Some f \<Rightarrow> Some f
      | None \<Rightarrow> map_option snd (find (\<lambda>(name, f). equal_fold name k) fs))"

fun into_members :: "'r fields \<Rightarrow> object \<Rightarrow> 'r \<Rightarrow> 'r \<times> bool" where
  "into_members fs [] r = (r, True)"
| "into_members fs ((k, v) # ms) r =
     (case field_of fs k of
        None \<Rightarrow> into_members fs ms r
      | Some f \<Rightarrow>
        (case f v r of (r1, ok1) \<Rightarrow>
         case into_members fs ms r1 of (r2, ok2) \<Rightarrow> (r2, ok1 \<and> ok2)))"

definition into_struct :: "'r fields \<Rightarrow> 'r into" where
  "into_struct fs v r = (case v of JObj ms \<Rightarrow> into_members fs ms r | JNull \<Rightarrow> (r, True) | _ \<Rightarrow> (r, False))"

definition field :: "string \<Rightarrow> 'a into \<Rightarrow> ('r \<Rightarrow> 'a) \<Rightarrow> ('a \<Rightarrow> 'r \<Rightarrow> 'r) \<Rightarrow> string \<times> (json \<Rightarrow> 'r \<Rightarrow> 'r \<times> bool)" where
  "field name dec get put = (name, \<lambda>v r. case dec v (get r) of (x, ok) \<Rightarrow> (put x r, ok))"

text \<open>
  A slice: its length, and every element its array has ever been given, since the elements
  beyond the length are found again when it grows.
\<close>

record 'a slice =
  sl_array :: "'a list"
  sl_len :: nat

definition nil_slice :: "'a slice" where
  "nil_slice = \<lparr>sl_array = [], sl_len = 0\<rparr>"

definition elements :: "'a slice \<Rightarrow> 'a list" where
  "elements s = take (sl_len s) (sl_array s)"

fun into_elements :: "'a into \<Rightarrow> 'a \<Rightarrow> json list \<Rightarrow> 'a list \<Rightarrow> 'a list \<times> bool" where
  "into_elements dec zero [] olds = (olds, True)"
| "into_elements dec zero (v # vs) olds =
     (case dec v (case olds of [] \<Rightarrow> zero | x # _ \<Rightarrow> x) of (y, ok1) \<Rightarrow>
      case into_elements dec zero vs (tl olds) of (ys, ok2) \<Rightarrow> (y # ys, ok1 \<and> ok2))"

definition into_slice :: "'a into \<Rightarrow> 'a \<Rightarrow> 'a slice into" where
  "into_slice dec zero v s =
     (case v of
        JArr [] \<Rightarrow> (nil_slice, True)
      | JArr vs \<Rightarrow> (case into_elements dec zero vs (sl_array s) of (ys, ok) \<Rightarrow> (\<lparr>sl_array = ys, sl_len = length vs\<rparr>, ok))
      | JNull \<Rightarrow> (nil_slice, True)
      | _ \<Rightarrow> (s, False))"

text \<open>\<open>json.Unmarshal\<close>: a text that is not well-formed changes nothing.\<close>

definition unmarshal_into :: "'a into \<Rightarrow> string \<Rightarrow> 'a \<Rightarrow> 'a \<times> bool" where
  "unmarshal_into dec body old = (case parse_json body of None \<Rightarrow> (old, False) | Some v \<Rightarrow> dec v old)"

lemma into_elements_length: "length (fst (into_elements dec zero vs olds)) = max (length vs) (length olds)"
proof (induction vs arbitrary: olds)
  case (Cons v vs)
  from Cons.IH [of "tl olds"] show ?case by (cases olds) (auto split: prod.splits)
qed simp

end
