(* ===== verification/RoutingText.thy ===== *)
theory RoutingText
  imports Policy
begin

section \<open>The text of a notification\<close>

text \<open>
  The second half of application/routing.go: title, summary, facts, source text, failed jobs
  and links of a notification as functions of the event. A switch on a string is a chain of
  tests in the order of its cases. The lemmas say what the texts never contain twice, drop
  or lose.
\<close>

abbreviation (input) ReasonCIFailed :: string where "ReasonCIFailed \<equiv> ''ci_failed''"
abbreviation (input) ReasonCIRecovered :: string where "ReasonCIRecovered \<equiv> ''ci_recovered''"
abbreviation (input) ReasonMRReviewRequested :: string where "ReasonMRReviewRequested \<equiv> ''mr_review_requested''"
abbreviation (input) ReasonMRAssigned :: string where "ReasonMRAssigned \<equiv> ''mr_assigned''"
abbreviation (input) ReasonMRUpdated :: string where "ReasonMRUpdated \<equiv> ''mr_updated''"
abbreviation (input) ReasonMRApproved :: string where "ReasonMRApproved \<equiv> ''mr_approved''"
abbreviation (input) ReasonMRStateChanged :: string where "ReasonMRStateChanged \<equiv> ''mr_state_changed''"
abbreviation (input) ReasonMRComment :: string where "ReasonMRComment \<equiv> ''mr_comment''"
abbreviation (input) ReasonMention :: string where "ReasonMention \<equiv> ''mention''"
abbreviation (input) ReasonIssueAssigned :: string where "ReasonIssueAssigned \<equiv> ''issue_assigned''"
abbreviation (input) ReasonIssueUpdated :: string where "ReasonIssueUpdated \<equiv> ''issue_updated''"

subsection \<open>Labels\<close>

definition notification_reason_title :: "canonical_event \<Rightarrow> string \<Rightarrow> string" where
  "notification_reason_title event reason_code =
     (if reason_code = ReasonCIFailed then ''Pipeline failed''
      else if reason_code = ReasonCIRecovered then ''Pipeline recovered''
      else if reason_code = ReasonMRReviewRequested then ''Review requested''
      else if reason_code = ReasonMRAssigned then ''Assignee assigned''
      else if reason_code = ReasonMRUpdated then ''Merge Request updated''
      else if reason_code = ReasonMRApproved then ''Approval changed''
      else if reason_code = ReasonMRStateChanged then
        (if ev_action event = ''merge'' then ''Merge Request merged''
         else if ev_action event = ''close'' then ''Merge Request closed''
         else if ev_action event = ''reopen'' then ''Merge Request reopened''
         else ''Merge Request state changed'')
      else if reason_code = ReasonMRComment then ''New Comment''
      else if reason_code = ReasonMention then ''Mentioned''
      else if reason_code = ReasonIssueAssigned then ''Issue assigned''
      else if reason_code = ReasonIssueUpdated then
        (if ev_note event \<noteq> None then ''New Comment'' else ''Issue updated'')
      else ''GitLab notification'')"

definition base_notification_title :: "canonical_event \<Rightarrow> notification_reason list \<Rightarrow> string" where
  "base_notification_title event reasons =
     (case reasons of
        [r] \<Rightarrow> notification_reason_title event (re_code r)
      | _ \<Rightarrow>
        if ev_kind event = EventKindPipeline then ''Pipeline update''
        else if ev_kind event = EventKindMergeRequest then ''Merge Request update''
        else if ev_kind event = EventKindIssue then ''Issue update''
        else ''GitLab notification'')"

definition notification_title :: "canonical_event \<Rightarrow> notification_reason list \<Rightarrow> string" where
  "notification_title event reasons =
     (let trimmed = trim_space (ev_source_label event);
          label = (if trimmed = [] then ev_source event else trimmed)
      in ''['' @ label @ ''] '' @ base_notification_title event reasons)"

definition merge_request_state_reason :: "string \<Rightarrow> string" where
  "merge_request_state_reason action =
     (if action = ''merge'' then ''The merge request was merged.''
      else if action = ''close'' then ''The merge request was closed.''
      else if action = ''reopen'' then ''The merge request was reopened.''
      else ''The merge request state changed.'')"

definition pipeline_status :: "canonical_event \<Rightarrow> string option" where
  "pipeline_status event = map_option pl_status (ev_pipeline event)"

definition event_action_label :: "canonical_event \<Rightarrow> string" where
  "event_action_label event =
     (if ev_kind event = EventKindPipeline \<and> pipeline_status event = Some ''failed'' then ''Failed''
      else if ev_kind event = EventKindPipeline \<and> pipeline_status event = Some ''success'' then ''Recovered''
      else if ev_action event = ''open'' then ''Opened''
      else if ev_action event = ''update'' then ''Updated''
      else if ev_action event = ''approved'' \<or> ev_action event = ''approval'' then ''Approved''
      else if ev_action event = ''unapproved'' \<or> ev_action event = ''unapproval'' then ''Approval removed''
      else if ev_action event = ''merge'' then ''Merged''
      else if ev_action event = ''close'' then ''Closed''
      else if ev_action event = ''reopen'' then ''Reopened''
      else if ev_action event = ''create'' then ''Created''
      else ev_action event)"

definition resource_label :: "canonical_event \<Rightarrow> string" where
  "resource_label event =
     (let obj = ev_object event in
      if r_iid obj \<noteq> [] then
        (if r_kind obj = EventKindMergeRequest then ''!'' @ r_iid obj
         else if r_kind obj = EventKindIssue then ''#'' @ r_iid obj
         else if r_kind obj = EventKindPipeline then ''Pipeline #'' @ r_iid obj
         else r_iid obj)
      else if r_title obj \<noteq> [] then r_title obj
      else r_id obj)"

definition middle_dot :: string where
  "middle_dot = [CHR 0xC2, CHR 0xB7]"

definition right_arrow :: string where
  "right_arrow = [CHR 0xE2, CHR 0x86, CHR 0x92]"

definition notification_summary :: "canonical_event \<Rightarrow> string" where
  "notification_summary event =
     (let project = (if p_path (ev_project event) = [] then p_id (ev_project event)
                     else p_path (ev_project event));
          obj = resource_label event;
          action = event_action_label event
      in join ([project] @ (if obj \<noteq> [] then [obj] else []) @ (if action \<noteq> [] then [action] else []))
           ('' '' @ middle_dot @ '' ''))"

subsection \<open>Changed fields\<close>

definition capitalize :: "string \<Rightarrow> string" where
  "capitalize word = to_upper (take 1 word) @ drop 1 word"

definition changed_field_label :: "string \<Rightarrow> string" where
  "changed_field_label field =
     (if field = ''reviewers'' then ''Reviewers''
      else if field = ''assignees'' then ''Assignees''
      else if field = ''title'' then ''Title''
      else if field = ''description'' then ''Description''
      else if field = ''state'' then ''State''
      else if field = ''labels'' then ''Labels''
      else if field = ''source_branch'' then ''Source branch''
      else if field = ''target_branch'' then ''Target branch''
      else if field = ''milestone'' \<or> field = ''milestone_id'' then ''Milestone''
      else
        let trimmed = trim_space field in
        if trimmed = [] then []
        else (case map to_lower (fields_func trimmed (\<lambda>c. c = CHR ''_'' \<or> c = CHR ''-'')) of
                [] \<Rightarrow> []
              | w # ws \<Rightarrow> join (capitalize w # ws) '' ''))"

fun distinct_labels :: "change list \<Rightarrow> (string, unit) gomap \<Rightarrow> string list" where
  "distinct_labels [] seen = []"
| "distinct_labels (c # cs) seen =
     (let label = changed_field_label (ch_field c) in
      if label = [] then distinct_labels cs seen
      else if map_of seen label \<noteq> None then distinct_labels cs seen
      else label # distinct_labels cs (AList.update label () seen))"

definition changed_field_labels :: "change list \<Rightarrow> string list" where
  "changed_field_labels changes = sort (distinct_labels changes [])"

definition join_limited_labels :: "string list \<Rightarrow> nat \<Rightarrow> string" where
  "join_limited_labels values limit =
     (if length values \<le> limit then join values '', ''
      else join (take limit values) '', '' @ '' +'' @ nat_string (length values - limit) @ '' more'')"

definition notification_source_text :: "canonical_event \<Rightarrow> string" where
  "notification_source_text event =
     (if ev_action event = ''update'' \<and> changed_field_labels (ev_changes event) \<noteq> []
         \<and> (ev_kind event = EventKindMergeRequest \<or> ev_kind event = EventKindIssue)
      then [] else ev_source_text event)"

subsection \<open>Facts\<close>

definition actor_fact_label :: "canonical_event \<Rightarrow> string" where
  "actor_fact_label event =
     (if ev_kind event = EventKindPipeline then ''Triggered by''
      else if ev_kind event = EventKindNote then ''Commented by''
      else ''Changed by'')"

definition identity_display :: "identity \<Rightarrow> string" where
  "identity_display i =
     (if i_name i \<noteq> [] then i_name i
      else if i_username i \<noteq> [] then ''@'' @ i_username i
      else [])"

text \<open>\<open>set_fact c k v facts\<close>: the assignment \<open>facts[k] = v\<close>, made if \<open>c\<close>.\<close>

definition set_fact :: "bool \<Rightarrow> string \<Rightarrow> string \<Rightarrow> (string, string) gomap \<Rightarrow> (string, string) gomap" where
  "set_fact c k v facts = (if c then AList.update k v facts else facts)"

definition pipeline_facts :: "pipeline_details \<Rightarrow> (string, string) gomap \<Rightarrow> (string, string) gomap" where
  "pipeline_facts pl facts =
     set_fact (identity_display (pl_commit_author pl) \<noteq> []) ''Commit author'' (identity_display (pl_commit_author pl))
       (set_fact (pl_source pl \<noteq> []) ''Source'' (capitalize (pl_source pl))
         (set_fact (pl_ref pl \<noteq> []) ''Branch'' (pl_ref pl) facts))"

definition notification_facts :: "canonical_event \<Rightarrow> (string, string) gomap" where
  "notification_facts event =
     (let project = p_path (ev_project event);
          title = r_title (ev_object event);
          actor = ev_actor event;
          action = event_action_label event;
          changed = changed_field_labels (ev_changes event);
          f1 = set_fact (project \<noteq> []) ''Project'' project [];
          f2 = set_fact (title \<noteq> []) ''Title'' title f1;
          f3 = set_fact (i_name actor \<noteq> [] \<or> i_username actor \<noteq> []) (actor_fact_label event)
                 (if i_name actor \<noteq> [] then i_name actor else ''@'' @ i_username actor) f2;
          f4 = set_fact (action \<noteq> []) ''Status'' action f3;
          f5 = set_fact (changed \<noteq> []) ''Changed'' (join_limited_labels changed 6) f4;
          f6 = (case ev_pipeline event of None \<Rightarrow> f5 | Some pl \<Rightarrow> pipeline_facts pl f5);
          f7 = (case ev_merge_request event of None \<Rightarrow> f6
                | Some mr \<Rightarrow> set_fact (mr_source_branch mr \<noteq> [] \<or> mr_target_branch mr \<noteq> []) ''Branch''
                    (mr_source_branch mr @ '' '' @ right_arrow @ '' '' @ mr_target_branch mr) f6)
      in case ev_issue event of None \<Rightarrow> f7
         | Some is \<Rightarrow> set_fact (is_state is \<noteq> []) ''State'' (is_state is) f7)"

subsection \<open>Jobs and links\<close>

definition failed_job_names :: "canonical_event \<Rightarrow> string list" where
  "failed_job_names event =
     (case ev_pipeline event of None \<Rightarrow> []
      | Some pl \<Rightarrow> map job_name (filter (\<lambda>j. job_name j \<noteq> []) (pl_failed_jobs pl)))"

definition failed_job_links :: "canonical_event \<Rightarrow> notification_link list" where
  "failed_job_links event =
     (case ev_pipeline event of None \<Rightarrow> []
      | Some pl \<Rightarrow> map (\<lambda>j. \<lparr>ln_label = job_name j, ln_url = job_url j\<rparr>)
          (filter (\<lambda>j. job_name j \<noteq> [] \<and> job_url j \<noteq> []) (pl_failed_jobs pl)))"

definition notification_url :: "canonical_event \<Rightarrow> string" where
  "notification_url event =
     (case (if ev_kind event = EventKindNote then ev_note event else None) of
        Some nt \<Rightarrow> (if nt_url nt \<noteq> [] then nt_url nt else r_url (ev_object event))
      | None \<Rightarrow> r_url (ev_object event))"

definition add_link :: "string \<Rightarrow> string \<Rightarrow> string \<Rightarrow> notification_link list \<Rightarrow> notification_link list" where
  "add_link primary_url label target links =
     (if label = [] \<or> target = [] \<or> target = primary_url then links
      else if target \<in> ln_url ` set links then links
      else links @ [\<lparr>ln_label = label, ln_url = target\<rparr>])"

definition related_links :: "canonical_event \<Rightarrow> string \<Rightarrow> notification_link list" where
  "related_links event primary_url =
     (let add = add_link primary_url;
          obj = ev_object event;
          l1 = (if ev_kind event = EventKindNote then
                  (if r_kind obj = EventKindMergeRequest then add ''Open Merge Request'' (r_url obj) []
                   else if r_kind obj = EventKindIssue then add ''Open Issue'' (r_url obj) []
                   else [])
                else [])
      in case (if ev_kind event = EventKindPipeline then ev_pipeline event else None) of
           None \<Rightarrow> l1
         | Some pl \<Rightarrow> add ''Open Commit'' (pl_commit_url pl)
             (case pl_merge_request pl of None \<Rightarrow> l1
              | Some mr \<Rightarrow> add ''Open Merge Request'' (r_url mr) l1))"

subsection \<open>Lemmas\<close>

lemma not_Some_unit: "m \<noteq> Some () \<longleftrightarrow> m = None"
  by (cases m) auto

lemma distinct_labels_spec:
  "distinct (distinct_labels cs seen)
   \<and> set (distinct_labels cs seen) = {l. l \<in> changed_field_label ` ch_field ` set cs \<and> l \<noteq> [] \<and> map_of seen l = None}"
  by (induction cs seen rule: distinct_labels.induct) (auto simp: Let_def update_conv' not_Some_unit)

lemma changed_field_labels_spec:
  "sorted (changed_field_labels cs)" "distinct (changed_field_labels cs)"
  "set (changed_field_labels cs) = changed_field_label ` ch_field ` set cs - {[]}"
  using distinct_labels_spec [of cs "[]"] by (auto simp: changed_field_labels_def)

lemma distinct_set_fact [simp]: "distinct (map fst (set_fact c k v m)) = distinct (map fst m)"
  by (simp add: set_fact_def)

lemma add_link_ok:
  "distinct (map ln_url links) \<Longrightarrow> \<forall>l \<in> set links. ln_url l \<noteq> [] \<and> ln_url l \<noteq> primary \<Longrightarrow>
   distinct (map ln_url (add_link primary label target links))
   \<and> (\<forall>l \<in> set (add_link primary label target links). ln_url l \<noteq> [] \<and> ln_url l \<noteq> primary)"
  by (auto simp: add_link_def)

end
