(* ===== verification/Routing.thy ===== *)
theory Routing
  imports RoutingText
begin

section \<open>Routing\<close>

text \<open>
  application/routing.go: from an event to its deliveries. A \<open>router\<close> record holds the
  interfaces the \<open>Router\<close> works with: identity store, preference store and pipeline states
  as functions that read the stores as they are, the clock as an instant. A nil identity
  store or pipeline store is \<open>None\<close>; the preference store is always there, as in main.go.
  The loops over Go maps take their order from \<open>ord\<close>: loop 0 runs over the candidates,
  loop 1 over the unresolved ones, loop 2 over the resolved ones, loop \<open>n + 3\<close> over the
  reasons of the n-th resolved identity.
\<close>

record candidate =
  cand_identity :: identity
  cand_reasons :: "(string, string) gomap"
  cand_allow_self :: bool

type_synonym candidates = "(string, candidate) gomap"

record resolved_candidate =
  res_identity :: identity
  res_address :: recipient_address
  res_reasons :: "(string, string) gomap"

record route_result =
  rr_deliveries :: "delivery list"
  rr_pipeline_state :: "pipeline_state option"
  rr_unresolved :: "identity list"

record router =
  rt_resolve :: "(identity list \<Rightarrow> identity list res) option"
  rt_enabled :: "recipient_address \<Rightarrow> event_kind \<Rightarrow> string \<Rightarrow> string \<Rightarrow> bool res"
  rt_pipeline_state :: "(string \<Rightarrow> pipeline_state option res) option"
  rt_domains :: "(string, unit) gomap"
  rt_policy :: "recipient_policy option"
  rt_now :: time

fun add_domains :: "string list \<Rightarrow> (string, unit) gomap \<Rightarrow> (string, unit) gomap" where
  "add_domains [] m = m"
| "add_domains (d # ds) m =
     (let name = to_lower (trim_space d) in
      add_domains ds (if name \<noteq> [] then AList.update name () m else m))"

subsection \<open>Identities\<close>

definition candidate_key :: "identity \<Rightarrow> string" where
  "candidate_key i =
     (if i_provider_id i \<noteq> [] then ''id:'' @ i_provider i @ '':'' @ i_provider_id i
      else if i_username i \<noteq> [] then ''username:'' @ i_provider i @ '':'' @ to_lower (i_username i)
      else ''email:'' @ to_lower (i_email i))"

definition email_address :: "identity \<Rightarrow> recipient_address option" where
  "email_address i =
     (let email = to_lower (trim_space (i_email i)) in
      if email = [] \<or> contains email ''noreply'' \<or> email = ''[redacted]'' \<or> \<not> addr_spec email
      then None
      else Some \<lparr>a_kind = AddressKindEmail, a_value = email, a_display_name = i_name i\<rparr>)"

definition has_identity :: "identity \<Rightarrow> bool" where
  "has_identity i \<longleftrightarrow> i_provider_id i \<noteq> [] \<or> i_username i \<noteq> [] \<or> i_email i \<noteq> [] \<or> i_name i \<noteq> []"

definition resolvable_identity :: "identity \<Rightarrow> bool" where
  "resolvable_identity i \<longleftrightarrow> i_provider_id i \<noteq> [] \<or> i_username i \<noteq> [] \<or> i_email i \<noteq> []"

definition same_identity :: "identity \<Rightarrow> identity \<Rightarrow> bool" where
  "same_identity l r =
     (if i_provider_id l \<noteq> [] \<and> i_provider_id r \<noteq> [] \<and> i_provider l = i_provider r
      then i_provider_id l = i_provider_id r
      else if i_email l \<noteq> [] \<and> i_email r \<noteq> [] then equal_fold (i_email l) (i_email r)
      else i_username l \<noteq> [] \<and> i_username r \<noteq> [] \<and> i_provider l = i_provider r
        \<and> equal_fold (i_username l) (i_username r))"

subsection \<open>Candidates\<close>

definition put_candidate :: "identity \<Rightarrow> string \<Rightarrow> string \<Rightarrow> bool \<Rightarrow> candidates \<Rightarrow> candidates" where
  "put_candidate i reason_code reason_text self items =
     (let key = candidate_key i;
          item = (case map_of items key of
              None \<Rightarrow> \<lparr>cand_identity = i, cand_reasons = [], cand_allow_self = False\<rparr>
            | Some item \<Rightarrow> item)
      in AList.update key
           \<lparr>cand_identity = cand_identity item,
            cand_reasons = AList.update reason_code reason_text (cand_reasons item),
            cand_allow_self = (cand_allow_self item \<or> self)\<rparr> items)"

definition add_candidate :: "identity \<Rightarrow> string \<Rightarrow> string \<Rightarrow> bool \<Rightarrow> candidates \<Rightarrow> candidates" where
  "add_candidate i reason_code reason_text self items =
     (if \<not> has_identity i then items else put_candidate i reason_code reason_text self items)"

definition add_address :: "recipient_address \<Rightarrow> string \<Rightarrow> string \<Rightarrow> bool \<Rightarrow> candidates \<Rightarrow> candidates" where
  "add_address a reason_code reason_text self items =
     (if a_kind a = [] \<or> a_value a = [] then items
      else put_candidate (no_identity\<lparr>i_email := to_lower (trim_space (a_value a))\<rparr>)
             reason_code reason_text self items)"

definition add_all :: "identity list \<Rightarrow> string \<Rightarrow> string \<Rightarrow> candidates \<Rightarrow> candidates" where
  "add_all is reason_code reason_text items =
     fold (\<lambda>i. add_candidate i reason_code reason_text False) is items"

subsection \<open>Who is notified of what\<close>

definition pipeline_correlation_key :: "canonical_event \<Rightarrow> string" where
  "pipeline_correlation_key event =
     (let project = (if p_id (ev_project event) = [] then p_path (ev_project event)
                     else p_id (ev_project event));
          mr_iid = (case ev_pipeline event of None \<Rightarrow> []
                    | Some pl \<Rightarrow> (case pl_merge_request pl of None \<Rightarrow> [] | Some mr \<Rightarrow> r_iid mr));
          ref = (case ev_pipeline event of None \<Rightarrow> [] | Some pl \<Rightarrow> pl_ref pl)
      in if mr_iid \<noteq> [] then ''gitlab:'' @ project @ '':mr:'' @ mr_iid
         else ''gitlab:'' @ project @ '':ref:'' @ ref)"

definition route_pipeline :: "router \<Rightarrow> canonical_event \<Rightarrow> candidates res" where
  "route_pipeline r event =
     (case ev_pipeline event of
        None \<Rightarrow> Inr []
      | Some pl \<Rightarrow>
        if pl_status pl = ''failed'' then
          Inr (add_candidate
            (if resolvable_identity (pl_commit_author pl) then pl_commit_author pl else ev_actor event)
            ReasonCIFailed ''The pipeline for your commit failed.'' True [])
        else if pl_status pl = ''success'' then
          (case rt_pipeline_state r of
             None \<Rightarrow> Inr []
           | Some get \<Rightarrow>
             (case get (pipeline_correlation_key event) of
                Inl e \<Rightarrow> Inl e
              | Inr None \<Rightarrow> Inr []
              | Inr (Some st) \<Rightarrow>
                if ps_status st \<noteq> ''failed'' then Inr []
                else Inr (fold (\<lambda>a. add_address a ReasonCIRecovered
                       ''The pipeline that failed has recovered.'' True) (ps_recipients st) [])))
        else Inr [])"

definition merge_request_change :: "merge_request_details \<Rightarrow> change \<Rightarrow> candidates \<Rightarrow> candidates" where
  "merge_request_change mr ch items =
     (let field = ch_field ch in
      if field = ''reviewers'' then
        add_all (ch_added ch) ReasonMRReviewRequested ''You were assigned as a reviewer.'' items
      else if field = ''assignees'' then
        add_all (ch_added ch) ReasonMRAssigned ''You were assigned to a merge request.'' items
      else if field \<in> {''title'', ''description'', ''source_branch'', ''target_branch'', ''draft''} then
        (let items1 = (if has_identity (mr_author mr)
               then add_candidate (mr_author mr) ReasonMRUpdated ''The merge request was updated.'' False items
               else items)
         in if field = ''draft'' \<or> field = ''target_branch''
            then add_all (mr_reviewers mr) ReasonMRStateChanged
                   ''A merge request under review changed state.'' items1
            else items1)
      else items)"

definition route_merge_request :: "canonical_event \<Rightarrow> candidates" where
  "route_merge_request event =
     (case ev_merge_request event of
        None \<Rightarrow> []
      | Some mr \<Rightarrow>
        let action = ev_action event;
            notify_author = (\<lambda>reason_code reason_text. if has_identity (mr_author mr)
              then add_candidate (mr_author mr) reason_code reason_text False [] else []);
            items =
              (if action = ''open'' then
                 add_all (mr_assignees mr) ReasonMRAssigned ''You were assigned to a merge request.''
                   (add_all (mr_reviewers mr) ReasonMRReviewRequested ''You were assigned as a reviewer.'' [])
               else if action = ''update'' then fold (merge_request_change mr) (ev_changes event) []
               else if action \<in> {''approved'', ''approval'', ''unapproved'', ''unapproval''} then
                 notify_author ReasonMRApproved ''The merge request approval status changed.''
               else if action \<in> {''merge'', ''close'', ''reopen''} then
                 notify_author ReasonMRStateChanged (merge_request_state_reason action)
               else [])
        in add_all (ev_mentions event) ReasonMention ''You were mentioned in a merge request.'' items)"

definition route_note :: "canonical_event \<Rightarrow> candidates" where
  "route_note event =
     (case ev_note event of
        None \<Rightarrow> []
      | Some nt \<Rightarrow>
        if nt_system nt then []
        else
          let items1 = (case nt_merge_request nt of
                None \<Rightarrow> []
              | Some mr \<Rightarrow>
                if has_identity (mr_author mr) \<and> \<not> same_identity (ev_actor event) (mr_author mr)
                then add_candidate (mr_author mr) ReasonMRComment
                       ''A new comment was added to a merge request.'' False [] else []);
              items2 = (case nt_issue nt of
                None \<Rightarrow> items1
              | Some is \<Rightarrow>
                if has_identity (is_author is) \<and> \<not> same_identity (ev_actor event) (is_author is)
                then add_candidate (is_author is) ReasonIssueUpdated
                       ''A new comment was added to an issue.'' False items1 else items1)
          in add_all (ev_mentions event) ReasonMention ''You were mentioned in a comment.'' items2)"

definition issue_change :: "issue_details \<Rightarrow> change \<Rightarrow> candidates \<Rightarrow> candidates" where
  "issue_change is ch items =
     (if ch_field ch = ''assignees'' then
        add_all (ch_added ch) ReasonIssueAssigned ''You were assigned to an issue.'' items
      else if ch_field ch = ''title'' \<or> ch_field ch = ''description'' \<or> ch_field ch = ''state'' then
        (if has_identity (is_author is)
         then add_candidate (is_author is) ReasonIssueUpdated ''The issue was updated.'' False items
         else items)
      else items)"

definition route_issue :: "canonical_event \<Rightarrow> candidates" where
  "route_issue event =
     (case ev_issue event of
        None \<Rightarrow> []
      | Some is \<Rightarrow>
        let items =
          (if ev_action event = ''open'' then
             add_all (is_assignees is) ReasonIssueAssigned ''You were assigned to an issue.'' []
           else if ev_action event = ''update'' then fold (issue_change is) (ev_changes event) []
           else [])
        in add_all (ev_mentions event) ReasonMention ''You were mentioned in an issue.'' items)"

subsection \<open>Resolving the candidates\<close>

definition allowed :: "router \<Rightarrow> string \<Rightarrow> bool" where
  "allowed r address =
     (if rt_domains r = [] then True
      else case split2 address CHR ''@'' of
        None \<Rightarrow> False
      | Some (l, d) \<Rightarrow> map_of (rt_domains r) (to_lower d) \<noteq> None)"

fun filter_reasons :: "(string \<Rightarrow> bool res) \<Rightarrow> (string \<times> string) list \<Rightarrow> (string, string) gomap res" where
  "filter_reasons p [] = Inr []"
| "filter_reasons p ((c, t) # rs) =
     (case p c of
        Inl e \<Rightarrow> Inl e
      | Inr b \<Rightarrow>
        (case filter_reasons p rs of
           Inl e \<Rightarrow> Inl e
         | Inr m \<Rightarrow> Inr (if b then (c, t) # m else m)))"

text \<open>
  The candidate a resolved identity belongs to: the one of its key, or the first one, in the
  order of the keys, that is the same identity.
\<close>

definition find_candidate :: "candidates \<Rightarrow> string list \<Rightarrow> identity \<Rightarrow> candidate option" where
  "find_candidate items ks i =
     (case map_of items (candidate_key i) of
        Some item \<Rightarrow> Some item
      | None \<Rightarrow>
        (case find (\<lambda>k. case map_of items k of None \<Rightarrow> False
                        | Some item \<Rightarrow> same_identity (cand_identity item) i) ks of
           None \<Rightarrow> None
         | Some k \<Rightarrow> map_of items k))"

definition merge_reasons :: "(string, string) gomap \<Rightarrow> (string, string) gomap \<Rightarrow> (string, string) gomap" where
  "merge_reasons new old = fold (\<lambda>(c, t). AList.update c t) new old"

definition merge_resolved ::
  "identity \<Rightarrow> recipient_address \<Rightarrow> (string, string) gomap \<Rightarrow> (string, resolved_candidate) gomap
     \<Rightarrow> (string, resolved_candidate) gomap" where
  "merge_resolved i a reasons resolved =
     AList.update (a_value a)
       (case map_of resolved (a_value a) of
          Some existing \<Rightarrow> existing\<lparr>res_reasons := merge_reasons reasons (res_reasons existing)\<rparr>
        | None \<Rightarrow> \<lparr>res_identity = i, res_address = a, res_reasons = reasons\<rparr>) resolved"

fun resolve_loop ::
  "router \<Rightarrow> ord \<Rightarrow> canonical_event \<Rightarrow> candidates \<Rightarrow> string list \<Rightarrow> nat \<Rightarrow> identity list
     \<Rightarrow> (string, resolved_candidate) gomap \<Rightarrow> string list
     \<Rightarrow> ((string, resolved_candidate) gomap \<times> string list) res" where
  "resolve_loop r ord event items ks n [] resolved done = Inr (resolved, done)"
| "resolve_loop r ord event items ks n (i # is) resolved done =
     (let continue = resolve_loop r ord event items ks (Suc n) is in
      case email_address i of
        None \<Rightarrow> continue resolved done
      | Some address \<Rightarrow>
        if \<not> allowed r (a_value address) then continue resolved done
        else case find_candidate items ks i of
          None \<Rightarrow> continue resolved done
        | Some item \<Rightarrow>
          let done' = candidate_key i # done in
          if \<not> cand_allow_self item \<and> same_identity (ev_actor event) i then continue resolved done'
          else case filter_reasons
                 (\<lambda>c. rt_enabled r address (ev_kind event) c (p_path (ev_project event)))
                 (visit ord (n + 3) (cand_reasons item)) of
            Inl e \<Rightarrow> Inl e
          | Inr reasons \<Rightarrow> continue (merge_resolved i address reasons resolved) done')"

definition resolve_candidates ::
  "router \<Rightarrow> ord \<Rightarrow> candidates \<Rightarrow> canonical_event \<Rightarrow> (resolved_candidate list \<times> identity list) res" where
  "resolve_candidates r ord items event =
     (let entries = visit ord 0 items;
          ks = map fst entries;
          identities = map (\<lambda>(k, item). cand_identity item) entries
      in case (case rt_resolve r of None \<Rightarrow> Inr identities | Some rs \<Rightarrow> rs identities) of
           Inl e \<Rightarrow> Inl e
         | Inr is \<Rightarrow>
           (case resolve_loop r ord event items ks 0 is [] [] of
              Inl e \<Rightarrow> Inl e
            | Inr (resolved, done) \<Rightarrow>
              let unresolved = map (\<lambda>(k, item). cand_identity item)
                    (filter (\<lambda>(k, item). k \<notin> set done \<and> email_address (cand_identity item) = None)
                      (visit ord 1 items))
              in Inr (map snd (visit ord 2 resolved), unresolved)))"

subsection \<open>Route\<close>

text \<open>\<open>base\<close> in \<open>deliveryKey\<close>.\<close>

definition delivery_base :: "canonical_event \<Rightarrow> string \<Rightarrow> string" where
  "delivery_base event reason_group =
     (let base = (case (if ev_kind event = EventKindNote then ev_note event else None) of
            None \<Rightarrow> ev_event_key event
          | Some nt \<Rightarrow> (if nt_id nt \<noteq> []
              then ''gitlab:note:'' @ p_id (ev_project event) @ '':'' @ nt_id nt
              else ev_event_key event))
      in if contains reason_group ReasonMention \<and> r_iid (ev_object event) \<noteq> [] then
           (if ev_kind event = EventKindMergeRequest
            then ''gitlab:merge_request:'' @ p_id (ev_project event) @ '':'' @ r_iid (ev_object event) @ '':mention''
            else if ev_kind event = EventKindIssue
            then ''gitlab:issue:'' @ p_id (ev_project event) @ '':'' @ r_iid (ev_object event) @ '':mention''
            else base)
         else base)"

definition delivery_key :: "canonical_event \<Rightarrow> recipient_address \<Rightarrow> string \<Rightarrow> string" where
  "delivery_key event a reason_group =
     delivery_base event reason_group @ '':'' @ to_lower (a_value a) @ '':'' @ reason_group"

definition delivery_of :: "ord \<Rightarrow> nat \<Rightarrow> canonical_event \<Rightarrow> resolved_candidate \<Rightarrow> delivery" where
  "delivery_of ord n event item =
     (let entries = visit ord n (res_reasons item);
          reasons = sort_key re_code (map (\<lambda>(c, t). \<lparr>re_code = c, re_text = t\<rparr>) entries);
          reason_group = join (sort (map fst entries)) ''+''
      in \<lparr>d_key = delivery_key event (res_address item) reason_group,
          d_notification =
            \<lparr>n_event_key = ev_event_key event, n_kind = ev_kind event, n_action = ev_action event,
             n_project = ev_project event, n_object = ev_object event,
             n_recipient = res_address item, n_reasons = reasons,
             n_title = notification_title event reasons, n_summary = notification_summary event,
             n_source_text = notification_source_text event, n_url = notification_url event,
             n_facts = notification_facts event, n_failed_jobs = failed_job_names event,
             n_failed_job_links = failed_job_links event,
             n_related_links = related_links event (notification_url event),
             n_actions = notification_actions\<rparr>\<rparr>)"

fun pipeline_recipients :: "string \<Rightarrow> delivery list \<Rightarrow> (string, unit) gomap \<Rightarrow> recipient_address list" where
  "pipeline_recipients status [] seen = []"
| "pipeline_recipients status (d # ds) seen =
     (let address = n_recipient (d_notification d) in
      if \<not> contains (d_key d) ReasonCIFailed \<and> status = ''failed'' then pipeline_recipients status ds seen
      else if map_of seen (a_value address) \<noteq> None then pipeline_recipients status ds seen
      else address # pipeline_recipients status ds (AList.update (a_value address) () seen))"

definition pipeline_state_for :: "canonical_event \<Rightarrow> delivery list \<Rightarrow> time \<Rightarrow> pipeline_state option" where
  "pipeline_state_for event ds now =
     (case ev_pipeline event of
        None \<Rightarrow> None
      | Some pl \<Rightarrow>
        if pl_status pl \<noteq> ''failed'' \<and> pl_status pl \<noteq> ''success'' then None
        else Some \<lparr>ps_correlation_key = pipeline_correlation_key event, ps_status = pl_status pl,
                   ps_recipients = pipeline_recipients (pl_status pl) ds [], ps_updated_at = now\<rparr>)"

definition candidates_for :: "router \<Rightarrow> canonical_event \<Rightarrow> candidates res" where
  "candidates_for r event =
     (if ev_kind event = EventKindPipeline then route_pipeline r event
      else if ev_kind event = EventKindMergeRequest then Inr (route_merge_request event)
      else if ev_kind event = EventKindNote then Inr (route_note event)
      else if ev_kind event = EventKindIssue then Inr (route_issue event)
      else Inl Ignored)"

definition route :: "router \<Rightarrow> ord \<Rightarrow> canonical_event \<Rightarrow> route_result res" where
  "route r ord event =
     (if ev_event_key event = [] then Inl (Msg ''event key is required'')
      else case candidates_for r event of
        Inl e \<Rightarrow> Inl e
      | Inr items \<Rightarrow>
        case resolve_candidates r ord items event of
          Inl e \<Rightarrow> Inl e
        | Inr (resolved, unresolved) \<Rightarrow>
          let kept = filter (\<lambda>item. \<not> (res_reasons item = [] \<or> a_value (res_address item) = [])
                \<and> allows (rt_policy r) (res_address item)) resolved;
              ds = map (delivery_of ord 3 event) kept
          in Inr \<lparr>rr_deliveries = ds,
                  rr_pipeline_state =
                    (if ev_kind event = EventKindPipeline \<and> ev_pipeline event \<noteq> None
                        \<and> rt_pipeline_state r \<noteq> None
                     then pipeline_state_for event ds (rt_now r) else None),
                  rr_unresolved = unresolved\<rparr>)"

subsection \<open>The candidates\<close>

definition reason_codes :: "string list" where
  "reason_codes = [ReasonCIFailed, ReasonCIRecovered, ReasonMRReviewRequested, ReasonMRAssigned,
     ReasonMRUpdated, ReasonMRApproved, ReasonMRStateChanged, ReasonMRComment, ReasonMention,
     ReasonIssueAssigned, ReasonIssueUpdated]"

definition candidate_ok :: "bool \<Rightarrow> string \<times> candidate \<Rightarrow> bool" where
  "candidate_ok self entry \<longleftrightarrow>
     fst entry = candidate_key (cand_identity (snd entry))
     \<and> distinct (map fst (cand_reasons (snd entry))) \<and> cand_reasons (snd entry) \<noteq> []
     \<and> fst ` set (cand_reasons (snd entry)) \<subseteq> set reason_codes
     \<and> (cand_allow_self (snd entry) \<longrightarrow> self)"

definition candidates_ok :: "bool \<Rightarrow> candidates \<Rightarrow> bool" where
  "candidates_ok self items \<longleftrightarrow> distinct (map fst items) \<and> (\<forall>e \<in> set items. candidate_ok self e)"

lemma candidates_ok_Nil [simp]: "candidates_ok self []"
  by (simp add: candidates_ok_def)

lemma candidates_okD:
  "candidates_ok self items \<Longrightarrow> map_of items k = Some item \<Longrightarrow> candidate_ok self (k, item)"
  by (auto simp: candidates_ok_def dest: map_of_SomeD)

lemma fst_set_update [simp]: "fst ` set (AList.update k v m) = insert k (fst ` set m)"
  by (induction m) (auto split: if_splits)

lemma update_not_Nil [simp]: "AList.update k v m \<noteq> []"
  by (cases m) (auto split: if_splits)

lemma put_candidate_ok:
  assumes "candidates_ok self items" "c \<in> set reason_codes" "s \<longrightarrow> self"
  shows "candidates_ok self (put_candidate i c t s items)"
proof -
  define item where "item = (case map_of items (candidate_key i) of
    None \<Rightarrow> \<lparr>cand_identity = i, cand_reasons = [], cand_allow_self = False\<rparr> | Some item \<Rightarrow> item)"
  have item: "candidate_key (cand_identity item) = candidate_key i" "distinct (map fst (cand_reasons item))"
    "fst ` set (cand_reasons item) \<subseteq> set reason_codes" "cand_allow_self item \<longrightarrow> self"
    using candidates_okD [OF assms(1), of "candidate_key i"]
    by (auto simp: item_def candidate_ok_def split: option.splits)
  have "put_candidate i c t s items = AList.update (candidate_key i)
      \<lparr>cand_identity = cand_identity item, cand_reasons = AList.update c t (cand_reasons item),
       cand_allow_self = (cand_allow_self item \<or> s)\<rparr> items"
    by (simp add: put_candidate_def Let_def item_def)
  then show ?thesis
    using assms item unfolding candidates_ok_def
    by (auto simp: set_update_distinct candidate_ok_def)
qed

lemma add_candidate_ok:
  "candidates_ok self items \<Longrightarrow> c \<in> set reason_codes \<Longrightarrow> s \<longrightarrow> self \<Longrightarrow>
   candidates_ok self (add_candidate i c t s items)"
  by (simp add: add_candidate_def put_candidate_ok)

lemma add_address_ok:
  "candidates_ok self items \<Longrightarrow> c \<in> set reason_codes \<Longrightarrow> s \<longrightarrow> self \<Longrightarrow>
   candidates_ok self (add_address a c t s items)"
  by (simp add: add_address_def put_candidate_ok)

lemma fold_ok: "candidates_ok self items \<Longrightarrow>
  (\<And>x items. x \<in> set xs \<Longrightarrow> candidates_ok self items \<Longrightarrow> candidates_ok self (g x items)) \<Longrightarrow>
  candidates_ok self (fold g xs items)"
  by (induction xs arbitrary: items) auto

lemma add_all_ok:
  "candidates_ok self items \<Longrightarrow> c \<in> set reason_codes \<Longrightarrow> candidates_ok self (add_all is c t items)"
  unfolding add_all_def by (rule fold_ok) (auto intro: add_candidate_ok)

lemma reason_codes_known [simp]:
  "ReasonCIFailed \<in> set reason_codes" "ReasonCIRecovered \<in> set reason_codes"
  "ReasonMRReviewRequested \<in> set reason_codes" "ReasonMRAssigned \<in> set reason_codes"
  "ReasonMRUpdated \<in> set reason_codes" "ReasonMRApproved \<in> set reason_codes"
  "ReasonMRStateChanged \<in> set reason_codes" "ReasonMRComment \<in> set reason_codes"
  "ReasonMention \<in> set reason_codes" "ReasonIssueAssigned \<in> set reason_codes"
  "ReasonIssueUpdated \<in> set reason_codes"
  by (simp_all add: reason_codes_def)

lemmas candidates_intros = candidates_ok_Nil add_candidate_ok add_address_ok add_all_ok
  reason_codes_known

lemma merge_request_change_ok:
  "candidates_ok self items \<Longrightarrow> candidates_ok self (merge_request_change mr ch items)"
  by (simp add: merge_request_change_def Let_def candidates_intros)

lemma route_merge_request_ok: "candidates_ok self (route_merge_request event)"
  unfolding route_merge_request_def Let_def
  by (auto split: option.split intro!: candidates_intros fold_ok merge_request_change_ok)

lemma route_note_ok: "candidates_ok self (route_note event)"
  unfolding route_note_def Let_def
  by (auto split: option.split intro!: candidates_intros)

lemma issue_change_ok: "candidates_ok self items \<Longrightarrow> candidates_ok self (issue_change is ch items)"
  by (simp add: issue_change_def candidates_intros)

lemma route_issue_ok: "candidates_ok self (route_issue event)"
  unfolding route_issue_def Let_def
  by (auto split: option.split intro!: candidates_intros fold_ok issue_change_ok)

lemma route_pipeline_ok: "route_pipeline r event = Inr items \<Longrightarrow> candidates_ok True items"
  unfolding route_pipeline_def
  by (auto split: option.splits if_splits sum.splits intro!: candidates_intros fold_ok)

lemma candidates_for_ok:
  assumes "candidates_for r event = Inr items"
  shows "candidates_ok (ev_kind event = EventKindPipeline) items"
proof (cases "ev_kind event = EventKindPipeline")
  case True
  with assms route_pipeline_ok show ?thesis by (simp add: candidates_for_def)
next
  case False
  with assms route_merge_request_ok route_note_ok route_issue_ok show ?thesis
    unfolding candidates_for_def if_not_P [OF False] by (metis Inl_Inr_False sum.inject(2))
qed

subsection \<open>The resolved candidates\<close>

lemma filter_reasons_eq: "filter_reasons p rs = Inr m \<Longrightarrow> m = filter (\<lambda>x. p (fst x) = Inr True) rs"
proof (induction rs arbitrary: m)
  case (Cons x rs)
  obtain c t where x: "x = (c, t)" by fastforce
  with Cons.prems obtain b m1 where b: "p c = Inr b" "filter_reasons p rs = Inr m1"
    "m = (if b then (c, t) # m1 else m1)" by (auto split: sum.splits)
  with Cons.IH [OF b(2)] x show ?case by (cases b) simp_all
qed simp

lemma set_update_subset: "set (AList.update k v m) \<subseteq> insert (k, v) (set m)"
  by (induction m) auto

lemma distinct_merge_reasons: "distinct (map fst old) \<Longrightarrow> distinct (map fst (merge_reasons new old))"
  unfolding merge_reasons_def by (induction new arbitrary: old) auto

lemma set_merge_reasons: "set (merge_reasons new old) \<subseteq> set new \<union> set old"
  unfolding merge_reasons_def
proof (induction new arbitrary: old)
  case (Cons x new)
  obtain c t where x: "x = (c, t)" by fastforce
  show ?case using Cons [of "AList.update c t old"] set_update_subset [of c t old] by (auto simp: x)
qed simp

text \<open>
  Why a reason reaches an address: a resolved identity with that address belongs to a
  candidate with the reason, is not the actor unless the candidate allows it, its domain is
  allowed, and the preference store enables the reason for the address.
\<close>

definition entitled ::
  "router \<Rightarrow> canonical_event \<Rightarrow> candidates \<Rightarrow> string list \<Rightarrow> identity list \<Rightarrow> string \<Rightarrow> string \<times> string \<Rightarrow> bool" where
  "entitled r event items ks is v reason \<longleftrightarrow>
     (\<exists>i \<in> set is. \<exists>a item. email_address i = Some a \<and> a_value a = v \<and> allowed r v
        \<and> find_candidate items ks i = Some item \<and> reason \<in> set (cand_reasons item)
        \<and> (cand_allow_self item \<or> \<not> same_identity (ev_actor event) i)
        \<and> rt_enabled r a (ev_kind event) (fst reason) (p_path (ev_project event)) = Inr True)"

definition resolved_ok ::
  "router \<Rightarrow> canonical_event \<Rightarrow> candidates \<Rightarrow> string list \<Rightarrow> identity list
     \<Rightarrow> (string, resolved_candidate) gomap \<Rightarrow> bool" where
  "resolved_ok r event items ks is m \<longleftrightarrow>
     distinct (map fst m)
     \<and> (\<forall>(v, rc) \<in> set m. a_value (res_address rc) = v
        \<and> (\<exists>i \<in> set is. email_address i = Some (res_address rc)) \<and> allowed r v
        \<and> distinct (map fst (res_reasons rc))
        \<and> (\<forall>reason \<in> set (res_reasons rc). entitled r event items ks is v reason))"

lemma resolved_ok_Nil [simp]: "resolved_ok r event items ks is []"
  by (simp add: resolved_ok_def)

lemma merge_resolved_ok:
  assumes m: "resolved_ok r event items ks is m" and i: "i \<in> set is" "email_address i = Some a"
    "allowed r (a_value a)"
    and reasons: "distinct (map fst reasons)" "\<forall>reason \<in> set reasons. entitled r event items ks is (a_value a) reason"
  shows "resolved_ok r event items ks is (merge_resolved i a reasons m)"
proof -
  define rc where "rc = (case map_of m (a_value a) of
      Some existing \<Rightarrow> existing\<lparr>res_reasons := merge_reasons reasons (res_reasons existing)\<rparr>
    | None \<Rightarrow> \<lparr>res_identity = i, res_address = a, res_reasons = reasons\<rparr>)"
  have rc: "a_value (res_address rc) = a_value a \<and> (\<exists>i \<in> set is. email_address i = Some (res_address rc))
      \<and> distinct (map fst (res_reasons rc))
      \<and> (\<forall>reason \<in> set (res_reasons rc). entitled r event items ks is (a_value a) reason)"
  proof (cases "map_of m (a_value a)")
    case None
    then show ?thesis using i reasons by (auto simp: rc_def)
  next
    case (Some old)
    then have "(a_value a, old) \<in> set m" by (rule map_of_SomeD)
    with m have old: "a_value (res_address old) = a_value a" "\<exists>i \<in> set is. email_address i = Some (res_address old)"
      "distinct (map fst (res_reasons old))"
      "\<forall>reason \<in> set (res_reasons old). entitled r event items ks is (a_value a) reason"
      by (auto simp: resolved_ok_def)
    then show ?thesis
      using Some reasons(2) set_merge_reasons [of reasons "res_reasons old"]
      by (auto simp: rc_def distinct_merge_reasons)
  qed
  have "merge_resolved i a reasons m = AList.update (a_value a) rc m"
    by (simp add: merge_resolved_def rc_def)
  then show ?thesis
    using m rc i(3) unfolding resolved_ok_def by (auto simp: set_update_distinct)
qed

lemma visit_reasons:
  assumes "map_order ord" "distinct (map fst m)"
  shows "distinct (map fst (filter P (visit ord n m)))" "set (filter P (visit ord n m)) = {x \<in> set m. P x}"
proof -
  show "distinct (map fst (filter P (visit ord n m)))"
    by (rule distinct_map_filter) (rule distinct_visit [OF assms])
  show "set (filter P (visit ord n m)) = {x \<in> set m. P x}"
    using set_visit [OF assms] by auto
qed

lemma find_candidate_ok:
  "candidates_ok self items \<Longrightarrow> find_candidate items ks i = Some item \<Longrightarrow> \<exists>k. candidate_ok self (k, item)"
  using candidates_okD by (fastforce simp: find_candidate_def split: option.splits)

text \<open>One round of the loop.\<close>

lemma resolve_loop_Cons:
  assumes "resolve_loop r ord event items ks n (i # is) m done = Inr res"
  obtains m1 done1 where "resolve_loop r ord event items ks (Suc n) is m1 done1 = Inr res"
    "m1 = m \<or> (\<exists>a item. email_address i = Some a \<and> allowed r (a_value a)
      \<and> find_candidate items ks i = Some item \<and> (cand_allow_self item \<or> \<not> same_identity (ev_actor event) i)
      \<and> m1 = merge_resolved i a (filter (\<lambda>x. rt_enabled r a (ev_kind event) (fst x)
          (p_path (ev_project event)) = Inr True) (visit ord (n + 3) (cand_reasons item))) m)"
proof (cases "email_address i")
  case None
  with assms that show ?thesis by simp
next
  case a: (Some a)
  show ?thesis
  proof (cases "allowed r (a_value a)")
    case False
    with assms that a show ?thesis by simp
  next
    case al: True
    show ?thesis
    proof (cases "find_candidate items ks i")
      case None
      with assms that a al show ?thesis by simp
    next
      case item: (Some item)
      show ?thesis
      proof (cases "\<not> cand_allow_self item \<and> same_identity (ev_actor event) i")
        case True
        with assms a al item have "resolve_loop r ord event items ks (Suc n) is m (candidate_key i # done) = Inr res"
          by (simp add: Let_def)
        with that show ?thesis by blast
      next
        case self: False
        with assms a al item obtain reasons where reasons: "filter_reasons
            (\<lambda>c. rt_enabled r a (ev_kind event) c (p_path (ev_project event)))
            (visit ord (n + 3) (cand_reasons item)) = Inr reasons"
          "resolve_loop r ord event items ks (Suc n) is (merge_resolved i a reasons m) (candidate_key i # done) = Inr res"
          by (auto simp: Let_def split: sum.splits if_splits)
        from filter_reasons_eq [OF reasons(1)] a al item self show ?thesis
          by (intro that [OF reasons(2)] disjI2 exI [of _ a] exI [of _ item]) simp
      qed
    qed
  qed
qed

lemma resolve_loop_ok:
  assumes "map_order ord" "candidates_ok self items"
  shows "resolve_loop r ord event items ks n is m done = Inr (m', done') \<Longrightarrow>
    resolved_ok r event items ks all m \<Longrightarrow> set is \<subseteq> set all \<Longrightarrow> resolved_ok r event items ks all m'"
proof (induction "is" arbitrary: n m "done")
  case (Cons i "is")
  from Cons.prems(1) show ?case
  proof (rule resolve_loop_Cons)
    fix m1 done1
    assume rest: "resolve_loop r ord event items ks (Suc n) is m1 done1 = Inr (m', done')"
      and step: "m1 = m \<or> (\<exists>a item. email_address i = Some a \<and> allowed r (a_value a)
        \<and> find_candidate items ks i = Some item \<and> (cand_allow_self item \<or> \<not> same_identity (ev_actor event) i)
        \<and> m1 = merge_resolved i a (filter (\<lambda>x. rt_enabled r a (ev_kind event) (fst x)
          (p_path (ev_project event)) = Inr True) (visit ord (n + 3) (cand_reasons item))) m)"
    have "resolved_ok r event items ks all m1"
    proof (cases "m1 = m")
      case False
      with step obtain a item where a: "email_address i = Some a" "allowed r (a_value a)" "find_candidate items ks i = Some item"
        "cand_allow_self item \<or> \<not> same_identity (ev_actor event) i"
        and m1: "m1 = merge_resolved i a (filter (\<lambda>x. rt_enabled r a (ev_kind event) (fst x)
          (p_path (ev_project event)) = Inr True) (visit ord (n + 3) (cand_reasons item))) m"
        by blast
      have d: "distinct (map fst (cand_reasons item))"
        using find_candidate_ok [OF assms(2) a(3)] by (auto simp: candidate_ok_def)
      have i: "i \<in> set all" using Cons.prems(3) by simp
      show ?thesis
        unfolding m1 using Cons.prems(2) i a(1,2) visit_reasons(1) [OF assms(1) d]
      proof (rule merge_resolved_ok)
        show "\<forall>reason \<in> set (filter (\<lambda>x. rt_enabled r a (ev_kind event) (fst x)
            (p_path (ev_project event)) = Inr True) (visit ord (n + 3) (cand_reasons item))).
            entitled r event items ks all (a_value a) reason"
          unfolding visit_reasons(2) [OF assms(1) d] entitled_def using i a by blast
      qed
    qed (use Cons.prems(2) in simp)
    with Cons.IH rest Cons.prems(3) show ?case by simp
  qed
qed simp

text \<open>Nothing a resolved identity is entitled to gets lost.\<close>

definition covers_reason :: "(string, resolved_candidate) gomap \<Rightarrow> string \<Rightarrow> string \<Rightarrow> bool" where
  "covers_reason m v c \<longleftrightarrow> (\<exists>rc. map_of m v = Some rc \<and> c \<in> fst ` set (res_reasons rc))"

lemma fst_merge_reasons: "fst ` set (merge_reasons new old) = fst ` set new \<union> fst ` set old"
  unfolding merge_reasons_def
proof (induction new arbitrary: old)
  case (Cons x new)
  obtain c t where "x = (c, t)" by fastforce
  with Cons show ?case by auto
qed simp

lemma covers_merge_resolved:
  "covers_reason (merge_resolved i a reasons m) v c \<longleftrightarrow>
     covers_reason m v c \<or> v = a_value a \<and> c \<in> fst ` set reasons"
  by (auto simp: covers_reason_def merge_resolved_def update_conv' fst_merge_reasons split: option.splits)

lemma resolve_loop_keeps:
  "resolve_loop r ord event items ks n is m done = Inr (m', done') \<Longrightarrow> covers_reason m v c \<Longrightarrow>
   covers_reason m' v c"
proof (induction "is" arbitrary: n m "done")
  case (Cons i "is")
  from Cons.prems(1) show ?case
  proof (rule resolve_loop_Cons)
    fix m1 done1
    assume rest: "resolve_loop r ord event items ks (Suc n) is m1 done1 = Inr (m', done')"
      and "m1 = m \<or> (\<exists>a item. email_address i = Some a \<and> allowed r (a_value a)
        \<and> find_candidate items ks i = Some item \<and> (cand_allow_self item \<or> \<not> same_identity (ev_actor event) i)
        \<and> m1 = merge_resolved i a (filter (\<lambda>x. rt_enabled r a (ev_kind event) (fst x)
          (p_path (ev_project event)) = Inr True) (visit ord (n + 3) (cand_reasons item))) m)"
    with Cons.prems(2) have "covers_reason m1 v c" by (auto simp: covers_merge_resolved)
    with Cons.IH rest show ?case by blast
  qed
qed simp

lemma resolve_loop_complete:
  assumes "map_order ord" "candidates_ok self items"
    and i: "email_address i = Some a" "allowed r (a_value a)" "find_candidate items ks i = Some item"
      "cand_allow_self item \<or> \<not> same_identity (ev_actor event) i"
    and c: "c \<in> fst ` set (cand_reasons item)"
      "rt_enabled r a (ev_kind event) c (p_path (ev_project event)) = Inr True"
  shows "resolve_loop r ord event items ks n is m done = Inr (m', done') \<Longrightarrow> i \<in> set is \<Longrightarrow>
    covers_reason m' (a_value a) c"
proof (induction "is" arbitrary: n m "done")
  case (Cons j "is")
  show ?case
  proof (cases "j = i")
    case True
    have d: "distinct (map fst (cand_reasons item))"
      using find_candidate_ok [OF assms(2) i(3)] by (auto simp: candidate_ok_def)
    have not_self: "\<not> (\<not> cand_allow_self item \<and> same_identity (ev_actor event) i)" using i(4) by blast
    from Cons.prems(1) True i(1,2,3) not_self obtain reasons where
      f: "filter_reasons (\<lambda>c. rt_enabled r a (ev_kind event) c (p_path (ev_project event)))
        (visit ord (n + 3) (cand_reasons item)) = Inr reasons"
      and rest: "resolve_loop r ord event items ks (Suc n) is (merge_resolved i a reasons m)
        (candidate_key i # done) = Inr (m', done')"
      by (auto simp: Let_def split: sum.splits if_splits)
    have "c \<in> fst ` set reasons"
      unfolding filter_reasons_eq [OF f] visit_reasons(2) [OF assms(1) d] using c by force
    then have "covers_reason (merge_resolved i a reasons m) (a_value a) c"
      by (simp add: covers_merge_resolved)
    then show ?thesis by (rule resolve_loop_keeps [OF rest])
  next
    case False
    with Cons.prems(2) have "i \<in> set is" by simp
    with Cons.IH show ?thesis
      by (metis Cons.prems(1) resolve_loop_Cons)
  qed
qed simp

subsection \<open>The deliveries\<close>

definition resolver_output :: "router \<Rightarrow> identity list \<Rightarrow> identity list res" where
  "resolver_output r ids = (case rt_resolve r of None \<Rightarrow> Inr ids | Some rs \<Rightarrow> rs ids)"

definition candidate_identities :: "ord \<Rightarrow> candidates \<Rightarrow> identity list" where
  "candidate_identities ord items = map (cand_identity \<circ> snd) (visit ord 0 items)"

lemma route_parts:
  assumes "route r ord event = Inr res"
  obtains items "is" m "done" where "candidates_for r event = Inr items" "ev_event_key event \<noteq> []"
    "resolver_output r (candidate_identities ord items) = Inr is"
    "resolve_loop r ord event items (map fst (visit ord 0 items)) 0 is [] [] = Inr (m, done)"
    "rr_deliveries res = map (delivery_of ord 3 event)
       (filter (\<lambda>item. \<not> (res_reasons item = [] \<or> a_value (res_address item) = [])
         \<and> allows (rt_policy r) (res_address item)) (map snd (visit ord 2 m)))"
proof -
  from assms obtain items resolved unresolved where 1: "candidates_for r event = Inr items"
    "ev_event_key event \<noteq> []" "resolve_candidates r ord items event = Inr (resolved, unresolved)"
    "rr_deliveries res = map (delivery_of ord 3 event)
       (filter (\<lambda>item. \<not> (res_reasons item = [] \<or> a_value (res_address item) = [])
         \<and> allows (rt_policy r) (res_address item)) resolved)"
    by (auto simp: route_def Let_def split: if_splits sum.splits)
  have eq: "map (\<lambda>(k, item). cand_identity item) (visit ord 0 items) = candidate_identities ord items"
    by (simp add: candidate_identities_def comp_def case_prod_beta')
  from 1(3) obtain "is" m "done" where 2: "resolver_output r (candidate_identities ord items) = Inr is"
    "resolve_loop r ord event items (map fst (visit ord 0 items)) 0 is [] [] = Inr (m, done)"
    "resolved = map snd (visit ord 2 m)"
    unfolding resolve_candidates_def Let_def eq resolver_output_def [symmetric]
    by (auto split: sum.splits)
  show ?thesis by (rule that [OF 1(1,2) 2(1,2)]) (simp add: 1(4) 2(3))
qed

lemma email_address_ok:
  "email_address i = Some a \<Longrightarrow> addr_spec (a_value a) \<and> to_lower (a_value a) = a_value a
     \<and> a_kind a = AddressKindEmail \<and> \<not> contains (a_value a) ''noreply''"
  by (auto simp: email_address_def Let_def split: if_splits)

lemma delivery_of_simps [simp]:
  "n_recipient (d_notification (delivery_of ord n event item)) = res_address item"
  "n_event_key (d_notification (delivery_of ord n event item)) = ev_event_key event"
  "n_kind (d_notification (delivery_of ord n event item)) = ev_kind event"
  by (simp_all add: delivery_of_def Let_def)

lemma delivery_of_reasons:
  assumes "map_order ord" "distinct (map fst (res_reasons item))"
    and reasons: "reasons = n_reasons (d_notification (delivery_of ord n event item))"
  shows "sorted (map re_code reasons)" "distinct (map re_code reasons)"
    "(\<lambda>x. (re_code x, re_text x)) ` set reasons = set (res_reasons item)"
    "d_key (delivery_of ord n event item)
      = delivery_key event (res_address item) (join (map re_code reasons) ''+'')"
proof -
  let ?e = "visit ord n (res_reasons item)"
  let ?mk = "\<lambda>(c, t). \<lparr>re_code = c, re_text = t\<rparr>"
  have r: "reasons = sort_key re_code (map ?mk ?e)"
    by (simp add: reasons delivery_of_def Let_def)
  have codes: "map re_code reasons = sort (map fst ?e)"
    unfolding r map_sort_key by (simp add: comp_def case_prod_beta')
  show "sorted (map re_code reasons)" unfolding codes by simp
  show "distinct (map re_code reasons)" unfolding codes by (simp add: distinct_visit [OF assms(1,2)])
  show "(\<lambda>x. (re_code x, re_text x)) ` set reasons = set (res_reasons item)"
    unfolding r by (simp add: image_image case_prod_beta' set_visit [OF assms(1,2)])
  show "d_key (delivery_of ord n event item)
      = delivery_key event (res_address item) (join (map re_code reasons) ''+'')"
    unfolding codes by (simp add: delivery_of_def Let_def)
qed

lemma route_resolved_ok:
  assumes "map_order ord" "candidates_for r event = Inr items"
    "resolve_loop r ord event items ks 0 is [] [] = Inr (m, done)"
  shows "resolved_ok r event items ks is m"
  using resolve_loop_ok [OF assms(1) candidates_for_ok [OF assms(2)] assms(3)] by simp

text \<open>Where a delivery comes from.\<close>

lemma route_delivery:
  assumes "map_order ord" "route r ord event = Inr res" "d \<in> set (rr_deliveries res)"
  obtains items "is" item where "candidates_for r event = Inr items"
    "resolver_output r (candidate_identities ord items) = Inr is"
    "d = delivery_of ord 3 event item" "res_reasons item \<noteq> []" "allows (rt_policy r) (res_address item)"
    "\<exists>i \<in> set is. email_address i = Some (res_address item)" "allowed r (a_value (res_address item))"
    "distinct (map fst (res_reasons item))"
    "\<forall>reason \<in> set (res_reasons item).
       entitled r event items (map fst (visit ord 0 items)) is (a_value (res_address item)) reason"
  using assms(2)
proof (rule route_parts)
  fix items "is" m "done"
  assume 1: "candidates_for r event = Inr items" "resolver_output r (candidate_identities ord items) = Inr is"
    "resolve_loop r ord event items (map fst (visit ord 0 items)) 0 is [] [] = Inr (m, done)"
    "rr_deliveries res = map (delivery_of ord 3 event)
       (filter (\<lambda>item. \<not> (res_reasons item = [] \<or> a_value (res_address item) = [])
         \<and> allows (rt_policy r) (res_address item)) (map snd (visit ord 2 m)))"
  have ok: "resolved_ok r event items (map fst (visit ord 0 items)) is m"
    by (rule route_resolved_ok [OF assms(1) 1(1,3)])
  then have d: "distinct (map fst m)" by (simp add: resolved_ok_def)
  from assms(3) obtain v item where "(v, item) \<in> set m" "d = delivery_of ord 3 event item"
    "res_reasons item \<noteq> []" "allows (rt_policy r) (res_address item)"
    unfolding 1(4) using set_visit [OF assms(1) d, of 2] by auto
  with ok show ?thesis
    unfolding resolved_ok_def by (intro that [OF 1(1,2)]) auto
qed

subsection \<open>Properties\<close>

definition dev :: "string \<Rightarrow> identity" where
  "dev who = \<lparr>i_provider = ProviderGitLab, i_provider_id = [], i_username = who,
     i_email = who @ ''@x.io'', i_name = []\<rparr>"

definition open_router :: router where
  "open_router = \<lparr>rt_resolve = None, rt_enabled = (\<lambda>a k c p. Inr True),
     rt_pipeline_state = Some (\<lambda>k. Inr None), rt_domains = [], rt_policy = None, rt_now = second\<rparr>"

definition mr_opened :: canonical_event where
  "mr_opened = no_event\<lparr>ev_event_key := ''e1'', ev_kind := EventKindMergeRequest, ev_action := ''open'',
     ev_actor := dev ''ann'',
     ev_merge_request := Some (no_merge_request\<lparr>mr_author := dev ''ann'',
       mr_reviewers := [dev ''bob'', dev ''ann''], mr_assignees := [dev ''bob'']\<rparr>)\<rparr>"

definition routed :: "canonical_event \<Rightarrow> route_result" where
  "routed event = projr (route open_router (\<lambda>_ ks. ks) event)"

lemma route_mr_opened: "route open_router (\<lambda>_ ks. ks) mr_opened = Inr (routed mr_opened)"
proof -
  have "isl (route open_router (\<lambda>_ ks. ks) mr_opened) = False" by code_simp
  then show ?thesis unfolding routed_def by (cases "route open_router (\<lambda>_ ks. ks) mr_opened") auto
qed

lemma delivery_entitled:
  assumes "map_order ord" "route r ord event = Inr res" "d \<in> set (rr_deliveries res)"
  shows "let a = n_recipient (d_notification d); reasons = n_reasons (d_notification d) in
    addr_spec (a_value a) \<and> to_lower (a_value a) = a_value a \<and> allowed r (a_value a)
    \<and> allows (rt_policy r) a
    \<and> reasons \<noteq> [] \<and> sorted (map re_code reasons) \<and> distinct (map re_code reasons)
    \<and> set (map re_code reasons) \<subseteq> set reason_codes
    \<and> (\<exists>items is. candidates_for r event = Inr items
        \<and> resolver_output r (candidate_identities ord items) = Inr is
        \<and> (\<forall>x \<in> set reasons. entitled r event items (map fst (visit ord 0 items)) is (a_value a)
            (re_code x, re_text x)))"
  using assms
proof (rule route_delivery)
  fix items "is" item
  assume 1: "candidates_for r event = Inr items" "resolver_output r (candidate_identities ord items) = Inr is"
    and d: "d = delivery_of ord 3 event item" and ne: "res_reasons item \<noteq> []"
    and al: "allows (rt_policy r) (res_address item)" "allowed r (a_value (res_address item))"
    and em: "\<exists>i \<in> set is. email_address i = Some (res_address item)"
    and dist: "distinct (map fst (res_reasons item))"
    and ent: "\<forall>reason \<in> set (res_reasons item).
       entitled r event items (map fst (visit ord 0 items)) is (a_value (res_address item)) reason"
  note dr = delivery_of_reasons [OF assms(1) dist refl, of 3 event]
  let ?rs = "n_reasons (d_notification (delivery_of ord 3 event item))"
  have "?rs \<noteq> []" using dr(3) ne by auto
  moreover have e: "\<forall>x \<in> set ?rs. entitled r event items (map fst (visit ord 0 items)) is
      (a_value (res_address item)) (re_code x, re_text x)"
    using dr(3) ent by blast
  moreover have "set (map re_code ?rs) \<subseteq> set reason_codes"
  proof
    fix c assume "c \<in> set (map re_code ?rs)"
    then obtain x where "x \<in> set ?rs" "c = re_code x" by auto
    with e obtain i cand where "find_candidate items (map fst (visit ord 0 items)) i = Some cand"
      "(c, re_text x) \<in> set (cand_reasons cand)" by (auto simp: entitled_def)
    with find_candidate_ok [OF candidates_for_ok [OF 1(1)]] show "c \<in> set reason_codes"
      by (fastforce simp: candidate_ok_def)
  qed
  ultimately show ?thesis
    using 1 al em email_address_ok dr(1,2) unfolding d Let_def delivery_of_simps by blast
qed

text \<open>C1: every delivery of a routed event goes to a well-formed lower-case address of an
  allowed domain that the recipient policy allows; it gives at least one reason, its reasons
  are sorted, distinct and known, and to each of them the address is entitled: an identity
  with that address was a candidate for it, and the preference store enables it.\<close>

theorem deliveries_are_entitled:
  assumes "map_order ord" "route r ord event = Inr res" "d \<in> set (rr_deliveries res)"
  shows "let a = n_recipient (d_notification d); reasons = n_reasons (d_notification d) in
    addr_spec (a_value a) \<and> to_lower (a_value a) = a_value a \<and> allowed r (a_value a)
    \<and> allows (rt_policy r) a
    \<and> reasons \<noteq> [] \<and> sorted (map re_code reasons) \<and> distinct (map re_code reasons)
    \<and> set (map re_code reasons) \<subseteq> set reason_codes
    \<and> (\<exists>items is. candidates_for r event = Inr items
        \<and> resolver_output r (candidate_identities ord items) = Inr is
        \<and> (\<forall>x \<in> set reasons. entitled r event items (map fst (visit ord 0 items)) is (a_value a)
            (re_code x, re_text x)))"
  using assms by (rule delivery_entitled)

theorem deliveries_are_entitled_witness:
  "map (\<lambda>d. a_value (n_recipient (d_notification d))) (rr_deliveries (routed mr_opened)) = [''bob@x.io'']
   \<and> list_all (\<lambda>d. addr_spec (a_value (n_recipient (d_notification d)))) (rr_deliveries (routed mr_opened))"
proof -
  have "map (\<lambda>d. a_value (n_recipient (d_notification d))) (rr_deliveries (routed mr_opened)) = [''bob@x.io'']"
    by code_simp
  then show ?thesis
    using deliveries_are_entitled [OF map_order_id route_mr_opened] by (simp add: Let_def list_all_iff)
qed

text \<open>C22: nobody is told of their own action: but for pipelines, an address for which every
  resolved identity is the actor of the event gets no delivery.\<close>

theorem no_self_notification:
  assumes "map_order ord" "route r ord event = Inr res" "ev_kind event \<noteq> EventKindPipeline"
    "candidates_for r event = Inr items" "resolver_output r (candidate_identities ord items) = Inr is"
    "\<forall>i \<in> set is. \<forall>a. email_address i = Some a \<and> a_value a = v \<longrightarrow> same_identity (ev_actor event) i"
  shows "\<forall>d \<in> set (rr_deliveries res). a_value (n_recipient (d_notification d)) \<noteq> v"
proof (rule ballI, rule notI)
  fix d assume d: "d \<in> set (rr_deliveries res)" and v: "a_value (n_recipient (d_notification d)) = v"
  from assms(1,2) d show False
  proof (rule route_delivery)
    fix items' is' item
    assume 1: "candidates_for r event = Inr items'" "resolver_output r (candidate_identities ord items') = Inr is'"
      "d = delivery_of ord 3 event item" "res_reasons item \<noteq> []"
      "\<forall>reason \<in> set (res_reasons item).
         entitled r event items' (map fst (visit ord 0 items')) is' (a_value (res_address item)) reason"
    have eq: "items' = items" "is' = is" using 1(1,2) assms(4,5) by auto
    obtain reason where "reason \<in> set (res_reasons item)" using 1(4) by (cases "res_reasons item") auto
    with 1(5) obtain i a cand where i: "i \<in> set is" "email_address i = Some a" "a_value a = a_value (res_address item)"
      "find_candidate items (map fst (visit ord 0 items)) i = Some cand"
      "cand_allow_self cand \<or> \<not> same_identity (ev_actor event) i"
      unfolding eq entitled_def by blast
    have "\<not> cand_allow_self cand"
      using find_candidate_ok [OF candidates_for_ok [OF assms(4)] i(4)] assms(3) by (auto simp: candidate_ok_def)
    with i assms(6) v show False unfolding 1(3) by auto
  qed
qed

theorem no_self_notification_witness:
  "list_all (\<lambda>d. a_value (n_recipient (d_notification d)) \<noteq> ''ann@x.io'') (rr_deliveries (routed mr_opened))"
  unfolding list_all_iff
proof (rule no_self_notification [OF map_order_id route_mr_opened])
  show "ev_kind mr_opened \<noteq> EventKindPipeline" by code_simp
  show c: "candidates_for open_router mr_opened = Inr (route_merge_request mr_opened)"
    by (simp add: candidates_for_def mr_opened_def)
  show "resolver_output open_router (candidate_identities (\<lambda>_ ks. ks) (route_merge_request mr_opened))
      = Inr [dev ''bob'', dev ''ann'']" by code_simp
  have b: "map_option a_value (email_address (dev ''bob'')) = Some ''bob@x.io''" by code_simp
  have a: "same_identity (ev_actor mr_opened) (dev ''ann'')" by code_simp
  show "\<forall>i \<in> set [dev ''bob'', dev ''ann'']. \<forall>a. email_address i = Some a \<and> a_value a = ''ann@x.io''
      \<longrightarrow> same_identity (ev_actor mr_opened) i"
    using a b by auto
qed

lemma colon_free: "addr_spec v \<Longrightarrow> CHR '':'' \<notin> set v"
proof (erule addr_specD)
  fix l d assume "v = l @ CHR ''@'' # d" "dot_atom l" "dot_atom d"
  moreover have "\<not> atext CHR '':''" by (simp add: atext_def)
  ultimately show "CHR '':'' \<notin> set v" by (auto simp: dot_atom_def list_all_iff)
qed

lemma reason_codes_colon_free: "c \<in> set reason_codes \<Longrightarrow> CHR '':'' \<notin> set c"
  by (auto simp: reason_codes_def)

lemma join_free: "\<forall>w \<in> set ws. c \<notin> set w \<Longrightarrow> c \<notin> set sep \<Longrightarrow> c \<notin> set (join ws sep)"
  by (induction ws sep rule: join.induct) auto

lemma delivery_key_inject:
  assumes "delivery_key event a g = delivery_key event b h" "CHR '':'' \<notin> set g" "CHR '':'' \<notin> set h"
    "CHR '':'' \<notin> set (a_value a)" "CHR '':'' \<notin> set (a_value b)"
    "to_lower (a_value a) = a_value a" "to_lower (a_value b) = a_value b"
  shows "a_value a = a_value b \<and> g = h"
proof -
  have "(delivery_base event g @ '':'' @ a_value a) @ CHR '':'' # g
      = (delivery_base event h @ '':'' @ a_value b) @ CHR '':'' # h"
    using assms(1,6,7) by (simp add: delivery_key_def)
  from last_separator [OF this assms(2,3)] show ?thesis by auto
qed

text \<open>An event makes at most one delivery for each address, however many reasons and
  identities lead to it, and its deliveries have different keys, so that the outbox keeps
  every one of them.\<close>

theorem one_delivery_per_address:
  assumes "map_order ord" "route r ord event = Inr res"
  shows "distinct (map (\<lambda>d. a_value (n_recipient (d_notification d))) (rr_deliveries res))
    \<and> distinct (map d_key (rr_deliveries res))"
  using assms(2)
proof (rule route_parts)
  fix items "is" m "done"
  let ?keep = "\<lambda>item. \<not> (res_reasons item = [] \<or> a_value (res_address item) = [])
         \<and> allows (rt_policy r) (res_address item)"
  assume 1: "candidates_for r event = Inr items"
    "resolve_loop r ord event items (map fst (visit ord 0 items)) 0 is [] [] = Inr (m, done)"
    "rr_deliveries res = map (delivery_of ord 3 event) (filter ?keep (map snd (visit ord 2 m)))"
  have ok: "resolved_ok r event items (map fst (visit ord 0 items)) is m"
    by (rule route_resolved_ok [OF assms(1) 1(1,2)])
  then have d: "distinct (map fst m)" by (simp add: resolved_ok_def)
  have v: "a_value (res_address (snd e)) = fst e" if "e \<in> set (visit ord 2 m)" for e
    using that ok set_visit [OF assms(1) d, of 2] by (auto simp: resolved_ok_def)
  have "map (\<lambda>item. a_value (res_address item)) (map snd (visit ord 2 m)) = map fst (visit ord 2 m)"
    using v by simp
  then have da: "distinct (map (\<lambda>item. a_value (res_address item)) (filter ?keep (map snd (visit ord 2 m))))"
    using distinct_visit [OF assms(1) d, of 2] by (intro distinct_map_filter) (simp del: map_map)
  then have dv: "distinct (map (\<lambda>d. a_value (n_recipient (d_notification d))) (rr_deliveries res))"
    unfolding 1(3) by (simp add: comp_def)
  moreover have "inj_on d_key (set (rr_deliveries res))"
  proof (rule inj_onI)
    fix x y assume xy: "x \<in> set (rr_deliveries res)" "y \<in> set (rr_deliveries res)" "d_key x = d_key y"
    have part: "\<exists>g. d_key z = delivery_key event (n_recipient (d_notification z)) g \<and> CHR '':'' \<notin> set g
        \<and> CHR '':'' \<notin> set (a_value (n_recipient (d_notification z)))
        \<and> to_lower (a_value (n_recipient (d_notification z))) = a_value (n_recipient (d_notification z))"
      if z: "z \<in> set (rr_deliveries res)" for z
    proof -
      note en = delivery_entitled [OF assms z, unfolded Let_def]
      from assms z obtain item where item: "z = delivery_of ord 3 event item" "distinct (map fst (res_reasons item))"
        by (rule route_delivery)
      let ?g = "join (map re_code (n_reasons (d_notification z))) ''+''"
      have "d_key z = delivery_key event (n_recipient (d_notification z)) ?g"
        using delivery_of_reasons(4) [OF assms(1) item(2) refl, of 3 event] by (simp add: item(1))
      moreover have "CHR '':'' \<notin> set ?g"
        using en reason_codes_colon_free by (intro join_free) auto
      ultimately show ?thesis using en colon_free by blast
    qed
    obtain g h where "d_key x = delivery_key event (n_recipient (d_notification x)) g" "CHR '':'' \<notin> set g"
      "CHR '':'' \<notin> set (a_value (n_recipient (d_notification x)))"
      "to_lower (a_value (n_recipient (d_notification x))) = a_value (n_recipient (d_notification x))"
      "d_key y = delivery_key event (n_recipient (d_notification y)) h" "CHR '':'' \<notin> set h"
      "CHR '':'' \<notin> set (a_value (n_recipient (d_notification y)))"
      "to_lower (a_value (n_recipient (d_notification y))) = a_value (n_recipient (d_notification y))"
      using part [OF xy(1)] part [OF xy(2)] by blast
    with delivery_key_inject xy(3)
    have "a_value (n_recipient (d_notification x)) = a_value (n_recipient (d_notification y))" by metis
    with dv xy(1,2) show "x = y" by (rule map_fst_eq_same)
  qed
  ultimately show ?thesis by (auto simp: distinct_map)
qed

theorem one_delivery_per_address_witness: "distinct (map d_key (rr_deliveries (routed mr_opened)))"
  using one_delivery_per_address [OF map_order_id route_mr_opened] by blast

lemma routing_complete:
  assumes "map_order ord" "route r ord event = Inr res" "candidates_for r event = Inr items"
    "resolver_output r (candidate_identities ord items) = Inr is" "i \<in> set is"
    "email_address i = Some a" "allowed r (a_value a)"
    "find_candidate items (map fst (visit ord 0 items)) i = Some cand"
    "cand_allow_self cand \<or> \<not> same_identity (ev_actor event) i" "c \<in> fst ` set (cand_reasons cand)"
    "rt_enabled r a (ev_kind event) c (p_path (ev_project event)) = Inr True"
    "\<forall>b. a_value b = a_value a \<longrightarrow> allows (rt_policy r) b"
  shows "\<exists>d \<in> set (rr_deliveries res). a_value (n_recipient (d_notification d)) = a_value a
    \<and> c \<in> set (map re_code (n_reasons (d_notification d)))"
  using assms(2)
proof (rule route_parts)
  fix items' is' m "done"
  assume 1: "candidates_for r event = Inr items'"
    "resolver_output r (candidate_identities ord items') = Inr is'"
    "resolve_loop r ord event items' (map fst (visit ord 0 items')) 0 is' [] [] = Inr (m, done)"
    "rr_deliveries res = map (delivery_of ord 3 event)
       (filter (\<lambda>item. \<not> (res_reasons item = [] \<or> a_value (res_address item) = [])
         \<and> allows (rt_policy r) (res_address item)) (map snd (visit ord 2 m)))"
  have eq: "items' = items" "is' = is" using 1(1,2) assms(3,4) by auto
  have ok: "resolved_ok r event items (map fst (visit ord 0 items)) is m"
    by (rule route_resolved_ok [OF assms(1,3) 1(3) [unfolded eq]])
  then have d: "distinct (map fst m)" by (simp add: resolved_ok_def)
  have "covers_reason m (a_value a) c"
    by (rule resolve_loop_complete [OF assms(1) candidates_for_ok [OF assms(3)] assms(6-11) 1(3) [unfolded eq] assms(5)])
  then obtain rc where rc: "(a_value a, rc) \<in> set m" "c \<in> fst ` set (res_reasons rc)"
    by (auto simp: covers_reason_def dest: map_of_SomeD)
  have v: "a_value (res_address rc) = a_value a" "distinct (map fst (res_reasons rc))"
    using ok rc(1) by (auto simp: resolved_ok_def)
  have "a_value a \<noteq> []" using email_address_ok [OF assms(6)] by auto
  moreover have "rc \<in> set (map snd (visit ord 2 m))"
    using rc(1) unfolding set_map set_visit [OF assms(1) d] by (metis image_eqI snd_conv)
  moreover have "res_reasons rc \<noteq> []" using rc(2) by auto
  ultimately have "rc \<in> set (filter (\<lambda>item. \<not> (res_reasons item = [] \<or> a_value (res_address item) = [])
      \<and> allows (rt_policy r) (res_address item)) (map snd (visit ord 2 m)))"
    using v(1) assms(12) by simp
  then have "delivery_of ord 3 event rc \<in> set (rr_deliveries res)" unfolding 1(4) by simp
  moreover have "c \<in> set (map re_code (n_reasons (d_notification (delivery_of ord 3 event rc))))"
  proof -
    from rc(2) obtain t where "(c, t) \<in> set (res_reasons rc)" by auto
    then have "(c, t) \<in> (\<lambda>x. (re_code x, re_text x)) ` set (n_reasons (d_notification (delivery_of ord 3 event rc)))"
      unfolding delivery_of_reasons(3) [OF assms(1) v(2) refl] .
    then show ?thesis by (elim imageE) (simp del: delivery_of_simps)
  qed
  ultimately show ?thesis using v(1) by (intro bexI) simp_all
qed

text \<open>C2: nothing due is left out: a resolved identity with a well-formed address of an allowed
  domain, whose candidate has a reason that the preference store enables for the address, gets
  a delivery with this reason, unless it is the actor or the recipient policy blocks it.\<close>

theorem routing_is_complete:
  assumes "map_order ord" "route r ord event = Inr res" "candidates_for r event = Inr items"
    "resolver_output r (candidate_identities ord items) = Inr is" "i \<in> set is"
    "email_address i = Some a" "allowed r (a_value a)"
    "find_candidate items (map fst (visit ord 0 items)) i = Some cand"
    "cand_allow_self cand \<or> \<not> same_identity (ev_actor event) i" "c \<in> fst ` set (cand_reasons cand)"
    "rt_enabled r a (ev_kind event) c (p_path (ev_project event)) = Inr True"
    "\<forall>b. a_value b = a_value a \<longrightarrow> allows (rt_policy r) b"
  shows "\<exists>d \<in> set (rr_deliveries res). a_value (n_recipient (d_notification d)) = a_value a
    \<and> c \<in> set (map re_code (n_reasons (d_notification d)))"
  using assms by (rule routing_complete)

theorem routing_is_complete_witness:
  "\<exists>d \<in> set (rr_deliveries (routed mr_opened)). a_value (n_recipient (d_notification d)) = ''bob@x.io''
    \<and> ReasonMRReviewRequested \<in> set (map re_code (n_reasons (d_notification d)))"
proof -
  let ?items = "route_merge_request mr_opened"
  have c: "candidates_for open_router mr_opened = Inr ?items"
    by (simp add: candidates_for_def mr_opened_def)
  have o: "resolver_output open_router (candidate_identities (\<lambda>_ ks. ks) ?items) = Inr [dev ''bob'', dev ''ann'']"
    by code_simp
  have e: "email_address (dev ''bob'') = Some \<lparr>a_kind = AddressKindEmail, a_value = ''bob@x.io'', a_display_name = []\<rparr>"
    by code_simp
  define found where "found = find_candidate ?items (map fst (visit (\<lambda>_ ks. ks) 0 ?items)) (dev ''bob'')"
  have "map_option (\<lambda>k. map fst (cand_reasons k)) found = Some [ReasonMRReviewRequested, ReasonMRAssigned]"
    unfolding found_def by code_simp
  then obtain cand where cand: "found = Some cand"
    "map fst (cand_reasons cand) = [ReasonMRReviewRequested, ReasonMRAssigned]" by (cases found) simp_all
  note f = cand(1) [unfolded found_def]
  have "ReasonMRReviewRequested \<in> set (map fst (cand_reasons cand))" unfolding cand(2) by simp
  then have r: "ReasonMRReviewRequested \<in> fst ` set (cand_reasons cand)" by simp
  have s: "\<not> same_identity (ev_actor mr_opened) (dev ''bob'')" by code_simp
  from routing_is_complete [OF map_order_id route_mr_opened c o _ e _ f _ r] s
  show ?thesis by (simp add: allowed_def open_router_def allows_def)
qed

end
