(* ===== verification/StorePreference.thy ===== *)
theory StorePreference
  imports StoreIdentity GoJson
begin

section \<open>The SQLite store: preferences and pipeline states\<close>

text \<open>
  The preferences of a recipient (\<open>SetMute\<close>, \<open>MuteState\<close>, \<open>UpsertPreference\<close>,
  \<open>Enabled\<close>) and the recorded state of a pipeline (\<open>Get\<close>, \<open>Put\<close>). A mute is the
  pair of the column \<open>enabled = 0\<close> and the text \<open>muted_until\<close>. The lemmas say what a
  read returns after a write, when a mute ends, and that \<open>MuteState\<close> and \<open>Enabled\<close>
  agree on it.
\<close>

subsection \<open>Preferences\<close>

record preference =
  pref_email :: string
  pref_enabled :: bool
  pref_ci_failed :: bool
  pref_ci_recovered :: bool
  pref_mr_review_requested :: bool
  pref_mr_assigned :: bool
  pref_mr_updated :: bool
  pref_mr_approved :: bool
  pref_mr_state_changed :: bool
  pref_mr_comment :: bool
  pref_mention :: bool
  pref_issue_assigned :: bool
  pref_issue_updated :: bool
  pref_project_include :: string
  pref_project_exclude :: string

text \<open>A row with the defaults of the table's columns.\<close>

definition default_preference :: "string \<Rightarrow> string \<Rightarrow> preference_row" where
  "default_preference email now =
     \<lparr>pf_email = email, pf_enabled = True, pf_ci_failed = True, pf_ci_recovered = True,
      pf_mr_review_requested = True, pf_mr_assigned = True, pf_mr_updated = True,
      pf_mr_approved = True, pf_mr_state_changed = True, pf_mr_comment = True, pf_mention = True,
      pf_issue_assigned = True, pf_issue_updated = False, pf_project_include = [],
      pf_project_exclude = [], pf_muted_until = [], pf_updated_at = now\<rparr>"

definition preference_of :: "string \<Rightarrow> preference_row list \<Rightarrow> preference_row option" where
  "preference_of email rows = find (\<lambda>r. pf_email r = email) rows"

text \<open>\<open>INSERT ... ON CONFLICT(email) DO UPDATE\<close>: \<open>g\<close> sets the columns of the statement.\<close>

definition write_preference ::
  "string \<Rightarrow> string \<Rightarrow> (preference_row \<Rightarrow> preference_row) \<Rightarrow> preference_row list \<Rightarrow> preference_row list" where
  "write_preference email now g rows =
     (if email \<in> pf_email ` set rows
      then map (\<lambda>r. if pf_email r = email then g r else r) rows
      else rows @ [g (default_preference email now)])"

definition set_mute ::
  "fault \<Rightarrow> time \<Rightarrow> recipient_address \<Rightarrow> time option \<Rightarrow> db \<Rightarrow> go_error option \<times> db" where
  "set_mute f now address until db =
     (let email = usable_email (a_value address) in
      if email = [] then (Some (Msg ''a usable preference email is required''), db)
      else
        let enabled = (until = None);
            muted_until = (case until of None \<Rightarrow> [] | Some t \<Rightarrow> format_timestamp t)
        in case f 0 of
          Some e \<Rightarrow> (Some (Wrap ''write notification preference'' e), db)
        | None \<Rightarrow> (None, db\<lparr>db_preferences := write_preference email (format_timestamp now)
            (\<lambda>r. r\<lparr>pf_enabled := enabled, pf_muted_until := muted_until,
                   pf_updated_at := format_timestamp now\<rparr>) (db_preferences db)\<rparr>))"

definition mute_state :: "fault \<Rightarrow> time \<Rightarrow> recipient_address \<Rightarrow> db \<Rightarrow> preference_state res" where
  "mute_state f now address db =
     (let email = usable_email (a_value address) in
      if email = [] then Inr no_preference_state
      else case f 0 of
        Some e \<Rightarrow> Inl (Wrap ''read notification preference'' e)
      | None \<Rightarrow>
        case preference_of email (db_preferences db) of
          None \<Rightarrow> Inr no_preference_state
        | Some r \<Rightarrow>
          if pf_enabled r then Inr no_preference_state
          else if trim_space (pf_muted_until r) = [] then
            Inr \<lparr>pr_muted = True, pr_muted_until = None\<rparr>
          else case parse_timestamp (pf_muted_until r) of
            None \<Rightarrow> Inr \<lparr>pr_muted = True, pr_muted_until = None\<rparr>
          | Some until \<Rightarrow>
            if \<not> now < until then Inr no_preference_state
            else Inr \<lparr>pr_muted = True, pr_muted_until = Some until\<rparr>)"

definition set_preference :: "preference \<Rightarrow> string \<Rightarrow> preference_row \<Rightarrow> preference_row" where
  "set_preference p now r =
     r\<lparr>pf_enabled := pref_enabled p, pf_ci_failed := pref_ci_failed p,
       pf_ci_recovered := pref_ci_recovered p,
       pf_mr_review_requested := pref_mr_review_requested p, pf_mr_assigned := pref_mr_assigned p,
       pf_mr_updated := pref_mr_updated p, pf_mr_approved := pref_mr_approved p,
       pf_mr_state_changed := pref_mr_state_changed p, pf_mr_comment := pref_mr_comment p,
       pf_mention := pref_mention p, pf_issue_assigned := pref_issue_assigned p,
       pf_issue_updated := pref_issue_updated p, pf_project_include := pref_project_include p,
       pf_project_exclude := pref_project_exclude p, pf_updated_at := now\<rparr>"

definition upsert_preference :: "fault \<Rightarrow> time \<Rightarrow> preference \<Rightarrow> db \<Rightarrow> go_error option \<times> db" where
  "upsert_preference f now p db =
     (let email = usable_email (pref_email p) in
      if email = [] then (Some (Msg ''a usable preference email is required''), db)
      else case f 0 of
        Some e \<Rightarrow> (Some (Wrap ''upsert notification preference'' e), db)
      | None \<Rightarrow> (None, db\<lparr>db_preferences := write_preference email (format_timestamp now)
          (set_preference p (format_timestamp now)) (db_preferences db)\<rparr>))"

subsection \<open>Which notifications are enabled\<close>

definition preference_reason_columns :: "(string, preference_row \<Rightarrow> bool) gomap" where
  "preference_reason_columns =
     [(''ci_failed'', pf_ci_failed), (''ci_recovered'', pf_ci_recovered),
      (''mr_review_requested'', pf_mr_review_requested), (''mr_assigned'', pf_mr_assigned),
      (''mr_updated'', pf_mr_updated), (''mr_approved'', pf_mr_approved),
      (''mr_state_changed'', pf_mr_state_changed), (''mr_comment'', pf_mr_comment),
      (''mention'', pf_mention), (''issue_assigned'', pf_issue_assigned),
      (''issue_updated'', pf_issue_updated)]"

definition mute_expired :: "string \<Rightarrow> time \<Rightarrow> bool" where
  "mute_expired muted_until now =
     (if trim_space muted_until = [] then False
      else case parse_timestamp muted_until of None \<Rightarrow> False | Some until \<Rightarrow> \<not> now < until)"

definition split_project_list :: "string \<Rightarrow> string list" where
  "split_project_list value =
     (let raw = (if has_prefix (trim_space value) ''['' then string_array value
                 else split value CHR '','')
      in filter (\<lambda>i. i \<noteq> []) (map trim_space raw))"

definition matches_project :: "string \<Rightarrow> string list \<Rightarrow> bool" where
  "matches_project project patterns =
     list_ex (\<lambda>p. let pattern = trim_space p in
       pattern = project \<or> has_prefix project (trim_right pattern CHR ''/'' @ ''/'')) patterns"

definition project_allowed :: "string \<Rightarrow> string \<Rightarrow> string \<Rightarrow> bool" where
  "project_allowed project_path include exclude =
     (let project = trim_space project_path in
      if project = [] then True
      else if split_project_list include \<noteq> []
          \<and> \<not> matches_project project (split_project_list include) then False
      else if split_project_list exclude \<noteq> []
          \<and> matches_project project (split_project_list exclude) then False
      else True)"

definition enabled ::
  "fault \<Rightarrow> time \<Rightarrow> recipient_address \<Rightarrow> event_kind \<Rightarrow> string \<Rightarrow> string \<Rightarrow> db \<Rightarrow> bool res" where
  "enabled f now address kind reason_code project_path db =
     (let email = usable_email (a_value address) in
      if email = [] then Inr False
      else case map_of preference_reason_columns reason_code of
        None \<Rightarrow> Inr True
      | Some column \<Rightarrow>
        case f 0 of
          Some e \<Rightarrow> Inl (Wrap ''read notification preference'' e)
        | None \<Rightarrow>
          case preference_of email (db_preferences db) of
            None \<Rightarrow> Inr (reason_code \<noteq> ''issue_updated'')
          | Some r \<Rightarrow>
            if \<not> pf_enabled r \<and> \<not> mute_expired (pf_muted_until r) now then Inr False
            else if \<not> column r then Inr False
            else if \<not> project_allowed project_path (pf_project_include r) (pf_project_exclude r)
            then Inr False
            else Inr True)"

subsection \<open>Pipeline states\<close>

definition get_pipeline_state :: "fault \<Rightarrow> string \<Rightarrow> db \<Rightarrow> pipeline_state option res" where
  "get_pipeline_state f key db =
     (case f 0 of
        Some e \<Rightarrow> Inl (Wrap ''read pipeline state'' e)
      | None \<Rightarrow>
        case find (\<lambda>r. psr_correlation_key r = key) (db_pipeline_states db) of
          None \<Rightarrow> Inr None
        | Some r \<Rightarrow>
          (case psr_recipients r of
             Corrupt \<Rightarrow> Inl (Wrap ''decode pipeline state'' (Msg ''invalid JSON''))
           | Json recipients \<Rightarrow> Inr (Some
               \<lparr>ps_correlation_key = psr_correlation_key r, ps_status = psr_status r,
                ps_recipients = recipients,
                ps_updated_at = (case parse_timestamp (psr_updated_at r) of
                    None \<Rightarrow> zero_time | Some t \<Rightarrow> t)\<rparr>)))"

definition put_pipeline_state :: "fault \<Rightarrow> time \<Rightarrow> pipeline_state \<Rightarrow> db \<Rightarrow> go_error option \<times> db" where
  "put_pipeline_state f now st db =
     (case f 0 of
        Some e \<Rightarrow> (Some (Wrap ''write pipeline state'' e), db)
      | None \<Rightarrow> (None, db\<lparr>db_pipeline_states :=
          upsert_pipeline_state (pipeline_state_row_of st now) (db_pipeline_states db)\<rparr>))"


subsection \<open>Reads after writes\<close>

lemma strip_front_keeps:
  "\<forall>w \<in> set ws. c \<notin> set w \<Longrightarrow> c \<in> set s \<Longrightarrow> c \<in> set (strip_front ws s)"
proof (induction ws s rule: strip_front.induct)
  case (2 ws x s)
  show ?case
  proof (cases "find (\<lambda>w. w \<noteq> [] \<and> prefix w (x # s)) ws")
    case None
    with 2(3) show ?thesis by simp
  next
    case (Some w)
    then have w: "w \<in> set ws" "w \<noteq> []" "prefix w (x # s)" by (auto simp: find_Some_iff)
    then obtain r where r: "x # s = w @ r" by (auto simp: prefix_def)
    then have "drop (length w - 1) s = r"
      using w(2) by (cases w) auto
    moreover have "c \<in> set r" using 2(2,3) w(1) r by (metis Un_iff set_append)
    ultimately have "c \<in> set (drop (length w - 1) s)" by simp
    from 2(1) [OF Some 2(2) this] Some show ?thesis by simp
  qed
qed simp

lemma trim_space_keeps: "c \<in> set s \<Longrightarrow> \<forall>w \<in> set space_codes. c \<notin> set w \<Longrightarrow> c \<in> set (trim_space s)"
  unfolding trim_space_def using strip_front_keeps [of space_codes c s]
    strip_front_keeps [of "map rev space_codes" c "rev (strip_front space_codes s)"] by simp

lemma trim_space_timestamp [simp]: "trim_space (format_timestamp t) \<noteq> []"
proof -
  have "CHR ''Z'' \<in> set (trim_space (format_timestamp t))"
    by (rule trim_space_keeps) (simp_all add: format_timestamp_def space_codes_def)
  then show ?thesis by auto
qed

lemma preference_of_write:
  assumes "\<And>r. pf_email (g r) = pf_email r"
  shows "preference_of e (write_preference email now g rows) =
    (if e = email then Some (g (case preference_of email rows of None \<Rightarrow> default_preference email now | Some r \<Rightarrow> r))
     else preference_of e rows)"
proof (cases "email \<in> pf_email ` set rows")
  case True
  have "find (\<lambda>r. pf_email r = e) (map (\<lambda>r. if pf_email r = email then g r else r) rows) =
    (if e = email then map_option g (find (\<lambda>r. pf_email r = e) rows) else find (\<lambda>r. pf_email r = e) rows)"
    using assms by (induction rows) auto
  moreover from True have "find (\<lambda>r. pf_email r = email) rows \<noteq> None"
    by (auto simp: find_None_iff)
  ultimately show ?thesis
    using True by (auto simp: write_preference_def preference_of_def)
next
  case False
  have "find (\<lambda>r. pf_email r = e) (rows @ [x]) =
    (case find (\<lambda>r. pf_email r = e) rows of None \<Rightarrow> if pf_email x = e then Some x else None | Some r \<Rightarrow> Some r)" for x
    by (induction rows) auto
  moreover from False have "find (\<lambda>r. pf_email r = email) rows = None"
    by (auto simp: find_None_iff)
  ultimately show ?thesis
    using False assms by (auto simp: write_preference_def preference_of_def default_preference_def
        split: option.split)
qed

lemma set_mute_row:
  assumes "set_mute f now a until db = (None, db')"
  shows "usable_email (a_value a) \<noteq> []"
    and "preference_of e (db_preferences db') =
      (if e = usable_email (a_value a)
       then Some ((case preference_of e (db_preferences db) of
            None \<Rightarrow> default_preference e (format_timestamp now) | Some r \<Rightarrow> r)
          \<lparr>pf_enabled := (until = None),
            pf_muted_until := (case until of None \<Rightarrow> [] | Some t \<Rightarrow> format_timestamp t),
            pf_updated_at := format_timestamp now\<rparr>)
       else preference_of e (db_preferences db))"
    and "db' = db\<lparr>db_preferences := db_preferences db'\<rparr>"
proof -
  show u: "usable_email (a_value a) \<noteq> []"
    using assms by (auto simp: set_mute_def Let_def split: if_splits)
  with assms have db': "db' = db\<lparr>db_preferences := write_preference (usable_email (a_value a)) (format_timestamp now)
      (\<lambda>r. r\<lparr>pf_enabled := (until = None), pf_muted_until := (case until of None \<Rightarrow> [] | Some t \<Rightarrow> format_timestamp t),
        pf_updated_at := format_timestamp now\<rparr>) (db_preferences db)\<rparr>"
    by (simp add: set_mute_def Let_def split: option.splits)
  then show "db' = db\<lparr>db_preferences := db_preferences db'\<rparr>" by simp
  show "preference_of e (db_preferences db') =
      (if e = usable_email (a_value a)
       then Some ((case preference_of e (db_preferences db) of
            None \<Rightarrow> default_preference e (format_timestamp now) | Some r \<Rightarrow> r)
          \<lparr>pf_enabled := (until = None),
            pf_muted_until := (case until of None \<Rightarrow> [] | Some t \<Rightarrow> format_timestamp t),
            pf_updated_at := format_timestamp now\<rparr>)
       else preference_of e (db_preferences db))"
    unfolding db' by (cases "e = usable_email (a_value a)") (simp_all add: preference_of_write split: option.split)
qed

text \<open>The mute of a row at an instant, which both \<open>MuteState\<close> and \<open>Enabled\<close> compute.\<close>

definition muted_at :: "time \<Rightarrow> preference_row \<Rightarrow> bool" where
  "muted_at now r \<longleftrightarrow> \<not> pf_enabled r \<and> \<not> mute_expired (pf_muted_until r) now"

definition muted :: "time \<Rightarrow> db \<Rightarrow> string \<Rightarrow> bool" where
  "muted now db email \<longleftrightarrow>
     (case preference_of email (db_preferences db) of None \<Rightarrow> False | Some r \<Rightarrow> muted_at now r)"

lemma mute_state_muted:
  assumes "mute_state f now a db = Inr st"
  shows "pr_muted st \<longleftrightarrow> usable_email (a_value a) \<noteq> [] \<and> muted now db (usable_email (a_value a))"
  using assms
  by (auto simp: mute_state_def Let_def muted_def muted_at_def mute_expired_def no_preference_state_def
      split: if_splits option.splits)

lemma enabled_unmuted:
  assumes "enabled f now a k reason path db = Inr True" "map_of preference_reason_columns reason \<noteq> None"
  shows "usable_email (a_value a) \<noteq> [] \<and> \<not> muted now db (usable_email (a_value a))"
  using assms
  by (auto simp: enabled_def Let_def muted_def muted_at_def split: if_splits option.splits)

lemma enabled_usable: "enabled f now a k reason path db = Inr True \<Longrightarrow> usable_email (a_value a) \<noteq> []"
  by (auto simp: enabled_def Let_def split: if_splits)


lemma mute_expired_timestamp:
  "four_digit_year t \<Longrightarrow> mute_expired (format_timestamp t) now = (\<not> now < ms_of t * millisecond)"
  by (simp add: mute_expired_def parse_format_timestamp)

lemma muted_after_set:
  assumes "set_mute f now a (Some t) db = (None, db')" "four_digit_year t"
  shows "muted later db' (usable_email (a_value a)) \<longleftrightarrow> later < ms_of t * millisecond"
  using set_mute_row(2) [OF assms(1)] assms(2)
  by (simp add: muted_def muted_at_def mute_expired_timestamp)

lemma mute_state_eq:
  assumes "usable_email (a_value a) \<noteq> []" "f 0 = None"
    "preference_of (usable_email (a_value a)) (db_preferences db) = Some r"
  shows "mute_state f now a db = Inr
    (if muted_at now r then \<lparr>pr_muted = True, pr_muted_until =
        (if trim_space (pf_muted_until r) = [] then None else parse_timestamp (pf_muted_until r))\<rparr>
     else no_preference_state)"
  using assms
  by (simp add: mute_state_def Let_def muted_at_def mute_expired_def split: option.split)

lemma enabled_row:
  assumes "usable_email (a_value a) \<noteq> []" "f 0 = None" "map_of preference_reason_columns reason = Some column"
    "preference_of (usable_email (a_value a)) (db_preferences db) = Some r"
  shows "enabled f now a k reason path db = Inr (\<not> muted_at now r \<and> column r
    \<and> project_allowed path (pf_project_include r) (pf_project_exclude r))"
  using assms by (simp add: enabled_def Let_def muted_at_def)

subsection \<open>Properties\<close>

definition alice :: recipient_address where
  "alice = \<lparr>a_kind = AddressKindEmail, a_value = ''Alice@x.io'', a_display_name = []\<rparr>"

definition alice_muted :: db where
  "alice_muted = snd (set_mute no_fault 0 alice (Some (30 * 24 * hour)) empty_db)"

lemma set_mute_alice: "set_mute no_fault 0 alice (Some (30 * 24 * hour)) empty_db = (None, alice_muted)"
proof -
  have "fst (set_mute no_fault 0 alice (Some (30 * 24 * hour)) empty_db) = None" by code_simp
  then show ?thesis by (simp add: alice_muted_def prod_eq_iff)
qed

text \<open>A mute that was set is read back, cut to the millisecond, until its instant has come;
  from then on the recipient counts as not muted. The mutes of others are not touched.\<close>

theorem mute_lasts_until:
  assumes "set_mute f now a (Some t) db = (None, db')" "four_digit_year t"
  shows "mute_state no_fault later a db' = Inr (if later < ms_of t * millisecond
      then \<lparr>pr_muted = True, pr_muted_until = Some (ms_of t * millisecond)\<rparr> else no_preference_state)
    \<and> (\<forall>b. usable_email (a_value b) \<noteq> usable_email (a_value a) \<longrightarrow>
        mute_state no_fault later b db' = mute_state no_fault later b db)"
proof -
  note row = set_mute_row [OF assms(1)]
  have "mute_state no_fault later b db' = mute_state no_fault later b db"
    if "usable_email (a_value b) \<noteq> usable_email (a_value a)" for b
  proof -
    from that have "preference_of (usable_email (a_value b)) (db_preferences db')
        = preference_of (usable_email (a_value b)) (db_preferences db)"
      by (simp add: row(2))
    then show ?thesis unfolding mute_state_def Let_def by (simp only:)
  qed
  moreover obtain r where r: "preference_of (usable_email (a_value a)) (db_preferences db') = Some r"
    "\<not> pf_enabled r" "pf_muted_until r = format_timestamp t"
    using row(2) by simp
  have "mute_state no_fault later a db' = Inr (if later < ms_of t * millisecond
      then \<lparr>pr_muted = True, pr_muted_until = Some (ms_of t * millisecond)\<rparr> else no_preference_state)"
    using mute_state_eq [OF row(1) spec [OF no_fault_none] r(1)] r(2,3) assms(2)
    by (simp add: muted_at_def mute_expired_timestamp parse_format_timestamp)
  ultimately show ?thesis by blast
qed

theorem mute_lasts_until_witness:
  "mute_state no_fault (29 * 24 * hour) alice alice_muted
     = Inr \<lparr>pr_muted = True, pr_muted_until = Some (30 * 24 * hour)\<rparr>
   \<and> mute_state no_fault (30 * 24 * hour) alice alice_muted = Inr no_preference_state"
proof -
  have y: "four_digit_year (30 * 24 * hour)" by code_simp
  note m = mute_lasts_until [OF set_mute_alice y, THEN conjunct1]
  have e: "ms_of (30 * 24 * hour) * millisecond = 30 * 24 * hour" by code_simp
  show ?thesis
    using m [of "29 * 24 * hour"] m [of "30 * 24 * hour"] unfolding e by (simp add: hour_def)
qed

text \<open>\<open>MuteState\<close> and \<open>Enabled\<close> agree: for a recipient with a usable address, a
  notification with a known reason is enabled exactly if the recipient is not muted, the
  reason's column is on and the project passes the lists; without a row everything but
  \<open>issue_updated\<close> is enabled.\<close>

theorem enabled_agrees_with_mute:
  assumes "usable_email (a_value a) \<noteq> []" "map_of preference_reason_columns reason = Some column"
  shows "\<exists>st. mute_state no_fault now a db = Inr st \<and>
    enabled no_fault now a k reason path db = Inr
      (\<not> pr_muted st \<and> (case preference_of (usable_email (a_value a)) (db_preferences db) of
         None \<Rightarrow> reason \<noteq> ''issue_updated''
       | Some r \<Rightarrow> column r \<and> project_allowed path (pf_project_include r) (pf_project_exclude r)))"
proof (cases "preference_of (usable_email (a_value a)) (db_preferences db)")
  case None
  have "no_fault 0 = None" using no_fault_none by blast
  with None assms show ?thesis
    by (simp add: mute_state_def enabled_def Let_def no_preference_state_def)
next
  case (Some r)
  note z = spec [OF no_fault_none, of 0]
  show ?thesis
    unfolding mute_state_eq [where f = no_fault, OF assms(1) z Some]
      enabled_row [where f = no_fault, OF assms(1) z assms(2) Some] Some
    by (simp add: no_preference_state_def)
qed

theorem enabled_agrees_with_mute_witness:
  "\<exists>st. mute_state no_fault second alice alice_muted = Inr st \<and> pr_muted st
    \<and> enabled no_fault second alice EventKindNote ''mention'' ''g/p'' alice_muted = Inr False"
proof -
  have u: "usable_email (a_value alice) \<noteq> []" by code_simp
  have c: "map_of preference_reason_columns ''mention'' = Some pf_mention"
    by (simp add: preference_reason_columns_def)
  have m: "map_sum id pr_muted (mute_state no_fault second alice alice_muted) = Inr True" by code_simp
  from enabled_agrees_with_mute [OF u c, of second alice_muted EventKindNote "''g/p''"] m
  show ?thesis by auto
qed

text \<open>When a mute has run out, switching a recipient off with \<open>UpsertPreference\<close> has no
  effect: the row keeps the old \<open>muted_until\<close>, and the recipient still counts as enabled.\<close>

theorem disabling_after_expired_mute_is_lost:
  assumes "set_mute f t0 a (Some t) db = (None, db1)" "four_digit_year t"
    "upsert_preference g t1 p db1 = (None, db2)" "usable_email (pref_email p) = usable_email (a_value a)"
    "\<not> pref_enabled p" "ms_of t * millisecond \<le> now"
  shows "\<not> muted now db2 (usable_email (a_value a))"
proof -
  have "usable_email (pref_email p) \<noteq> []" using assms(3) by (auto simp: upsert_preference_def Let_def split: if_splits)
  then have db2: "db_preferences db2 = write_preference (usable_email (a_value a)) (format_timestamp t1)
      (set_preference p (format_timestamp t1)) (db_preferences db1)"
    using assms(3,4) by (auto simp: upsert_preference_def Let_def split: option.splits)
  have "preference_of (usable_email (a_value a)) (db_preferences db2) =
      Some (set_preference p (format_timestamp t1) (case preference_of (usable_email (a_value a)) (db_preferences db1) of
        None \<Rightarrow> default_preference (usable_email (a_value a)) (format_timestamp t1) | Some r \<Rightarrow> r))"
    unfolding db2 by (subst preference_of_write) (simp_all add: set_preference_def)
  with set_mute_row(2) [OF assms(1)] assms(2,6) show ?thesis
    by (simp add: muted_def muted_at_def set_preference_def mute_expired_timestamp)
qed

definition alice_off :: preference where
  "alice_off = \<lparr>pref_email = ''alice@x.io'', pref_enabled = False, pref_ci_failed = True,
     pref_ci_recovered = True, pref_mr_review_requested = True, pref_mr_assigned = True,
     pref_mr_updated = True, pref_mr_approved = True, pref_mr_state_changed = True,
     pref_mr_comment = True, pref_mention = True, pref_issue_assigned = True,
     pref_issue_updated = True, pref_project_include = [], pref_project_exclude = []\<rparr>"

theorem disabling_after_expired_mute_is_lost_witness:
  "\<not> muted (31 * 24 * hour) (snd (upsert_preference no_fault (31 * 24 * hour) alice_off alice_muted))
      (usable_email (a_value alice))"
proof -
  have y: "four_digit_year (30 * 24 * hour)" by code_simp
  have "fst (upsert_preference no_fault (31 * 24 * hour) alice_off alice_muted) = None" by code_simp
  then have u: "upsert_preference no_fault (31 * 24 * hour) alice_off alice_muted
      = (None, snd (upsert_preference no_fault (31 * 24 * hour) alice_off alice_muted))"
    by (simp add: prod_eq_iff)
  show ?thesis
    by (rule disabling_after_expired_mute_is_lost [OF set_mute_alice y u]) code_simp+
qed

definition covers :: "string \<Rightarrow> string \<Rightarrow> bool" where
  "covers pattern project \<longleftrightarrow>
     project = pattern \<or> (\<exists>rest. project = trim_right pattern CHR ''/'' @ ''/'' @ rest)"

text \<open>The project lists: a project is allowed if the include list is empty or names it or a
  group above it, and the exclude list does neither; an event without a project passes.\<close>

theorem project_lists:
  "project_allowed path include exclude \<longleftrightarrow>
     trim_space path = []
     \<or> (split_project_list include = [] \<or> (\<exists>p \<in> set (split_project_list include). covers p (trim_space path)))
       \<and> \<not> (\<exists>p \<in> set (split_project_list exclude). covers p (trim_space path))"
proof -
  have t: "trim_space p = p" if "p \<in> set (split_project_list v)" for p v
  proof -
    from that obtain q where "p = trim_space q" unfolding split_project_list_def Let_def by auto
    then show ?thesis by simp
  qed
  have c: "trim_space p = x \<or> has_prefix x (trim_right (trim_space p) CHR ''/'' @ ''/'') \<longleftrightarrow> covers p x"
    if "p \<in> set (split_project_list v)" for p v x
    unfolding t [OF that] covers_def has_prefix_def prefix_def append_assoc by blast
  have m: "matches_project x (split_project_list v) \<longleftrightarrow> (\<exists>p \<in> set (split_project_list v). covers p x)" for x v
    unfolding matches_project_def list_ex_iff Let_def
    by (rule bex_cong [OF refl], rule c)
  show ?thesis
    unfolding project_allowed_def Let_def m by auto
qed

lemma find_replace:
  "find (\<lambda>r. key r = k) (map (\<lambda>y. if key y = key x then x else y) rows) =
   (if k = key x \<and> key x \<in> key ` set rows then Some x else find (\<lambda>r. key r = k) rows)"
  by (induction rows) auto

lemma find_snoc:
  "find P (rows @ [x]) = (case find P rows of None \<Rightarrow> if P x then Some x else None | Some r \<Rightarrow> Some r)"
  by (induction rows) auto

lemma find_upsert_pipeline_state:
  "find (\<lambda>r. psr_correlation_key r = k) (upsert_pipeline_state x rows) =
   (if k = psr_correlation_key x then Some x else find (\<lambda>r. psr_correlation_key r = k) rows)"
proof (cases "psr_correlation_key x \<in> psr_correlation_key ` set rows")
  case True
  then show ?thesis by (simp add: upsert_pipeline_state_def find_replace)
next
  case False
  then have "find (\<lambda>r. psr_correlation_key r = psr_correlation_key x) rows = None"
    unfolding find_None_iff by (metis imageI)
  with False show ?thesis
    by (auto simp: upsert_pipeline_state_def find_snoc split: option.split)
qed

text \<open>The pipeline state that was stored is read back, its time cut to the millisecond, and
  the states of other pipelines stay.\<close>

theorem pipeline_state_round_trip:
  assumes "put_pipeline_state f now st db = (None, db')"
    and "ps_updated_at st \<noteq> zero_time" "four_digit_year (ps_updated_at st)"
  shows "get_pipeline_state no_fault (ps_correlation_key st) db'
      = Inr (Some (st\<lparr>ps_updated_at := ms_of (ps_updated_at st) * millisecond\<rparr>))
    \<and> (\<forall>k. k \<noteq> ps_correlation_key st \<longrightarrow>
        get_pipeline_state no_fault k db' = get_pipeline_state no_fault k db)"
proof -
  let ?row = "pipeline_state_row_of st now"
  have db': "db_pipeline_states db' = upsert_pipeline_state ?row (db_pipeline_states db)"
    using assms(1) by (auto simp: put_pipeline_state_def split: option.splits)
  have key: "psr_correlation_key ?row = ps_correlation_key st" by (simp add: pipeline_state_row_of_def)
  note f = find_upsert_pipeline_state [of _ ?row "db_pipeline_states db", folded db', unfolded key]
  have "no_fault 0 = None" using no_fault_none by blast
  then show ?thesis
    using assms(2,3) unfolding get_pipeline_state_def f
    by (simp add: pipeline_state_row_of_def parse_format_timestamp)
qed

definition red_build :: pipeline_state where
  "red_build = \<lparr>ps_correlation_key = ''gitlab:1:main'', ps_status = ''failed'',
     ps_recipients = [alice], ps_updated_at = second + 1\<rparr>"

theorem pipeline_state_round_trip_witness:
  "get_pipeline_state no_fault ''gitlab:1:main'' (snd (put_pipeline_state no_fault 0 red_build empty_db))
     = Inr (Some (red_build\<lparr>ps_updated_at := second\<rparr>))"
proof -
  have "fst (put_pipeline_state no_fault 0 red_build empty_db) = None" by code_simp
  then have p: "put_pipeline_state no_fault 0 red_build empty_db
      = (None, snd (put_pipeline_state no_fault 0 red_build empty_db))"
    by (simp add: prod_eq_iff)
  have z: "ps_updated_at red_build \<noteq> zero_time" "four_digit_year (ps_updated_at red_build)"
    by code_simp+
  have e: "ms_of (ps_updated_at red_build) * millisecond = second" by code_simp
  from pipeline_state_round_trip [OF p z] show ?thesis unfolding e by (simp add: red_build_def)
qed

end
