(* ===== verification/RoutingStore.thy ===== *)
theory RoutingStore
  imports Routing StorePreference
begin

section \<open>Routing on the SQLite store\<close>

text \<open>
  The router as main.go wires it: identities, preferences and pipeline states from one
  SQLite store. The two locales state what routing relies on, a preference store that
  enables nothing for a blocked address and an identity store that invents no address; their
  lemmas hold for any such store, and the interpretations show them for SQLite. The rest
  follows the pipeline states from a failure to the recovery.
\<close>

definition sqlite_router ::
  "(nat \<Rightarrow> fault) \<Rightarrow> time \<Rightarrow> (string, unit) gomap \<Rightarrow> recipient_policy option \<Rightarrow> db \<Rightarrow> router" where
  "sqlite_router f now domains policy db =
     \<lparr>rt_resolve = Some (resolve (f 0) 0 db),
      rt_enabled = (\<lambda>a kind c path. enabled (f 1) now a kind c path db),
      rt_pipeline_state = Some (\<lambda>k. get_pipeline_state (f 2) k db),
      rt_domains = domains, rt_policy = policy, rt_now = now\<rparr>"

subsection \<open>The preference gate\<close>

locale preference_gate =
  fixes enabled_for :: "recipient_address \<Rightarrow> event_kind \<Rightarrow> string \<Rightarrow> string \<Rightarrow> bool res"
    and blocked :: "string \<Rightarrow> bool"
  assumes gate: "enabled_for a kind c path = Inr True \<Longrightarrow> c \<in> set reason_codes \<Longrightarrow> \<not> blocked (a_value a)"
begin

lemma blocked_get_nothing:
  assumes "map_order ord" "rt_enabled r = enabled_for" "route r ord event = Inr res"
    "d \<in> set (rr_deliveries res)"
  shows "\<not> blocked (a_value (n_recipient (d_notification d)))"
proof -
  note e = delivery_entitled [OF assms(1,3,4), unfolded Let_def]
  obtain x where x: "x \<in> set (n_reasons (d_notification d))"
    using e by (cases "n_reasons (d_notification d)") auto
  with e obtain items "is" where "entitled r event items (map fst (visit ord 0 items)) is
      (a_value (n_recipient (d_notification d))) (re_code x, re_text x)" by blast
  then obtain a where "a_value a = a_value (n_recipient (d_notification d))"
    "enabled_for a (ev_kind event) (re_code x) (p_path (ev_project event)) = Inr True"
    using assms(2) by (auto simp: entitled_def)
  moreover have "re_code x \<in> set reason_codes" using e x by auto
  ultimately show ?thesis using gate by metis
qed

end

lemma reason_codes_columns: "c \<in> set reason_codes \<Longrightarrow> map_of preference_reason_columns c \<noteq> None"
  by (auto simp: reason_codes_def preference_reason_columns_def)

interpretation sqlite_gate: preference_gate
  "\<lambda>a kind c path. enabled f now a kind c path db"
  "\<lambda>v. usable_email v = [] \<or> muted now db (usable_email v)" for f now db
  by unfold_locales (use enabled_unmuted reason_codes_columns in blast)

subsection \<open>Where addresses come from\<close>

locale identity_source =
  fixes resolve_all :: "identity list \<Rightarrow> identity list res" and mapped :: "string \<Rightarrow> bool"
  assumes source: "resolve_all ids = Inr out \<Longrightarrow> i \<in> set out \<Longrightarrow> email_address i = Some a \<Longrightarrow>
    mapped (a_value a) \<or> (\<exists>q \<in> set ids. email_address q \<noteq> None \<and> a_value (the (email_address q)) = a_value a)"
begin

lemma addresses_are_known:
  assumes "map_order ord" "rt_resolve r = Some resolve_all" "route r ord event = Inr res"
    "d \<in> set (rr_deliveries res)" "candidates_for r event = Inr items"
  shows "mapped (a_value (n_recipient (d_notification d)))
    \<or> (\<exists>item \<in> snd ` set items. \<exists>a. email_address (cand_identity item) = Some a
        \<and> a_value a = a_value (n_recipient (d_notification d)))"
  using assms(1,3,4)
proof (rule route_delivery)
  fix items' "is" item
  assume 1: "candidates_for r event = Inr items'" "resolver_output r (candidate_identities ord items') = Inr is"
    "d = delivery_of ord 3 event item" "\<exists>i \<in> set is. email_address i = Some (res_address item)"
  have eq: "items' = items" using 1(1) assms(5) by simp
  have d: "distinct (map fst items)" using candidates_for_ok [OF assms(5)] by (simp add: candidates_ok_def)
  have "resolve_all (candidate_identities ord items) = Inr is"
    using 1(2) assms(2) eq by (simp add: resolver_output_def)
  with 1(4) have "mapped (a_value (res_address item))
      \<or> (\<exists>q \<in> set (candidate_identities ord items). email_address q \<noteq> None
          \<and> a_value (the (email_address q)) = a_value (res_address item))"
    using source by blast
  moreover have "set (candidate_identities ord items) = cand_identity ` snd ` set items"
    by (simp add: candidate_identities_def set_visit [OF assms(1) d] image_comp)
  ultimately show ?thesis unfolding 1(3) by (fastforce simp del: delivery_of_simps(2,3))
qed

end

definition mapped_email :: "db \<Rightarrow> string \<Rightarrow> bool" where
  "mapped_email db v \<longleftrightarrow> (\<exists>row \<in> set (db_identities db). ir_enabled row \<and> to_lower (trim_space (ir_email row)) = v)"

lemma email_address_value: "email_address i = Some a \<Longrightarrow> a_value a = to_lower (trim_space (i_email i))"
  by (auto simp: email_address_def Let_def split: if_splits)

lemma email_address_cong:
  "to_lower (trim_space (i_email i)) = to_lower (trim_space (i_email j)) \<Longrightarrow>
   email_address i = None \<longleftrightarrow> email_address j = None"
  by (simp add: email_address_def Let_def)

lemma usable_email_eq: "usable_email v \<noteq> [] \<Longrightarrow> usable_email v = to_lower (trim_space v)"
  by (auto simp: usable_email_def Let_def split: if_splits)

lemma usable_email_normal [simp]: "to_lower (trim_space (usable_email v)) = usable_email v"
proof (cases "usable_email v = []")
  case False
  then show ?thesis using usable_email_eq [of "usable_email v"] by simp
qed simp

lemma resolved_identity_source:
  assumes "email_address (resolved_identity db q) = Some a"
  shows "mapped_email db (a_value a) \<or> email_address q \<noteq> None \<and> a_value (the (email_address q)) = a_value a"
proof -
  note v = email_address_value [OF assms]
  consider (row) row where "lookup_identity q (db_identities db) = Some row"
      "i_email (resolved_identity db q) = ir_email row"
    | (same) "to_lower (trim_space (i_email (resolved_identity db q))) = to_lower (trim_space (i_email q))"
  proof (cases "usable_email (i_email q) = []")
    case True
    show ?thesis
    proof (cases "lookup_identity q (db_identities db)")
      case None
      with True have "resolved_identity db q = q" by (simp add: resolved_identity_def)
      then show ?thesis by (intro that(2)) simp
    next
      case (Some row)
      show ?thesis
      proof (cases "i_provider_id q = [] \<and> i_username q = []")
        case True
        with \<open>usable_email (i_email q) = []\<close> have "resolved_identity db q = q" by (simp add: resolved_identity_def)
        then show ?thesis by (intro that(2)) simp
      next
        case False
        from that(1) [OF Some] show ?thesis
          using \<open>usable_email (i_email q) = []\<close> Some
          unfolding resolved_identity_def if_not_P [OF False] by (simp add: identity_of_row_def)
      qed
    qed
  next
    case False
    then have "i_email (resolved_identity db q) = usable_email (i_email q)"
      by (simp add: resolved_identity_def)
    then show ?thesis
      using usable_email_normal [of "i_email q"] usable_email_eq [OF False] by (intro that(2)) simp
  qed
  then show ?thesis
  proof cases
    case row
    with lookup_identity_Some [OF row(1)] v show ?thesis by (auto simp: mapped_email_def)
  next
    case same
    with email_address_cong [OF same] assms obtain b where b: "email_address q = Some b" by auto
    from email_address_value [OF b] v same b show ?thesis by simp
  qed
qed

interpretation sqlite_source: identity_source "resolve f 0 db" "mapped_email db" for f db
proof unfold_locales
  fix ids out i a
  assume "resolve f 0 db ids = Inr out" "i \<in> set out" "email_address i = Some a"
  with resolve_eq obtain q where "q \<in> set ids" "email_address (resolved_identity db q) = Some a" by fastforce
  with resolved_identity_source
  show "mapped_email db (a_value a) \<or> (\<exists>q \<in> set ids. email_address q \<noteq> None
      \<and> a_value (the (email_address q)) = a_value a)" by blast
qed

subsection \<open>Properties\<close>

definition review_alice :: canonical_event where
  "review_alice = mr_opened\<lparr>ev_event_key := ''e2'', ev_merge_request := Some (no_merge_request\<lparr>
     mr_author := dev ''ann'', mr_reviewers := [dev ''alice'', dev ''bob'']\<rparr>)\<rparr>"

definition alice_router :: router where
  "alice_router = sqlite_router (\<lambda>_. no_fault) second [] None alice_muted"

definition review_result :: route_result where
  "review_result = projr (route alice_router (\<lambda>_ ks. ks) review_alice)"

lemma route_review: "route alice_router (\<lambda>_ ks. ks) review_alice = Inr review_result"
proof -
  have "isl (route alice_router (\<lambda>_ ks. ks) review_alice) = False" by code_simp
  then show ?thesis unfolding review_result_def
    by (cases "route alice_router (\<lambda>_ ks. ks) review_alice") auto
qed

lemma review_recipients:
  "map (\<lambda>d. a_value (n_recipient (d_notification d))) (rr_deliveries review_result) = [''bob@x.io'']"
  by code_simp

text \<open>A muted recipient gets no delivery of any event, whatever the reason, and neither does
  an address that is not usable.\<close>

theorem muted_get_no_delivery:
  assumes "map_order ord" "route (sqlite_router f now domains policy db) ord event = Inr res"
    "d \<in> set (rr_deliveries res)"
  shows "let v = usable_email (a_value (n_recipient (d_notification d))) in v \<noteq> [] \<and> \<not> muted now db v"
  using sqlite_gate.blocked_get_nothing [OF assms(1) _ assms(2,3), of "f 1" now db]
  by (simp add: sqlite_router_def Let_def)

theorem muted_get_no_delivery_witness:
  "length (rr_deliveries review_result) = 1 \<and> muted second alice_muted ''alice@x.io''
   \<and> list_all (\<lambda>d. \<not> muted second alice_muted (usable_email (a_value (n_recipient (d_notification d)))))
        (rr_deliveries review_result)"
proof -
  have "length (rr_deliveries review_result) = 1"
    using arg_cong [OF review_recipients, of length] by simp
  moreover have "muted second alice_muted ''alice@x.io''" by code_simp
  ultimately show ?thesis
    using muted_get_no_delivery [OF map_order_id route_review [unfolded alice_router_def]]
    by (simp add: Let_def list_all_iff)
qed

text \<open>No address is invented: a delivery goes to the mapped address of an enabled identity
  row, or to the address that a person named in the event, or a recipient of the failed
  pipeline, carries.\<close>

theorem recipients_are_known:
  assumes "map_order ord" "route (sqlite_router f now domains policy db) ord event = Inr res"
    "d \<in> set (rr_deliveries res)"
  shows "mapped_email db (a_value (n_recipient (d_notification d)))
    \<or> (\<exists>items. candidates_for (sqlite_router f now domains policy db) event = Inr items
        \<and> (\<exists>item \<in> snd ` set items. \<exists>a. email_address (cand_identity item) = Some a
            \<and> a_value a = a_value (n_recipient (d_notification d))))"
proof -
  obtain items where "candidates_for (sqlite_router f now domains policy db) event = Inr items"
    using route_parts [OF assms(2)] by blast
  with sqlite_source.addresses_are_known [OF assms(1) _ assms(2,3) this, of "f 0" db]
  show ?thesis by (auto simp: sqlite_router_def)
qed

theorem recipients_are_known_witness:
  "\<exists>items. candidates_for alice_router review_alice = Inr items
    \<and> (\<exists>item \<in> snd ` set items. \<exists>a. email_address (cand_identity item) = Some a \<and> a_value a = ''bob@x.io'')"
proof -
  obtain d where d: "d \<in> set (rr_deliveries review_result)" "a_value (n_recipient (d_notification d)) = ''bob@x.io''"
    using review_recipients by (cases "rr_deliveries review_result") auto
  have "\<not> mapped_email alice_muted ''bob@x.io''" by code_simp
  with recipients_are_known [OF map_order_id route_review [unfolded alice_router_def] d(1)] d(2)
  show ?thesis by (simp add: alice_router_def)
qed

subsection \<open>From a failed pipeline to its recovery\<close>

lemma put_candidate_lookup:
  "map_of (put_candidate i c t s items) k =
     (if k = candidate_key i then Some
        (let item = (case map_of items k of
            None \<Rightarrow> \<lparr>cand_identity = i, cand_reasons = [], cand_allow_self = False\<rparr> | Some item \<Rightarrow> item)
         in \<lparr>cand_identity = cand_identity item, cand_reasons = AList.update c t (cand_reasons item),
             cand_allow_self = (cand_allow_self item \<or> s)\<rparr>)
      else map_of items k)"
  by (simp add: put_candidate_def Let_def update_conv')

text \<open>A candidate of a recovery: an identity that is only an address, with the one reason.\<close>

definition recovery_candidate :: "recipient_address list \<Rightarrow> string \<times> candidate \<Rightarrow> bool" where
  "recovery_candidate as entry \<longleftrightarrow>
     (\<exists>a \<in> set as. a_kind a \<noteq> [] \<and> a_value a \<noteq> []
        \<and> cand_identity (snd entry) = no_identity\<lparr>i_email := to_lower (trim_space (a_value a))\<rparr>
        \<and> fst entry = candidate_key (cand_identity (snd entry)))
     \<and> fst ` set (cand_reasons (snd entry)) = {ReasonCIRecovered} \<and> cand_allow_self (snd entry)"

definition recovery_items :: "recipient_address list \<Rightarrow> candidates" where
  "recovery_items as = fold (\<lambda>a. add_address a ReasonCIRecovered
     ''The pipeline that failed has recovered.'' True) as []"

definition address_key :: "recipient_address \<Rightarrow> string" where
  "address_key a = ''email:'' @ to_lower (trim_space (a_value a))"

lemma candidate_key_address:
  "candidate_key (no_identity\<lparr>i_email := to_lower (trim_space (a_value a))\<rparr>) = address_key a"
  by (simp add: candidate_key_def no_identity_def address_key_def)

lemma recovery_items_spec:
  "(\<forall>e \<in> set (recovery_items as). recovery_candidate as e)
   \<and> (\<forall>a \<in> set as. a_kind a \<noteq> [] \<and> a_value a \<noteq> [] \<longrightarrow> map_of (recovery_items as) (address_key a) \<noteq> None)"
proof -
  let ?t = "''The pipeline that failed has recovered.''"
  have "(\<forall>e \<in> set items. recovery_candidate all e) \<and> distinct (map fst items) \<Longrightarrow> set as \<subseteq> set all \<Longrightarrow>
    (\<forall>e \<in> set (fold (\<lambda>a. add_address a ReasonCIRecovered ?t True) as items). recovery_candidate all e)
    \<and> (\<forall>k. map_of items k \<noteq> None \<or> (\<exists>a \<in> set as. a_kind a \<noteq> [] \<and> a_value a \<noteq> [] \<and> k = address_key a) \<longrightarrow>
        map_of (fold (\<lambda>a. add_address a ReasonCIRecovered ?t True) as items) k \<noteq> None)" for all items
  proof (induction as arbitrary: items)
    case (Cons a as)
    let ?items = "add_address a ReasonCIRecovered ?t True items"
    have 1: "(\<forall>e \<in> set ?items. recovery_candidate all e) \<and> distinct (map fst ?items)
      \<and> (\<forall>k. map_of items k \<noteq> None \<or> a_kind a \<noteq> [] \<and> a_value a \<noteq> [] \<and> k = address_key a \<longrightarrow> map_of ?items k \<noteq> None)"
    proof (cases "a_kind a = [] \<or> a_value a = []")
      case True
      then show ?thesis using Cons.prems by (auto simp: add_address_def)
    next
      case False
      define i where "i = no_identity\<lparr>i_email := to_lower (trim_space (a_value a))\<rparr>"
      have it: "?items = put_candidate i ReasonCIRecovered ?t True items"
        using False by (simp add: add_address_def i_def)
      define new where "new = (let item = (case map_of items (candidate_key i) of
            None \<Rightarrow> \<lparr>cand_identity = i, cand_reasons = [], cand_allow_self = False\<rparr> | Some item \<Rightarrow> item)
         in \<lparr>cand_identity = cand_identity item, cand_reasons = AList.update ReasonCIRecovered ?t (cand_reasons item),
             cand_allow_self = (cand_allow_self item \<or> True)\<rparr>)"
      have up: "?items = AList.update (candidate_key i) new items"
        by (simp add: it put_candidate_def Let_def new_def)
      have rn: "recovery_candidate all (candidate_key i, new)"
      proof (cases "map_of items (candidate_key i)")
        case None
        then show ?thesis using False Cons.prems(2)
          by (auto simp: new_def recovery_candidate_def i_def)
      next
        case (Some old)
        then have "recovery_candidate all (candidate_key i, old)" using Cons.prems(1) map_of_SomeD by fast
        with Some show ?thesis by (auto simp: new_def recovery_candidate_def)
      qed
      have key: "candidate_key i = address_key a" unfolding i_def by (rule candidate_key_address)
      show ?thesis
        using Cons.prems(1) rn unfolding up by (auto simp: set_update_distinct update_conv' key)
    qed
    have "set as \<subseteq> set all" using Cons.prems(2) by simp
    from Cons.IH [OF _ this, of ?items] 1 show ?case by auto
  qed simp
  from this [of "[]" as] show ?thesis unfolding recovery_items_def by auto
qed

lemma normal_idem [simp]: "to_lower (trim_space (to_lower (trim_space v))) = to_lower (trim_space v)"
  by (simp add: trim_space_to_lower)

lemma resolved_email_only:
  "i_provider_id q = [] \<Longrightarrow> i_username q = [] \<Longrightarrow> i_email q = to_lower (trim_space v) \<Longrightarrow>
   resolved_identity db q = q"
  using usable_email_eq [of "i_email q"] by (cases q) (simp add: resolved_identity_def)

lemma candidates_for_recovery:
  assumes "ev_kind event = EventKindPipeline" "ev_pipeline event = Some pl" "pl_status pl = ''success''"
    "rt_pipeline_state r = Some get" "get (pipeline_correlation_key event) = Inr (Some st)"
    "ps_status st = ''failed''"
  shows "candidates_for r event = Inr (recovery_items (ps_recipients st))"
  using assms by (simp add: candidates_for_def route_pipeline_def recovery_items_def)

lemma sqlite_router_simps [simp]:
  "rt_resolve (sqlite_router f now domains policy db) = Some (resolve (f 0) 0 db)"
  "rt_enabled (sqlite_router f now domains policy db) = (\<lambda>a kind c path. enabled (f 1) now a kind c path db)"
  "rt_pipeline_state (sqlite_router f now domains policy db) = Some (\<lambda>k. get_pipeline_state (f 2) k db)"
  "rt_domains (sqlite_router f now domains policy db) = domains"
  "rt_policy (sqlite_router f now domains policy db) = policy"
  "rt_now (sqlite_router f now domains policy db) = now"
  by (simp_all add: sqlite_router_def)

lemma sqlite_resolver_output:
  "resolver_output (sqlite_router f now domains policy db) ids = Inr is \<Longrightarrow> is = map (resolved_identity db) ids"
  by (simp add: resolver_output_def resolve_eq)

lemma recovery_candidateE:
  assumes "recovery_candidate as (k, cand)"
  obtains a where "a \<in> set as" "cand_identity cand = no_identity\<lparr>i_email := to_lower (trim_space (a_value a))\<rparr>"
    "k = address_key a"
proof -
  from assms obtain a where a: "a \<in> set as" "k = candidate_key (cand_identity cand)"
    "cand_identity cand = no_identity\<lparr>i_email := to_lower (trim_space (a_value a))\<rparr>"
    unfolding recovery_candidate_def fst_conv snd_conv by (elim conjE bexE) blast
  show ?thesis using a(1,3) a(2) [unfolded a(3) candidate_key_address] by (rule that)
qed

lemma singleton_list: "distinct xs \<Longrightarrow> set xs = {x} \<Longrightarrow> xs = [x]"
  by (cases xs; cases "tl xs") auto

lemma recovery_delivery:
  assumes "map_order ord" "candidates_for r event = Inr (recovery_items as)" "route r ord event = Inr res"
    "r = sqlite_router f now domains policy db" "d \<in> set (rr_deliveries res)"
  shows "map re_code (n_reasons (d_notification d)) = [ReasonCIRecovered]"
    "\<exists>a \<in> set as. a_value (n_recipient (d_notification d)) = to_lower (trim_space (a_value a))"
proof -
  have 1: "map re_code (n_reasons (d_notification d)) = [ReasonCIRecovered]
    \<and> (\<exists>a \<in> set as. a_value (n_recipient (d_notification d)) = to_lower (trim_space (a_value a)))"
    using assms(1,3,5)
  proof (rule route_delivery)
    fix items "is" item
    assume 1: "candidates_for r event = Inr items" "resolver_output r (candidate_identities ord items) = Inr is"
      "d = delivery_of ord 3 event item" "res_reasons item \<noteq> []"
      "\<exists>i \<in> set is. email_address i = Some (res_address item)" "distinct (map fst (res_reasons item))"
      "\<forall>reason \<in> set (res_reasons item).
         entitled r event items (map fst (visit ord 0 items)) is (a_value (res_address item)) reason"
    have items: "items = recovery_items as" using 1(1) assms(2) by simp
    have dist: "distinct (map fst items)" using candidates_for_ok [OF 1(1)] by (simp add: candidates_ok_def)
    have spec: "recovery_candidate as e" if "e \<in> set items" for e
      using that recovery_items_spec [of as] unfolding items by blast
    have "fst reason = ReasonCIRecovered" if reason: "reason \<in> set (res_reasons item)" for reason
    proof -
      obtain i cand where "find_candidate items (map fst (visit ord 0 items)) i = Some cand" "reason \<in> set (cand_reasons cand)"
        using 1(7) reason unfolding entitled_def by blast
      moreover then obtain k where "(k, cand) \<in> set items"
        by (auto simp: find_candidate_def dest!: map_of_SomeD split: option.splits)
      ultimately show ?thesis using spec by (fastforce simp: recovery_candidate_def)
    qed
    then have "\<forall>c \<in> set (map fst (res_reasons item)). c = ReasonCIRecovered" by auto
    with 1(4) have codes: "set (map fst (res_reasons item)) = {ReasonCIRecovered}"
      by (cases "res_reasons item") auto
    note dr = delivery_of_reasons [OF assms(1) 1(6) refl, of 3 event]
    have "set (map re_code (n_reasons (d_notification d)))
        = fst ` (\<lambda>x. (re_code x, re_text x)) ` set (n_reasons (d_notification d))" by (simp add: image_image)
    also have "\<dots> = {ReasonCIRecovered}" using codes unfolding 1(3) dr(3) by simp
    finally have 2: "map re_code (n_reasons (d_notification d)) = [ReasonCIRecovered]"
      by (rule singleton_list [OF dr(2) [folded 1(3)]])
    obtain i where i: "i \<in> set is" "email_address i = Some (res_address item)" using 1(5) by blast
    have "is = map (resolved_identity db) (candidate_identities ord items)"
      by (rule sqlite_resolver_output [OF 1(2) [unfolded assms(4)]])
    with i(1) obtain q where q: "i = resolved_identity db q" "q \<in> set (candidate_identities ord items)" by auto
    have "set (candidate_identities ord items) = cand_identity ` snd ` set items"
      by (simp add: candidate_identities_def set_visit [OF assms(1) dist] image_comp)
    with q(2) obtain e where e: "e \<in> set items" "q = cand_identity (snd e)" by auto
    obtain k cand where kc: "e = (k, cand)" by fastforce
    from spec [OF e(1), unfolded kc] obtain a where a: "a \<in> set as"
      "q = no_identity\<lparr>i_email := to_lower (trim_space (a_value a))\<rparr>"
      unfolding e(2) kc snd_conv by (rule recovery_candidateE)
    have "a_value (res_address item) = to_lower (trim_space (a_value a))"
      using email_address_value [OF i(2)] resolved_email_only [of q "a_value a" db] unfolding q(1)
      by (simp add: a(2) no_identity_def)
    with a(1) 2 show ?thesis unfolding 1(3) by auto
  qed
  from 1 show "map re_code (n_reasons (d_notification d)) = [ReasonCIRecovered]"
    "\<exists>a \<in> set as. a_value (n_recipient (d_notification d)) = to_lower (trim_space (a_value a))" by blast+
qed

lemma allows_cong: "a_value a = a_value b \<Longrightarrow> allows p a = allows p b"
  by (cases p) (simp_all add: allows_def)

lemma recovery_delivered:
  assumes "map_order ord" "candidates_for r event = Inr (recovery_items as)" "route r ord event = Inr res"
    "r = sqlite_router f now domains policy db" "a \<in> set as" "a_kind a \<noteq> []"
    "email_address (no_identity\<lparr>i_email := to_lower (trim_space (a_value a))\<rparr>) = Some b"
    "allowed r (a_value b)" "allows policy b"
    "enabled (f 1) now b (ev_kind event) ReasonCIRecovered (p_path (ev_project event)) db = Inr True"
  shows "\<exists>d \<in> set (rr_deliveries res). a_value (n_recipient (d_notification d)) = a_value b
    \<and> ReasonCIRecovered \<in> set (map re_code (n_reasons (d_notification d)))"
proof -
  define q where "q = no_identity\<lparr>i_email := to_lower (trim_space (a_value a))\<rparr>"
  have ro: "resolved_identity db q = q"
    by (rule resolved_email_only) (simp_all add: q_def no_identity_def)
  have "a_value a \<noteq> []" using email_address_ok [OF assms(7)] email_address_value [OF assms(7)] by auto
  then have "map_of (recovery_items as) (address_key a) \<noteq> None"
    using recovery_items_spec [of as] assms(5,6) by blast
  then obtain cand where cand: "map_of (recovery_items as) (address_key a) = Some cand" by auto
  have rc: "recovery_candidate as (address_key a, cand)"
    using recovery_items_spec [of as] map_of_SomeD [OF cand] by blast
  then obtain a' where a': "cand_identity cand = no_identity\<lparr>i_email := to_lower (trim_space (a_value a'))\<rparr>"
    "address_key a = address_key a'" by (rule recovery_candidateE)
  from a'(2) have "to_lower (trim_space (a_value a)) = to_lower (trim_space (a_value a'))" by (simp add: address_key_def)
  then have ci: "cand_identity cand = q" unfolding a'(1) q_def by simp
  from assms(3) obtain "is" where out: "resolver_output r (candidate_identities ord (recovery_items as)) = Inr is"
    using assms(2) by (rule_tac route_parts) auto
  have dist: "distinct (map fst (recovery_items as))"
    using candidates_for_ok [OF assms(2)] by (simp add: candidates_ok_def)
  have "q \<in> set (candidate_identities ord (recovery_items as))"
    using map_of_SomeD [OF cand] ci
    by (force simp: candidate_identities_def set_visit [OF assms(1) dist])
  then have i: "resolved_identity db q \<in> set is"
    unfolding sqlite_resolver_output [OF out [unfolded assms(4)]] by simp
  have em: "email_address (resolved_identity db q) = Some b" unfolding ro unfolding q_def by (rule assms(7))
  have "candidate_key (resolved_identity db q) = address_key a" unfolding ro unfolding q_def by (rule candidate_key_address)
  then have fc: "find_candidate (recovery_items as) ks (resolved_identity db q) = Some cand" for ks
    using cand by (simp add: find_candidate_def)
  have cr: "ReasonCIRecovered \<in> fst ` set (cand_reasons cand)" "cand_allow_self cand"
    using rc by (auto simp: recovery_candidate_def)
  show ?thesis
  proof (rule routing_complete [OF assms(1,3,2) out i em assms(8) fc _ cr(1)])
    show "cand_allow_self cand \<or> \<not> same_identity (ev_actor event) (resolved_identity db q)" using cr(2) ..
    show "rt_enabled r b (ev_kind event) ReasonCIRecovered (p_path (ev_project event)) = Inr True"
      using assms(4,10) by simp
    show "\<forall>c. a_value c = a_value b \<longrightarrow> allows (rt_policy r) c"
    proof (intro allI impI)
      fix c :: recipient_address assume "a_value c = a_value b"
      from allows_cong [OF this, of policy] assms(4,9) show "allows (rt_policy r) c" by simp
    qed
  qed
qed

definition main_event :: "string \<Rightarrow> string \<Rightarrow> canonical_event" where
  "main_event key status = no_event\<lparr>ev_event_key := key, ev_kind := EventKindPipeline,
     ev_project := no_project\<lparr>p_id := ''7''\<rparr>,
     ev_pipeline := Some (no_pipeline\<lparr>pl_status := status, pl_ref := ''main'', pl_commit_author := dev ''cyd''\<rparr>)\<rparr>"

definition red_main :: db where
  "red_main = snd (put_pipeline_state no_fault second \<lparr>ps_correlation_key = ''gitlab:7:ref:main'',
     ps_status = ''failed'', ps_recipients = [\<lparr>a_kind = AddressKindEmail, a_value = ''cyd@x.io'', a_display_name = []\<rparr>],
     ps_updated_at = second\<rparr> empty_db)"

definition green_result :: route_result where
  "green_result = projr (route (sqlite_router (\<lambda>_. no_fault) second [] None red_main) (\<lambda>_ ks. ks) (main_event ''e9'' ''success''))"

lemma route_green:
  "route (sqlite_router (\<lambda>_. no_fault) second [] None red_main) (\<lambda>_ ks. ks) (main_event ''e9'' ''success'') = Inr green_result"
proof -
  have "isl (route (sqlite_router (\<lambda>_. no_fault) second [] None red_main) (\<lambda>_ ks. ks) (main_event ''e9'' ''success'')) = False"
    by code_simp
  then show ?thesis unfolding green_result_def
    by (cases "route (sqlite_router (\<lambda>_. no_fault) second [] None red_main) (\<lambda>_ ks. ks) (main_event ''e9'' ''success'')") auto
qed

text \<open>C5: a recovery is told to those who were told of the failure, and to nobody else: when a
  pipeline succeeds whose stored state is a failure, every delivery has the one reason
  \<open>ci_recovered\<close> and goes to the normalised address of a stored recipient, and every stored
  recipient with a deliverable, allowed address for which the reason is enabled gets one.\<close>

theorem recovery_reaches_the_notified:
  assumes "map_order ord" "ev_kind event = EventKindPipeline" "ev_pipeline event = Some pl" "pl_status pl = ''success''"
    "get_pipeline_state (f 2) (pipeline_correlation_key event) db = Inr (Some st)" "ps_status st = ''failed''"
    "route (sqlite_router f now domains policy db) ord event = Inr res"
  shows "(\<forall>d \<in> set (rr_deliveries res). map re_code (n_reasons (d_notification d)) = [ReasonCIRecovered]
      \<and> (\<exists>a \<in> set (ps_recipients st). a_value (n_recipient (d_notification d)) = to_lower (trim_space (a_value a))))
    \<and> (\<forall>a \<in> set (ps_recipients st). \<forall>b. a_kind a \<noteq> []
        \<and> email_address (no_identity\<lparr>i_email := to_lower (trim_space (a_value a))\<rparr>) = Some b
        \<and> allowed (sqlite_router f now domains policy db) (a_value b) \<and> allows policy b
        \<and> enabled (f 1) now b EventKindPipeline ReasonCIRecovered (p_path (ev_project event)) db = Inr True \<longrightarrow>
        (\<exists>d \<in> set (rr_deliveries res). a_value (n_recipient (d_notification d)) = a_value b))"
proof -
  have c: "candidates_for (sqlite_router f now domains policy db) event = Inr (recovery_items (ps_recipients st))"
    by (rule candidates_for_recovery [where get = "\<lambda>k. get_pipeline_state (f 2) k db" and pl = pl]) (simp_all add: assms)
  note from_stored = recovery_delivery [OF assms(1) c assms(7) refl]
  note to_stored = recovery_delivered [OF assms(1) c assms(7) refl, unfolded assms(2)]
  show ?thesis using from_stored to_stored by blast
qed

theorem recovery_reaches_the_notified_witness:
  "\<exists>d \<in> set (rr_deliveries green_result). a_value (n_recipient (d_notification d)) = ''cyd@x.io''"
proof -
  define st where "st = \<lparr>ps_correlation_key = ''gitlab:7:ref:main'',
     ps_status = ''failed'', ps_recipients = [\<lparr>a_kind = AddressKindEmail, a_value = ''cyd@x.io'', a_display_name = []\<rparr>],
     ps_updated_at = second\<rparr>"
  define b where "b = \<lparr>a_kind = AddressKindEmail, a_value = ''cyd@x.io'', a_display_name = []\<rparr>"
  have p: "ev_pipeline (main_event ''e9'' ''success'')
      = Some (no_pipeline\<lparr>pl_status := ''success'', pl_ref := ''main'', pl_commit_author := dev ''cyd''\<rparr>)"
    by (simp add: main_event_def)
  have g: "get_pipeline_state no_fault (pipeline_correlation_key (main_event ''e9'' ''success'')) red_main = Inr (Some st)"
    unfolding st_def by code_simp
  have e: "email_address (no_identity\<lparr>i_email := to_lower (trim_space ''cyd@x.io'')\<rparr>) = Some b" unfolding b_def by code_simp
  have n: "enabled no_fault second b EventKindPipeline ReasonCIRecovered (p_path (ev_project (main_event ''e9'' ''success''))) red_main = Inr True"
    unfolding b_def by code_simp
  have k: "ev_kind (main_event ''e9'' ''success'') = EventKindPipeline" by (simp add: main_event_def)
  have s: "ps_recipients st = [b]" "ps_status st = ''failed''" "a_kind b \<noteq> []" "a_value b = ''cyd@x.io''"
    by (simp_all add: st_def b_def)
  have "allowed (sqlite_router (\<lambda>_. no_fault) second [] None red_main) (a_value b)" "allows None b"
    by (simp_all add: allowed_def allows_def)
  then show ?thesis
    using recovery_reaches_the_notified [OF map_order_id k p _ g s(2) route_green] e n s by auto
qed

subsection \<open>Mentions without a provider\<close>

text \<open>Candidates as \<open>extractMentions\<close> makes them: a username and nothing else.\<close>

definition bare_username :: "identity \<Rightarrow> bool" where
  "bare_username i \<longleftrightarrow> i_provider i = [] \<and> i_provider_id i = [] \<and> i_username i \<noteq> [] \<and> i_email i = []"

lemma lookup_by_username:
  "lookup_identity q rows = Some row \<Longrightarrow> i_provider_id q = [] \<Longrightarrow> ir_username row = to_lower (i_username q)"
  by (auto simp: lookup_identity_def Let_def dest!: latest_in)

lemma bare_not_found:
  assumes "candidates_ok self items" "\<forall>e \<in> set items. bare_username (cand_identity (snd e))"
    "bare_username q" "email_address (resolved_identity db q) = Some a"
  shows "find_candidate items ks (resolved_identity db q) = None"
proof -
  have u: "usable_email (i_email q) = []" using assms(3) by (simp add: bare_username_def usable_email_def trim_space_def)
  obtain row where row: "lookup_identity q (db_identities db) = Some row"
  proof (cases "lookup_identity q (db_identities db)")
    case None
    with u have "resolved_identity db q = q" by (simp add: resolved_identity_def)
    with assms(3,4) have False by (simp add: bare_username_def email_address_def trim_space_def)
    then show ?thesis ..
  qed (rule that)
  define i where "i = resolved_identity db q"
  have i: "i_provider i = ProviderGitLab" "i_provider_id i = []" "i_username i = to_lower (i_username q)"
    using u row lookup_by_username [OF row] assms(3)
    by (auto simp: i_def resolved_identity_def identity_of_row_def provider_or_default_def bare_username_def)
  have key: "candidate_key i = ''username:gitlab:'' @ to_lower (i_username i)"
    using i assms(3) by (simp add: candidate_key_def bare_username_def)
  have c: "candidate_ok self e" "bare_username (cand_identity (snd e))" if "e \<in> set items" for e
    using that assms(1,2) by (auto simp: candidates_ok_def)
  have "map_of items (candidate_key i) = None"
  proof (rule ccontr)
    assume "map_of items (candidate_key i) \<noteq> None"
    then obtain cand where "(candidate_key i, cand) \<in> set items" by (auto dest: map_of_SomeD)
    from c [OF this] show False unfolding key by (simp add: candidate_ok_def bare_username_def candidate_key_def)
  qed
  moreover have "\<not> same_identity (cand_identity cand) i" if "map_of items k = Some cand" for k cand
    using c(2) [OF map_of_SomeD [OF that]] i by (simp add: same_identity_def bare_username_def)
  then have "find (\<lambda>k. case map_of items k of None \<Rightarrow> False
      | Some item \<Rightarrow> same_identity (cand_identity item) i) ks = None"
    by (auto simp: find_None_iff split: option.splits)
  ultimately show ?thesis by (simp add: find_candidate_def i_def [symmetric])
qed

text \<open>A person who is only mentioned is never told, though the store maps the username: the
  decoder gives a mention no provider, the store answers with provider gitlab, and the router
  does not match the two.\<close>

theorem mapped_mention_is_lost:
  assumes "map_order ord" "candidates_for (sqlite_router f now domains policy db) event = Inr items"
    "\<forall>e \<in> set items. bare_username (cand_identity (snd e))"
    "route (sqlite_router f now domains policy db) ord event = Inr res"
  shows "rr_deliveries res = []"
proof (rule ccontr)
  assume "rr_deliveries res \<noteq> []"
  then obtain d where d: "d \<in> set (rr_deliveries res)" by (cases "rr_deliveries res") auto
  from assms(1,4) d show False
  proof (rule route_delivery)
    fix items' "is" item
    let ?r = "sqlite_router f now domains policy db"
    assume 1: "candidates_for ?r event = Inr items'" "resolver_output ?r (candidate_identities ord items') = Inr is"
      "res_reasons item \<noteq> []"
      "\<forall>reason \<in> set (res_reasons item).
         entitled ?r event items' (map fst (visit ord 0 items')) is (a_value (res_address item)) reason"
    have items: "items' = items" using 1(1) assms(2) by simp
    note ok = candidates_for_ok [OF 1(1)]
    have dist: "distinct (map fst items')" using ok by (simp add: candidates_ok_def)
    obtain reason where "reason \<in> set (res_reasons item)" using 1(3) by (cases "res_reasons item") auto
    with 1(4) obtain i a cand where i: "i \<in> set is" "email_address i = Some a"
      "find_candidate items' (map fst (visit ord 0 items')) i = Some cand" unfolding entitled_def by blast
    from i(1) obtain q where q: "q \<in> set (candidate_identities ord items')" "i = resolved_identity db q"
      unfolding sqlite_resolver_output [OF 1(2)] by auto
    have "set (candidate_identities ord items') = cand_identity ` snd ` set items'"
      by (simp add: candidate_identities_def set_visit [OF assms(1) dist] image_comp)
    with q(1) assms(3) have "bare_username q" unfolding items by auto
    with bare_not_found [OF ok _ _ i(2) [unfolded q(2)]] assms(3) i(3) show False
      unfolding items q(2) by simp
  qed
qed

definition mentioned_bob :: canonical_event where
  "mentioned_bob = mr_opened\<lparr>ev_mentions := [no_identity\<lparr>i_username := ''bob''\<rparr>],
     ev_merge_request := Some (no_merge_request\<lparr>mr_author := dev ''ann''\<rparr>)\<rparr>"

definition lost_result :: route_result where
  "lost_result = projr (route (sqlite_router (\<lambda>_. no_fault) second [] None with_bob) (\<lambda>_ ks. ks) mentioned_bob)"

theorem mapped_mention_is_lost_witness:
  "mapped_email with_bob ''bob@example.com'' \<and> rr_deliveries lost_result = []"
proof -
  let ?r = "sqlite_router (\<lambda>_. no_fault) second [] None with_bob"
  have m: "mapped_email with_bob ''bob@example.com''" by code_simp
  have c: "candidates_for ?r mentioned_bob = Inr (route_merge_request mentioned_bob)"
    by (simp add: candidates_for_def mentioned_bob_def mr_opened_def)
  have b: "\<forall>e \<in> set (route_merge_request mentioned_bob). bare_username (cand_identity (snd e))" by code_simp
  have "isl (route ?r (\<lambda>_ ks. ks) mentioned_bob) = False" by code_simp
  then have "route ?r (\<lambda>_ ks. ks) mentioned_bob = Inr lost_result"
    unfolding lost_result_def by (cases "route ?r (\<lambda>_ ks. ks) mentioned_bob") auto
  from mapped_mention_is_lost [OF map_order_id c b this] m show ?thesis by blast
qed

end
