(* ===== verification/Outbox.thy ===== *)
theory Outbox
  imports Store
begin

section \<open>The outbox: what its operations keep and what they promise\<close>

text \<open>
  Lemmas about the operations of store.go on the tables \<open>events\<close> and \<open>deliveries\<close>: the
  invariant of the tables, the effect of each operation on the row of a delivery key
  (\<open>delivery_at\<close>), and the properties of claiming, retrying and enqueueing.
\<close>

subsection \<open>The row of a key\<close>

definition delivery_at :: "db \<Rightarrow> string \<Rightarrow> delivery_row option" where
  "delivery_at db k = find (\<lambda>r. dr_key r = k) (db_deliveries db)"

definition keys :: "delivery_row list \<Rightarrow> string list" where
  "keys rows = map dr_key rows"

lemma find_key_Some: "find (\<lambda>r. dr_key r = k) rows = Some r \<Longrightarrow> r \<in> set rows \<and> dr_key r = k"
  by (auto simp: find_Some_iff)

lemma find_key_None: "find (\<lambda>r. dr_key r = k) rows = None \<longleftrightarrow> k \<notin> dr_key ` set rows"
  by (auto simp: find_None_iff)

lemma find_key_distinct:
  "distinct (keys rows) \<Longrightarrow> r \<in> set rows \<Longrightarrow> find (\<lambda>x. dr_key x = dr_key r) rows = Some r"
  by (induction rows) (auto simp: keys_def image_iff)

lemma find_key_map:
  "(\<And>r. dr_key (g r) = dr_key r) \<Longrightarrow>
   find (\<lambda>r. dr_key r = k) (map g rows) = map_option g (find (\<lambda>r. dr_key r = k) rows)"
  by (induction rows) auto

lemma keys_map: "(\<And>r. dr_key (g r) = dr_key r) \<Longrightarrow> keys (map g rows) = keys rows"
  by (simp add: keys_def)

lemma find_key_append:
  "find (\<lambda>r. dr_key r = k) (xs @ ys) =
   (case find (\<lambda>r. dr_key r = k) xs of None \<Rightarrow> find (\<lambda>r. dr_key r = k) ys | Some r \<Rightarrow> Some r)"
  by (induction xs) auto

lemma dr_key_claim_row [simp]: "dr_key (claim_row now lease r) = dr_key r"
  by (simp add: claim_row_def)

lemma keys_update [simp]:
  "(\<And>r. dr_key (g r) = dr_key r) \<Longrightarrow> keys (update_deliveries k g rows) = keys rows"
  by (simp add: keys_def update_deliveries_def)

lemma find_key_update:
  assumes "\<And>r. dr_key (g r) = dr_key r"
  shows "find (\<lambda>r. dr_key r = k') (update_deliveries k g rows) =
    (if k' = k then map_option g (find (\<lambda>r. dr_key r = k) rows)
     else find (\<lambda>r. dr_key r = k') rows)"
  unfolding update_deliveries_def using assms by (induction rows) auto

subsection \<open>The invariant\<close>

text \<open>
  A row that a worker holds has a lease and has been attempted; a row that waits for a
  further attempt has attempts left; a failed row is not retryable (so the clause for
  failed rows in \<open>Claim\<close> never applies to rows this program wrote).
\<close>

definition row_ok :: "store_config \<Rightarrow> delivery_row \<Rightarrow> bool" where
  "row_ok c r \<longleftrightarrow>
     0 \<le> dr_attempts r \<and> dr_attempts r \<le> cfg_max_attempts c
     \<and> (dr_status r = Processing \<longleftrightarrow> dr_lease_until r \<noteq> None)
     \<and> (dr_status r = Processing \<longrightarrow> 0 < dr_attempts r)
     \<and> (dr_status r = Pending \<longrightarrow> dr_attempts r < cfg_max_attempts c)
     \<and> (dr_status r = Failed \<longrightarrow> \<not> dr_retryable r)
     \<and> (dr_status r = Delivered \<longrightarrow> dr_delivered_at r \<noteq> None)
     \<and> dr_notification r \<noteq> Corrupt \<and> dr_key r \<noteq> []"

definition outbox_inv :: "store_config \<Rightarrow> db \<Rightarrow> bool" where
  "outbox_inv c db \<longleftrightarrow>
     config_ok c \<and> distinct (keys (db_deliveries db)) \<and> (\<forall>r \<in> set (db_deliveries db). row_ok c r)
     \<and> distinct (map er_event_key (db_events db))
     \<and> dr_event_key ` set (db_deliveries db) \<subseteq> er_event_key ` set (db_events db)
     \<and> distinct (map psr_correlation_key (db_pipeline_states db))"

lemma outbox_invI:
  assumes "outbox_inv c db" "distinct (keys rows)" "\<forall>r \<in> set rows. row_ok c r"
    "dr_event_key ` set rows \<subseteq> er_event_key ` set (db_events db)"
  shows "outbox_inv c (db\<lparr>db_deliveries := rows\<rparr>)"
  using assms by (simp add: outbox_inv_def)

lemma outbox_inv_empty [simp]: "config_ok c \<Longrightarrow> outbox_inv c empty_db"
  by (simp add: outbox_inv_def empty_db_def keys_def)

lemma delivery_at_ok: "outbox_inv c db \<Longrightarrow> delivery_at db k = Some r \<Longrightarrow> row_ok c r \<and> dr_key r = k"
  unfolding delivery_at_def outbox_inv_def using find_key_Some by blast

subsection \<open>Enqueue\<close>

definition inserted :: "db \<Rightarrow> db \<Rightarrow> time \<Rightarrow> string \<Rightarrow> delivery list \<Rightarrow> bool" where
  "inserted db db' now event_key ds \<longleftrightarrow>
     (\<forall>k. delivery_at db' k =
        (case delivery_at db k of Some r \<Rightarrow> Some r
         | None \<Rightarrow> map_option (new_delivery_row now event_key)
             (find (\<lambda>d. d_key d = k \<and> k \<noteq> [] \<and> a_value (n_recipient (d_notification d)) \<noteq> []) ds)))"

lemma dr_key_new [simp]: "dr_key (new_delivery_row now ek d) = d_key d"
  by (simp add: new_delivery_row_def)

lemma find_insert_delivery:
  "find (\<lambda>r. dr_key r = k) (insert_delivery r rows) =
   (case find (\<lambda>r. dr_key r = k) rows of Some x \<Rightarrow> Some x
    | None \<Rightarrow> if dr_key r = k then Some r else None)"
  using find_key_None [of "dr_key r" rows]
  by (auto simp: insert_delivery_def find_key_append split: option.splits)

lemma insert_deliveries_find:
  "insert_deliveries f n now ek ds rows = Inr (m, rows') \<Longrightarrow>
   find (\<lambda>r. dr_key r = k) rows' =
     (case find (\<lambda>r. dr_key r = k) rows of Some r \<Rightarrow> Some r
      | None \<Rightarrow> map_option (new_delivery_row now ek)
          (find (\<lambda>d. d_key d = k \<and> k \<noteq> [] \<and> a_value (n_recipient (d_notification d)) \<noteq> []) ds))"
  by (induction f n now ek ds rows rule: insert_deliveries.induct)
    (auto simp: find_insert_delivery split: if_splits option.splits)

lemma keys_insert_delivery:
  "distinct (keys rows) \<Longrightarrow> distinct (keys (insert_delivery r rows))"
  by (auto simp: keys_def insert_delivery_def)

lemma insert_deliveries_keys:
  "insert_deliveries f n now ek ds rows = Inr (m, rows') \<Longrightarrow> distinct (keys rows) \<Longrightarrow>
   distinct (keys rows')"
  by (induction f n now ek ds rows rule: insert_deliveries.induct)
    (auto simp: keys_insert_delivery split: if_splits option.splits)

lemma row_ok_new: "config_ok c \<Longrightarrow> d_key d \<noteq> [] \<Longrightarrow> row_ok c (new_delivery_row now ek d)"
  by (simp add: row_ok_def new_delivery_row_def config_ok_def)

lemma insert_deliveries_ok:
  "insert_deliveries f n now ek ds rows = Inr (m, rows') \<Longrightarrow> config_ok c \<Longrightarrow>
   \<forall>r \<in> set rows. row_ok c r \<Longrightarrow>
   (\<forall>r \<in> set rows'. row_ok c r) \<and> dr_event_key ` set rows' \<subseteq> insert ek (dr_event_key ` set rows)"
proof (induction f n now ek ds rows rule: insert_deliveries.induct)
  case (2 f n now ek d ds rows)
  show ?case
  proof (cases "d_key d = [] \<or> a_value (n_recipient (d_notification d)) = []")
    case True
    with 2 show ?thesis by simp
  next
    case False
    with 2(3) have f: "f n = None"
      and ins: "insert_deliveries f (Suc n) now ek ds
        (insert_delivery (new_delivery_row now ek d) rows) = Inr (m, rows')"
      by (auto split: option.splits)
    have "\<forall>r \<in> set (insert_delivery (new_delivery_row now ek d) rows). row_ok c r"
      using 2(4,5) False by (auto simp: insert_delivery_def row_ok_new)
    from 2(2) [OF False f ins 2(4) this] show ?thesis
      by (auto simp: insert_delivery_def new_delivery_row_def split: if_splits)
  qed
qed auto

lemma event_keys_insert:
  "er_event_key ` set (insert_event r rows) = insert (er_event_key r) (er_event_key ` set rows)"
  by (auto simp: insert_event_def)

lemma distinct_insert_event:
  "distinct (map er_event_key rows) \<Longrightarrow> distinct (map er_event_key (insert_event r rows))"
  by (auto simp: insert_event_def)

lemma distinct_upsert_pipeline_state:
  "distinct (map psr_correlation_key rows) \<Longrightarrow>
   distinct (map psr_correlation_key (upsert_pipeline_state r rows))"
proof -
  have "map psr_correlation_key (map (\<lambda>x. if psr_correlation_key x = psr_correlation_key r then r else x) rows)
      = map psr_correlation_key rows"
    by (induction rows) auto
  then show "distinct (map psr_correlation_key rows) \<Longrightarrow>
      distinct (map psr_correlation_key (upsert_pipeline_state r rows))"
    by (auto simp: upsert_pipeline_state_def simp del: map_map)
qed

text \<open>What a successful \<open>enqueue\<close> did; a failing one did nothing.\<close>

lemma enqueue_cases:
  assumes "enqueue f now event ds state db = (e, db')"
  obtains (fail) err where "e = Some err" "db' = db"
  | (ok) n rows where "e = None" "ev_event_key event \<noteq> []"
      "insert_deliveries f 2 now (ev_event_key event) ds (db_deliveries db) = Inr (n, rows)"
      "db' = db\<lparr>db_events := insert_event (event_row_of event now) (db_events db),
                db_deliveries := rows,
                db_pipeline_states := (case state of None \<Rightarrow> db_pipeline_states db
                  | Some st \<Rightarrow> upsert_pipeline_state (pipeline_state_row_of st now)
                      (db_pipeline_states db))\<rparr>"
proof (cases e)
  case (Some err)
  with assms have "db' = db"
    by (auto simp: enqueue_def Let_def split: if_splits option.splits sum.splits)
  with Some show ?thesis by (rule fail)
next
  case None
  with assms obtain n rows where
    "insert_deliveries f 2 now (ev_event_key event) ds (db_deliveries db) = Inr (n, rows)"
    "ev_event_key event \<noteq> []"
    by (auto simp: enqueue_def Let_def split: if_splits option.splits sum.splits)
  moreover from this None assms have
    "db' = db\<lparr>db_events := insert_event (event_row_of event now) (db_events db),
              db_deliveries := rows,
              db_pipeline_states := (case state of None \<Rightarrow> db_pipeline_states db
                | Some st \<Rightarrow> upsert_pipeline_state (pipeline_state_row_of st now)
                    (db_pipeline_states db))\<rparr>"
    by (auto simp: enqueue_def Let_def split: if_splits option.splits)
  ultimately show ?thesis using None ok by blast
qed

lemma enqueue_inv [inv_intros]:
  assumes "outbox_inv c db" "enqueue f now event ds state db = (e, db')"
  shows "outbox_inv c db'"
  using assms(2)
proof (cases rule: enqueue_cases)
  case (ok n rows)
  have inv: "config_ok c" "distinct (keys (db_deliveries db))"
    "\<forall>r \<in> set (db_deliveries db). row_ok c r"
    using assms(1) by (auto simp: outbox_inv_def)
  have "distinct (keys rows)" by (rule insert_deliveries_keys [OF ok(3) inv(2)])
  moreover have "(\<forall>r \<in> set rows. row_ok c r) \<and>
      dr_event_key ` set rows \<subseteq> insert (ev_event_key event) (dr_event_key ` set (db_deliveries db))"
    by (rule insert_deliveries_ok [OF ok(3) inv(1,3)])
  moreover from this have "dr_event_key ` set rows
      \<subseteq> er_event_key ` set (insert_event (event_row_of event now) (db_events db))"
    using assms(1) unfolding event_keys_insert outbox_inv_def
    by (simp add: event_row_of_def) blast
  ultimately show ?thesis
    using assms(1) ok(4)
    by (simp add: outbox_inv_def distinct_insert_event distinct_upsert_pipeline_state
        split: option.splits)
qed (use assms(1) in simp)

lemma enqueue_delivery_at:
  assumes "enqueue f now event ds state db = (None, db')"
  shows "inserted db db' now (ev_event_key event) ds"
  using assms
proof (cases rule: enqueue_cases)
  case (ok n rows)
  then show ?thesis
    using insert_deliveries_find [OF ok(3)] by (simp add: inserted_def delivery_at_def)
qed simp

text \<open>
  Enqueueing the same event again adds no event and no delivery: the insertions are keyed.
\<close>

lemma insert_deliveries_again:
  "insert_deliveries f n now ek ds rows = Inr (m, rows') \<Longrightarrow> set (keys rows') \<subseteq> set (keys rows'') \<Longrightarrow>
   insert_deliveries f' n' now' ek' ds rows'' = Inr (m', rows3) \<Longrightarrow> rows3 = rows''"
proof (induction f n now ek ds rows arbitrary: n' rule: insert_deliveries.induct)
  case (2 f n now ek d ds rows)
  show ?case
  proof (cases "d_key d = [] \<or> a_value (n_recipient (d_notification d)) = []")
    case True
    with 2 show ?thesis by simp
  next
    case False
    with 2(3) have f: "f n = None"
      and ins: "insert_deliveries f (Suc n) now ek ds
        (insert_delivery (new_delivery_row now ek d) rows) = Inr (m, rows')"
      by (auto split: option.splits)
    have "d_key d \<in> set (keys rows')"
      using insert_deliveries_find [OF ins, of "d_key d"] find_key_None [of "d_key d" rows']
      by (auto simp: find_insert_delivery keys_def split: option.splits)
    with 2(4) have "insert_delivery (new_delivery_row now' ek' d) rows'' = rows''"
      by (auto simp: insert_delivery_def keys_def)
    with 2(5) False have "insert_deliveries f' (Suc n') now' ek' ds rows'' = Inr (m', rows3)"
      by (auto split: option.splits)
    from 2(2) [OF False f ins 2(4) this] show ?thesis .
  qed
qed simp

lemma enqueue_again:
  assumes "enqueue f now event ds state db = (None, db1)"
    and "enqueue f' now' event ds state' db1 = (e, db2)"
  shows "db_events db2 = db_events db1" "db_deliveries db2 = db_deliveries db1"
proof -
  have 1: "ev_event_key event \<in> er_event_key ` set (db_events db1)"
    and r1: "\<exists>n. insert_deliveries f 2 now (ev_event_key event) ds (db_deliveries db)
        = Inr (n, db_deliveries db1)"
    using assms(1) by (cases rule: enqueue_cases, auto simp: event_keys_insert event_row_of_def split: option.splits)+
  from assms(2) show "db_events db2 = db_events db1"
    by (cases rule: enqueue_cases)
      (use 1 in \<open>auto simp: insert_event_def event_row_of_def split: option.splits\<close>)
  from assms(2) show "db_deliveries db2 = db_deliveries db1"
  proof (cases rule: enqueue_cases)
    case (ok n rows)
    from r1 obtain m where
      "insert_deliveries f 2 now (ev_event_key event) ds (db_deliveries db) = Inr (m, db_deliveries db1)"
      by blast
    from insert_deliveries_again [OF this subset_refl ok(3)] ok(4) show ?thesis by simp
  qed simp
qed

subsection \<open>Claim\<close>

text \<open>
  What a successful \<open>Claim\<close> did: it took the selected rows, in their order, and every one
  of them is now held under a lease with one more attempt.
\<close>

lemma set_select_ready:
  "r \<in> set (select_ready c now n rows) \<Longrightarrow> r \<in> set rows \<and> ready c now r"
  using sort_key_set_take unfolding select_ready_def by fastforce

lemma distinct_select_ready:
  "distinct (keys rows) \<Longrightarrow> distinct (keys (select_ready c now n rows))"
  unfolding keys_def select_ready_def
  by (rule distinct_map_take) (simp add: distinct_map_sort_key distinct_map_filter)

definition taken :: "string \<Rightarrow> string \<Rightarrow> delivery_row list \<Rightarrow> delivery_row list \<Rightarrow> delivery_row list" where
  "taken now lease items rows =
     map (\<lambda>r. if dr_key r \<in> set (keys items) then claim_row now lease r else r) rows"

lemma claim_rows_spec:
  assumes "distinct (keys rows)" "distinct (keys items)"
    "\<forall>i \<in> set items. i \<in> set rows \<and> ready c now i"
    "claim_rows f n c now lease items rows = Inr (ds, rows', m)"
  shows "rows' = taken now lease items rows
    \<and> map (\<lambda>d. (d_key d, Json (d_notification d))) ds = map (\<lambda>i. (dr_key i, dr_notification i)) items"
  using assms
proof (induction items arbitrary: n rows ds)
  case Nil
  then show ?case by (simp add: taken_def keys_def)
next
  case (Cons i items)
  define hit where "hit = (\<lambda>r. dr_key r = dr_key i \<and> ready c now r)"
  define rows1 where "rows1 = map (\<lambda>r. if hit r then claim_row now lease r else r) rows"
  have i: "i \<in> set rows" "ready c now i" using Cons.prems(3) by auto
  have same: "r = i" if "r \<in> set rows" "dr_key r = dr_key i" for r
    using map_fst_eq_same [of dr_key rows r i] Cons.prems(1) i that by (simp add: keys_def)
  have hit: "hit r \<longleftrightarrow> dr_key r = dr_key i" if "r \<in> set rows" for r
    using same [OF that] i by (auto simp: hit_def)
  have ne: "filter hit rows \<noteq> []" using i hit by (auto simp: filter_empty_conv)
  obtain nt ds1 where nt: "dr_notification i = Json nt"
    and ds: "ds = \<lparr>d_key = dr_key i, d_notification = nt\<rparr> # ds1"
    and rest: "claim_rows f (Suc n) c now lease items rows1 = Inr (ds1, rows', m)"
    using Cons.prems(4) ne
    by (auto simp: Let_def hit_def rows1_def split: option.splits stored.splits sum.splits)
  have k: "keys rows1 = keys rows" unfolding rows1_def by (rule keys_map) simp
  have notin: "dr_key i \<notin> set (keys items)" using Cons.prems(2) by (simp add: keys_def)
  have "\<forall>j \<in> set items. j \<in> set rows1 \<and> ready c now j"
  proof
    fix j assume j: "j \<in> set items"
    then have "dr_key j \<noteq> dr_key i" using notin by (metis image_eqI keys_def list.set_map)
    then have e: "j = (if hit j then claim_row now lease j else j)" by (simp add: hit_def)
    have j': "j \<in> set rows" "ready c now j" using Cons.prems(3) j by auto
    have "j \<in> set rows1"
      unfolding rows1_def set_map by (rule image_eqI) (rule e, rule j'(1))
    with j'(2) show "j \<in> set rows1 \<and> ready c now j" by simp
  qed
  then have IH: "rows' = taken now lease items rows1"
    "map (\<lambda>d. (d_key d, Json (d_notification d))) ds1 = map (\<lambda>i. (dr_key i, dr_notification i)) items"
    using Cons.IH [of rows1 "Suc n" ds1] Cons.prems(1,2) rest k by (auto simp: keys_def)
  have "taken now lease items rows1 = taken now lease (i # items) rows"
    unfolding taken_def rows1_def using notin hit by (auto simp: keys_def)
  with IH ds nt show ?case by simp
qed

lemma claim_cases:
  assumes "claim c f now w limit db = (res, db')"
  obtains (fail) err where "res = Inl err" "db' = db"
  | (ok) ds m where "res = Inr ds"
      "claim_rows f 2 c (format_timestamp now) (format_timestamp (now + cfg_lease_duration c))
        (select_ready c (format_timestamp now) (nat (if limit \<le> 0 then 10 else limit))
          (db_deliveries db)) (db_deliveries db) = Inr (ds, db_deliveries db', m)"
      "db' = db\<lparr>db_deliveries := db_deliveries db'\<rparr>"
proof (cases res)
  case (Inl err)
  with assms have "db' = db"
    by (auto simp: claim_def Let_def split: option.splits sum.splits)
  with Inl show ?thesis by (rule fail)
next
  case (Inr ds)
  with assms obtain rows m where
    "claim_rows f 2 c (format_timestamp now) (format_timestamp (now + cfg_lease_duration c))
        (select_ready c (format_timestamp now) (nat (if limit \<le> 0 then 10 else limit))
          (db_deliveries db)) (db_deliveries db) = Inr (ds, rows, m)"
    "db' = db\<lparr>db_deliveries := rows\<rparr>"
    unfolding claim_def Let_def
    by (simp only: split: option.splits sum.splits prod.splits) auto
  with Inr show ?thesis by (intro ok [of ds m]) simp_all
qed

lemma claim_ok:
  assumes "outbox_inv c db" "claim c f now w limit db = (Inr ds, db')"
  defines "sel \<equiv> select_ready c (format_timestamp now) (nat (if limit \<le> 0 then 10 else limit))
      (db_deliveries db)"
  shows "db' = db\<lparr>db_deliveries := taken (format_timestamp now)
      (format_timestamp (now + cfg_lease_duration c)) sel (db_deliveries db)\<rparr>"
    and "map (\<lambda>d. (d_key d, Json (d_notification d))) ds = map (\<lambda>i. (dr_key i, dr_notification i)) sel"
proof -
  have inv: "distinct (keys (db_deliveries db))" using assms(1) by (simp add: outbox_inv_def)
  from assms(2) obtain m where
    rows: "claim_rows f 2 c (format_timestamp now) (format_timestamp (now + cfg_lease_duration c))
        sel (db_deliveries db) = Inr (ds, db_deliveries db', m)"
    and db': "db' = db\<lparr>db_deliveries := db_deliveries db'\<rparr>"
    by (cases rule: claim_cases) (simp_all add: sel_def)
  have "distinct (keys sel)" "\<forall>i \<in> set sel. i \<in> set (db_deliveries db) \<and> ready c (format_timestamp now) i"
    unfolding sel_def using distinct_select_ready [OF inv] set_select_ready by blast+
  from claim_rows_spec [OF inv this rows] db'
  show "db' = db\<lparr>db_deliveries := taken (format_timestamp now)
      (format_timestamp (now + cfg_lease_duration c)) sel (db_deliveries db)\<rparr>"
    "map (\<lambda>d. (d_key d, Json (d_notification d))) ds = map (\<lambda>i. (dr_key i, dr_notification i)) sel"
    by auto
qed

lemma claim_keys:
  assumes "outbox_inv c db" "claim c f now w limit db = (Inr ds, db')"
  shows "map d_key ds = keys (select_ready c (format_timestamp now)
    (nat (if limit \<le> 0 then 10 else limit)) (db_deliveries db))"
  using arg_cong [OF claim_ok(2) [OF assms], of "map fst"] by (simp add: keys_def comp_def)

lemma claim_distinct:
  assumes "outbox_inv c db" "claim c f now w limit db = (Inr ds, db')"
  shows "distinct (map d_key ds)"
  unfolding claim_keys [OF assms]
  by (rule distinct_select_ready) (use assms(1) in \<open>simp add: outbox_inv_def\<close>)

lemma find_key_taken:
  "find (\<lambda>r. dr_key r = k) (taken now lease items rows) =
   map_option (\<lambda>r. if k \<in> set (keys items) then claim_row now lease r else r)
     (find (\<lambda>r. dr_key r = k) rows)"
  unfolding taken_def by (induction rows) auto

text \<open>The row of each key after a claim, and that a claimed row was ready.\<close>

lemma claim_delivery_at:
  assumes "outbox_inv c db" "claim c f now w limit db = (Inr ds, db')"
  shows "delivery_at db' k = map_option (\<lambda>r. if k \<in> d_key ` set ds
      then claim_row (format_timestamp now) (format_timestamp (now + cfg_lease_duration c)) r
      else r) (delivery_at db k)"
proof -
  have "d_key ` set ds = set (map d_key ds)" by simp
  then show ?thesis
    using claim_ok(1) [OF assms] by (simp add: delivery_at_def find_key_taken claim_keys [OF assms])
qed

lemma claim_was_ready:
  assumes "outbox_inv c db" "claim c f now w limit db = (Inr ds, db')" "k \<in> d_key ` set ds"
  obtains r where "delivery_at db k = Some r" "ready c (format_timestamp now) r"
proof -
  have "k \<in> set (map d_key ds)" using assms(3) by simp
  then obtain r where r: "r \<in> set (select_ready c (format_timestamp now)
      (nat (if limit \<le> 0 then 10 else limit)) (db_deliveries db))" "dr_key r = k"
    unfolding claim_keys [OF assms(1,2)] by (auto simp: keys_def)
  then have "r \<in> set (db_deliveries db)" "ready c (format_timestamp now) r"
    using set_select_ready by blast+
  moreover have "delivery_at db k = Some r"
    using find_key_distinct [of "db_deliveries db" r] calculation(1) r(2) assms(1)
    by (simp add: delivery_at_def outbox_inv_def)
  ultimately show ?thesis using that by blast
qed

lemma row_ok_claim: "row_ok c r \<Longrightarrow> ready c now' r \<Longrightarrow> row_ok c (claim_row now lease r)"
  by (auto simp: row_ok_def ready_def claim_row_def)

lemma claim_inv [inv_intros]:
  assumes "outbox_inv c db" "claim c f now w limit db = (res, db')"
  shows "outbox_inv c db'"
  using assms(2)
proof (cases rule: claim_cases)
  case (ok ds m)
  define sel where "sel = select_ready c (format_timestamp now)
    (nat (if limit \<le> 0 then 10 else limit)) (db_deliveries db)"
  define lease where "lease = format_timestamp (now + cfg_lease_duration c)"
  have db': "db' = db\<lparr>db_deliveries := taken (format_timestamp now) lease sel (db_deliveries db)\<rparr>"
    using claim_ok(1) [OF assms(1)] assms(2) ok(1) unfolding sel_def lease_def by blast
  have inv: "distinct (keys (db_deliveries db))" "\<forall>r \<in> set (db_deliveries db). row_ok c r"
    using assms(1) by (auto simp: outbox_inv_def)
  have "ready c (format_timestamp now) r"
    if "r \<in> set (db_deliveries db)" "dr_key r \<in> set (keys sel)" for r
  proof -
    from that(2) obtain i where i: "i \<in> set sel" "dr_key i = dr_key r" by (auto simp: keys_def)
    then have "i \<in> set (db_deliveries db)" "ready c (format_timestamp now) i"
      unfolding sel_def using set_select_ready by blast+
    with map_fst_eq_same [of dr_key "db_deliveries db" i r] inv(1) that(1) i(2)
    show ?thesis by (simp add: keys_def)
  qed
  then have "\<forall>r \<in> set (taken (format_timestamp now) lease sel (db_deliveries db)). row_ok c r"
    using inv(2) by (auto simp: taken_def intro: row_ok_claim)
  moreover have "keys (taken (format_timestamp now) lease sel (db_deliveries db))
      = keys (db_deliveries db)"
    unfolding taken_def by (rule keys_map) simp
  moreover have "dr_event_key ` set (taken (format_timestamp now) lease sel (db_deliveries db))
      = dr_event_key ` set (db_deliveries db)"
    unfolding taken_def by (rule image_map_same) (simp add: claim_row_def)
  ultimately show ?thesis
    unfolding db' using assms(1) by (intro outbox_invI) (auto simp: outbox_inv_def)
qed (use assms(1) in simp)

text \<open>Without a fault nothing stops a claim: the payloads this program writes decode.\<close>

lemma claim_rows_no_fault:
  assumes "\<forall>n. f n = None"
  shows "\<forall>i \<in> set items. dr_notification i \<noteq> Corrupt \<Longrightarrow>
   \<exists>ds rows' m. claim_rows f n c now lease items rows = Inr (ds, rows', m)"
proof (induction items arbitrary: n rows)
  case (Cons i items)
  then obtain nt where nt: "dr_notification i = Json nt"
    by (metis list.set_intros(1) stored.exhaust)
  define rows1 where "rows1 = map (\<lambda>r. if dr_key r = dr_key i \<and> ready c now r
    then claim_row now lease r else r) rows"
  obtain ds rows' m where "claim_rows f (Suc n) c now lease items rows1 = Inr (ds, rows', m)"
    using Cons.IH [of "Suc n" rows1] Cons.prems by auto
  note rest = this
  have fn: "f n = None" using assms by blast
  have "claim_rows f n c now lease (i # items) rows =
      (if filter (\<lambda>r. dr_key r = dr_key i \<and> ready c now r) rows = [] then Inr (ds, rows', m)
       else Inr (\<lparr>d_key = dr_key i, d_notification = nt\<rparr> # ds, rows', m))"
    unfolding claim_rows.simps Let_def fn rest [unfolded rows1_def] nt
    by (simp only: option.case stored.case sum.case prod.case)
  then show ?case by (simp only: split: if_split) blast
qed simp

lemma claim_no_fault:
  assumes "outbox_inv c db"
  shows "\<exists>ds db'. claim c no_fault now w limit db = (Inr ds, db')"
proof -
  let ?sel = "select_ready c (format_timestamp now) (nat (if limit \<le> 0 then 10 else limit)) (db_deliveries db)"
  have "\<forall>i \<in> set ?sel. dr_notification i \<noteq> Corrupt"
  proof
    fix i assume "i \<in> set ?sel"
    from set_select_ready [OF this] assms have "row_ok c i" by (simp add: outbox_inv_def)
    then show "dr_notification i \<noteq> Corrupt" by (simp add: row_ok_def)
  qed
  then obtain ds rows m where "claim_rows no_fault 2 c (format_timestamp now)
      (format_timestamp (now + cfg_lease_duration c)) ?sel (db_deliveries db) = Inr (ds, rows, m)"
    using claim_rows_no_fault [OF no_fault_none] by blast
  note rows = this
  have "claim c no_fault now w limit db = (Inr ds, db\<lparr>db_deliveries := rows\<rparr>)"
    unfolding claim_def Let_def
    by (simp only: rows no_fault_none [rule_format, of 0] no_fault_none [rule_format, of 1]
        no_fault_none [rule_format, of m] option.case sum.case prod.case)
  then show ?thesis by blast
qed

subsection \<open>MarkDelivered and MarkFailed\<close>

definition delivered_row :: "time \<Rightarrow> delivery_receipt \<Rightarrow> delivery_row \<Rightarrow> delivery_row" where
  "delivered_row now receipt r =
     r\<lparr>dr_status := Delivered, dr_lease_until := None,
       dr_provider_message_id := Some (rc_provider_message_id receipt),
       dr_last_error_class := None, dr_last_error_message := None,
       dr_delivered_at := Some (format_timestamp now), dr_updated_at := format_timestamp now\<rparr>"

definition failed_row :: "store_config \<Rightarrow> time \<Rightarrow> delivery_failure \<Rightarrow> int \<Rightarrow> delivery_row \<Rightarrow> delivery_row" where
  "failed_row c now failure attempts r =
     (let again = (f_retryable failure \<and> attempts < cfg_max_attempts c) in
      r\<lparr>dr_status := (if again then Pending else Failed), dr_retryable := again,
        dr_next_attempt_at := format_timestamp
          (if again then now + backoff (cfg_retry_delay c) attempts else now),
        dr_lease_until := None, dr_last_error_class := Some (f_class failure),
        dr_last_error_message := Some (truncate_error (f_message failure)),
        dr_updated_at := format_timestamp now\<rparr>)"

lemma row_simps [simp]:
  "dr_key (delivered_row now receipt r) = dr_key r"
  "dr_key (failed_row c now failure n r) = dr_key r"
  "dr_event_key (delivered_row now receipt r) = dr_event_key r"
  "dr_event_key (failed_row c now failure n r) = dr_event_key r"
  "dr_event_key (claim_row t l r) = dr_event_key r"
  "dr_attempts (delivered_row now receipt r) = dr_attempts r"
  "dr_attempts (failed_row c now failure n r) = dr_attempts r"
  "dr_attempts (claim_row t l r) = dr_attempts r + 1"
  "dr_status (delivered_row now receipt r) = Delivered"
  "dr_status (claim_row t l r) = Processing"
  by (simp_all add: delivered_row_def failed_row_def claim_row_def Let_def)

lemma mark_delivered_cases:
  assumes "mark_delivered f now key receipt db = (e, db')"
  obtains (fail) err where "e = Some err" "db' = db"
  | (ok) "e = None" "key \<in> dr_key ` set (db_deliveries db)"
      "db' = db\<lparr>db_deliveries := update_deliveries key (delivered_row now receipt) (db_deliveries db)\<rparr>"
proof (cases e)
  case (Some err)
  with assms have "db' = db"
    by (auto simp: mark_delivered_def split: if_splits option.splits)
  with Some show ?thesis by (rule fail)
next
  case None
  with assms have "key \<in> dr_key ` set (db_deliveries db)"
    "db' = db\<lparr>db_deliveries := update_deliveries key (delivered_row now receipt) (db_deliveries db)\<rparr>"
    by (auto simp: mark_delivered_def delivered_row_def [abs_def] split: if_splits option.splits)
  with None show ?thesis by (rule ok)
qed

lemma mark_failed_cases:
  assumes "mark_failed c f now key failure db = (e, db')"
  obtains (fail) err where "e = Some err" "db' = db"
  | (ok) row where "e = None" "delivery_at db key = Some row"
      "db' = db\<lparr>db_deliveries := update_deliveries key (failed_row c now failure (dr_attempts row))
        (db_deliveries db)\<rparr>"
proof (cases e)
  case (Some err)
  with assms have "db' = db"
    by (auto simp: mark_failed_def Let_def split: if_splits option.splits)
  with Some show ?thesis by (rule fail)
next
  case None
  with assms obtain row where row: "delivery_at db key = Some row"
    by (auto simp: mark_failed_def delivery_at_def split: if_splits option.splits)
  with None assms have
    "db' = db\<lparr>db_deliveries := update_deliveries key (failed_row c now failure (dr_attempts row))
      (db_deliveries db)\<rparr>"
    by (auto simp: mark_failed_def delivery_at_def failed_row_def [abs_def] Let_def
        split: if_splits option.splits)
  with None row show ?thesis by (rule ok)
qed

lemma update_inv:
  assumes "outbox_inv c db" "\<And>r. dr_key (g r) = dr_key r" "\<And>r. dr_event_key (g r) = dr_event_key r"
    "\<And>r. delivery_at db key = Some r \<Longrightarrow> row_ok c (g r)"
  shows "outbox_inv c (db\<lparr>db_deliveries := update_deliveries key g (db_deliveries db)\<rparr>)"
proof (rule outbox_invI [OF assms(1)])
  have inv: "distinct (keys (db_deliveries db))" "\<forall>r \<in> set (db_deliveries db). row_ok c r"
    using assms(1) by (auto simp: outbox_inv_def)
  show "distinct (keys (update_deliveries key g (db_deliveries db)))"
    using inv(1) assms(2) by simp
  show "\<forall>r \<in> set (update_deliveries key g (db_deliveries db)). row_ok c r"
  proof
    fix x assume "x \<in> set (update_deliveries key g (db_deliveries db))"
    then obtain r where r: "r \<in> set (db_deliveries db)" "x = (if dr_key r = key then g r else r)"
      by (auto simp: update_deliveries_def)
    with find_key_distinct [OF inv(1) r(1)] assms(4) inv(2)
    show "row_ok c x" by (auto simp: delivery_at_def)
  qed
  have "dr_event_key ` set (update_deliveries key g (db_deliveries db))
      = dr_event_key ` set (db_deliveries db)"
    unfolding update_deliveries_def by (rule image_map_same) (simp add: assms(3))
  then show "dr_event_key ` set (update_deliveries key g (db_deliveries db))
      \<subseteq> er_event_key ` set (db_events db)"
    using assms(1) by (simp add: outbox_inv_def)
qed

lemma mark_delivered_inv [inv_intros]:
  assumes "outbox_inv c db" "mark_delivered f now key receipt db = (e, db')"
  shows "outbox_inv c db'"
  using assms(2)
proof (cases rule: mark_delivered_cases)
  case ok
  show ?thesis
    unfolding ok(3) by (rule update_inv [OF assms(1)])
      (use delivery_at_ok [OF assms(1)] in \<open>auto simp: row_ok_def delivered_row_def\<close>)
qed (use assms(1) in simp)

lemma mark_failed_inv [inv_intros]:
  assumes "outbox_inv c db" "mark_failed c f now key failure db = (e, db')"
  shows "outbox_inv c db'"
  using assms(2)
proof (cases rule: mark_failed_cases)
  case (ok row)
  show ?thesis
    unfolding ok(3) by (rule update_inv [OF assms(1)])
      (use delivery_at_ok [OF assms(1)] ok(2) in \<open>auto simp: row_ok_def failed_row_def Let_def\<close>)
qed (use assms(1) in simp)

lemma mark_delivered_at:
  assumes "mark_delivered f now key receipt db = (None, db')"
  shows "delivery_at db' k = (if k = key then map_option (delivered_row now receipt) (delivery_at db k)
    else delivery_at db k)"
  using assms by (cases rule: mark_delivered_cases) (simp_all add: delivery_at_def find_key_update)

lemma mark_failed_at:
  assumes "mark_failed c f now key failure db = (None, db')"
  obtains row where "delivery_at db key = Some row"
    "\<forall>k. delivery_at db' k = (if k = key then Some (failed_row c now failure (dr_attempts row) row)
      else delivery_at db k)"
  using assms
proof (cases rule: mark_failed_cases)
  case (ok row)
  show ?thesis
    by (rule that [OF ok(2)]) (use ok(2,3) in \<open>simp add: delivery_at_def find_key_update\<close>)
qed simp

subsection \<open>Backoff\<close>

lemma backoff_loop_eq:
  "0 < b \<Longrightarrow> b \<le> hour \<Longrightarrow> backoff_loop n b = min (b * 2 ^ n) hour"
proof (induction n arbitrary: b)
  case (Suc n)
  have w: "wrap64 (b * 2) = b * 2"
    using Suc.prems by (intro wrap64_id) (auto simp: hour_def)
  show ?case
  proof (cases "hour \<le> b * 2")
    case True
    have "b * 2 * 1 \<le> b * 2 * 2 ^ n" using Suc.prems(1) by (intro mult_left_mono) auto
    with True have "hour \<le> b * 2 ^ Suc n" by simp
    with True show ?thesis by (simp add: w Let_def min_absorb2)
  next
    case False
    with Suc.IH [of "b * 2"] Suc.prems show ?thesis by (simp add: w Let_def mult.assoc)
  qed
qed simp

text \<open>The delay doubles with every attempt and is never more than an hour.\<close>

lemma backoff_eq:
  assumes "0 < delay" "delay \<le> hour" "1 \<le> attempts"
  shows "backoff delay attempts = min (delay * 2 ^ nat (attempts - 1)) hour"
  using assms by (simp add: backoff_def backoff_loop_eq)

lemma backoff_positive: "0 < delay \<Longrightarrow> delay \<le> hour \<Longrightarrow> 0 < backoff delay attempts"
  by (simp add: backoff_def backoff_loop_eq hour_def)


subsection \<open>Properties\<close>

text \<open>A run of the witnesses: one event with two deliveries, the first of them claimed.\<close>

definition ping :: "string \<Rightarrow> delivery" where
  "ping who = \<lparr>d_key = ''k-'' @ who, d_notification = no_notification\<lparr>n_event_key := ''ev'',
     n_recipient := \<lparr>a_kind = AddressKindEmail, a_value = who @ ''@x.io'', a_display_name = []\<rparr>\<rparr>\<rparr>"

definition ping_event :: canonical_event where
  "ping_event = no_event\<lparr>ev_event_key := ''ev'', ev_kind := EventKindNote\<rparr>"

definition queued :: db where
  "queued = snd (enqueue no_fault 0 ping_event [ping ''a'', ping ''b''] None empty_db)"

definition claimed :: db where
  "claimed = snd (claim default_config no_fault second ''w'' 1 queued)"

lemma enqueue_queued:
  "enqueue no_fault 0 ping_event [ping ''a'', ping ''b''] None empty_db = (None, queued)"
proof -
  have "fst (enqueue no_fault 0 ping_event [ping ''a'', ping ''b''] None empty_db) = None" by code_simp
  then show ?thesis by (simp add: queued_def prod_eq_iff)
qed

lemma queued_inv: "outbox_inv default_config queued"
  by (rule enqueue_inv [OF outbox_inv_empty enqueue_queued]) simp

lemma claim_claimed: "claim default_config no_fault second ''w'' 1 queued = (Inr [ping ''a''], claimed)"
proof -
  have "fst (claim default_config no_fault second ''w'' 1 queued) = Inr [ping ''a'']" by code_simp
  then show ?thesis by (simp add: claimed_def prod_eq_iff)
qed

lemma claimed_inv: "outbox_inv default_config claimed"
  by (rule claim_inv [OF queued_inv claim_claimed])



text \<open>A claim that meets no fault succeeds, returns at most the limit (ten by default) of
  distinct deliveries, in the order of their due times, all of them ready; and nothing that
  is ready is left out unless the limit is reached.\<close>

theorem claim_returns_due:
  assumes "outbox_inv c db"
  shows "\<exists>ds db'. claim c no_fault now w limit db = (Inr ds, db')
    \<and> length ds \<le> nat (if limit \<le> 0 then 10 else limit) \<and> distinct (map d_key ds)
    \<and> (\<exists>rows. map d_key ds = keys rows \<and> sorted (map dr_next_attempt_at rows)
        \<and> (\<forall>r \<in> set rows. r \<in> set (db_deliveries db) \<and> ready c (format_timestamp now) r))
    \<and> (length ds < nat (if limit \<le> 0 then 10 else limit) \<longrightarrow>
        (\<forall>r \<in> set (db_deliveries db). ready c (format_timestamp now) r \<longrightarrow> dr_key r \<in> set (map d_key ds)))"
proof -
  let ?n = "nat (if limit \<le> 0 then 10 else limit)"
  let ?all = "sort_key (\<lambda>r. (dr_next_attempt_at r, dr_created_at r))
    (filter (ready c (format_timestamp now)) (db_deliveries db))"
  let ?sel = "select_ready c (format_timestamp now) ?n (db_deliveries db)"
  obtain ds db' where cl: "claim c no_fault now w limit db = (Inr ds, db')"
    using claim_no_fault [OF assms] by blast
  have k: "map d_key ds = keys ?sel" by (rule claim_keys [OF assms cl])
  have sel: "?sel = take ?n ?all" by (simp only: select_ready_def)
  have len: "length ds = length ?sel" using arg_cong [OF k, of length] by (simp add: keys_def)
  have "sorted (map fst (map (\<lambda>r. (dr_next_attempt_at r, dr_created_at r)) ?all))"
    using sorted_sort_key [of "\<lambda>r. (dr_next_attempt_at r, dr_created_at r)"]
    by (intro sorted_map_mono) (auto simp: less_eq_prod_def monotone_on_def)
  then have "sorted (map dr_next_attempt_at ?sel)"
    unfolding sel by (simp add: comp_def take_map [symmetric] sorted_wrt_take)
  moreover have "\<forall>r \<in> set ?sel. r \<in> set (db_deliveries db) \<and> ready c (format_timestamp now) r"
    using set_select_ready by blast
  moreover have "dr_key r \<in> set (map d_key ds)"
    if "length ds < ?n" "r \<in> set (db_deliveries db)" "ready c (format_timestamp now) r" for r
  proof -
    have "?sel = ?all" using that(1) unfolding len sel by simp
    then show ?thesis using that(2,3) unfolding k keys_def by simp
  qed
  moreover have "length ds \<le> ?n" unfolding len sel by simp
  ultimately show ?thesis
    using cl k claim_distinct [OF assms cl] by blast
qed

theorem claim_returns_due_witness:
  "\<exists>ds db'. claim default_config no_fault second ''w'' 1 queued = (Inr ds, db') \<and> length ds \<le> 1"
  using claim_returns_due [OF queued_inv, of second "''w''" 1] by auto

text \<open>A failed delivery is attempted again only if the failure was retryable and attempts
  are left, and not before the delay of its number of attempts has passed; any other failure
  is final.\<close>

theorem retry_only_after_backoff:
  assumes "outbox_inv c db" "mark_failed c f now k failure db = (None, db1)"
    "claim c f' now' w limit db1 = (Inr ds, db2)" "k \<in> set (map d_key ds)"
    "four_digit_year now'" "\<And>n. four_digit_year (now + backoff (cfg_retry_delay c) n)"
  shows "\<exists>r. delivery_at db k = Some r \<and> f_retryable failure \<and> dr_attempts r < cfg_max_attempts c
    \<and> ms_of (now + backoff (cfg_retry_delay c) (dr_attempts r)) \<le> ms_of now'"
proof -
  obtain r where r: "delivery_at db k = Some r"
    "\<forall>k'. delivery_at db1 k' = (if k' = k then Some (failed_row c now failure (dr_attempts r) r)
      else delivery_at db k')"
    using mark_failed_at [OF assms(2)] by blast
  have inv1: "outbox_inv c db1" by (rule mark_failed_inv [OF assms(1,2)])
  obtain r1 where r1: "delivery_at db1 k = Some r1" "ready c (format_timestamp now') r1"
    using claim_was_ready [OF inv1 assms(3)] assms(4) by auto
  then have r1': "r1 = failed_row c now failure (dr_attempts r) r" using r(2) by simp
  from r1(2) have again: "f_retryable failure \<and> dr_attempts r < cfg_max_attempts c"
    unfolding r1' by (auto simp: ready_def failed_row_def Let_def split: if_splits)
  with r1(2) have "format_timestamp (now + backoff (cfg_retry_delay c) (dr_attempts r)) \<le> format_timestamp now'"
    unfolding r1' by (auto simp: ready_def failed_row_def Let_def split: if_splits)
  with again r(1) show ?thesis by (simp add: format_timestamp_le [OF assms(6,5)])
qed

definition outage :: delivery_failure where
  "outage = \<lparr>f_class = ''network'', f_retryable = True, f_message = ''timeout''\<rparr>"

definition requeued :: db where
  "requeued = snd (mark_failed default_config no_fault (2 * second) ''k-a'' outage claimed)"

lemma mark_failed_requeued:
  "mark_failed default_config no_fault (2 * second) ''k-a'' outage claimed = (None, requeued)"
proof -
  have "fst (mark_failed default_config no_fault (2 * second) ''k-a'' outage claimed) = None" by code_simp
  then show ?thesis by (simp add: requeued_def prod_eq_iff)
qed

lemma backoff_range: "0 < delay \<Longrightarrow> delay \<le> hour \<Longrightarrow> 0 < backoff delay n \<and> backoff delay n \<le> hour"
  using backoff_positive [of delay n] by (simp add: backoff_def backoff_loop_eq)

theorem retry_only_after_backoff_witness:
  "\<exists>r. delivery_at claimed ''k-a'' = Some r
    \<and> ms_of (2 * second + backoff second (dr_attempts r)) \<le> ms_of (3 * second)"
proof -
  have "\<exists>db2. claim default_config no_fault (3 * second) ''w'' 0 requeued = (Inr [ping ''b'', ping ''a''], db2)"
  proof -
    have "fst (claim default_config no_fault (3 * second) ''w'' 0 requeued) = Inr [ping ''b'', ping ''a'']"
      by code_simp
    then show ?thesis by (metis prod.collapse)
  qed
  then obtain db2 where 1: "claim default_config no_fault (3 * second) ''w'' 0 requeued
    = (Inr [ping ''b'', ping ''a''], db2)" by blast
  have y: "four_digit_year (3 * second)" by code_simp
  have z: "four_digit_year (2 * second + backoff (cfg_retry_delay default_config) n)" for n
    using backoff_range [of second n]
    by (simp add: four_digit_year_def default_config_def second_def hour_def ms_of_def day_ms_def
        millisecond_def) linarith
  show ?thesis
    using retry_only_after_backoff [OF claimed_inv mark_failed_requeued 1 _ y z]
    by (auto simp: ping_def default_config_def)
qed

text \<open>The delay before attempt \<open>n + 1\<close> is the base delay doubled \<open>n - 1\<close> times and
  capped at one hour; no 64-bit overflow occurs on the way.\<close>

theorem backoff_doubles:
  assumes "0 < delay" "delay \<le> hour" "1 \<le> attempts"
  shows "backoff delay attempts = min (delay * 2 ^ nat (attempts - 1)) hour"
  by (rule backoff_eq [OF assms])

theorem backoff_doubles_witness: "backoff second 5 = 16 * second \<and> backoff second 40 = hour"
proof -
  have s: "0 < second" "second \<le> hour" by (simp_all add: second_def hour_def)
  show ?thesis
    using backoff_doubles [OF s, of 5] backoff_doubles [OF s, of 40] by (simp add: second_def hour_def)
qed

lemma enqueue_writes:
  assumes "enqueue f now event ds state db = (e, db')"
  shows "case e of
      Some err \<Rightarrow> db' = db
    | None \<Rightarrow> ev_event_key event \<in> er_event_key ` set (db_events db')
        \<and> inserted db db' now (ev_event_key event) ds
        \<and> (case state of None \<Rightarrow> db_pipeline_states db' = db_pipeline_states db
           | Some st \<Rightarrow> pipeline_state_row_of st now \<in> set (db_pipeline_states db'))"
  using assms
proof (cases rule: enqueue_cases)
  case (ok n rows)
  have "pipeline_state_row_of st now
      \<in> set (upsert_pipeline_state (pipeline_state_row_of st now) (db_pipeline_states db))" for st
    by (auto simp: upsert_pipeline_state_def image_iff)
  moreover have "inserted db db' now (ev_event_key event) ds"
    using enqueue_delivery_at assms ok(1) by blast
  ultimately show ?thesis
    using ok by (auto simp: event_keys_insert event_row_of_def split: option.split)
qed simp

text \<open>C4: enqueueing an event is all or nothing: after an error the database is unchanged; after
  success the event is recorded, each of its deliveries with a key and a recipient has a row,
  rows that were there before are untouched, and the pipeline state, if any, is written.\<close>

theorem enqueue_atomic:
  assumes "enqueue f now event ds state db = (e, db')"
  shows "case e of
      Some err \<Rightarrow> db' = db
    | None \<Rightarrow> ev_event_key event \<in> er_event_key ` set (db_events db')
        \<and> inserted db db' now (ev_event_key event) ds
        \<and> (case state of None \<Rightarrow> db_pipeline_states db' = db_pipeline_states db
           | Some st \<Rightarrow> pipeline_state_row_of st now \<in> set (db_pipeline_states db'))"
  using assms by (rule enqueue_writes)

theorem enqueue_atomic_witness:
  "''ev'' \<in> er_event_key ` set (db_events queued)
   \<and> inserted empty_db queued 0 ''ev'' [ping ''a'', ping ''b'']"
  using enqueue_atomic [OF enqueue_queued] by (simp add: ping_event_def)

text \<open>A webhook that the provider delivers twice is harmless to the outbox: whatever the
  second enqueue of the event returns, the events and deliveries stay as the first left
  them.\<close>

theorem enqueue_idempotent:
  assumes "enqueue f now event ds state db = (None, db1)"
    "enqueue f' now' event ds state' db1 = (e, db2)"
  shows "db_events db2 = db_events db1 \<and> db_deliveries db2 = db_deliveries db1"
  using enqueue_again [OF assms] by blast

theorem enqueue_idempotent_witness:
  "db_deliveries (snd (enqueue no_fault second ping_event [ping ''a'', ping ''b''] None queued))
     = db_deliveries queued"
  using enqueue_idempotent [OF enqueue_queued prod.collapse [symmetric]] by blast

text \<open>C40: a worker that dies during the last attempt leaves the delivery in \<open>processing\<close> for
  good: no claim, however late, returns it, and no failure is recorded.\<close>

theorem last_attempt_is_never_reclaimed:
  assumes "outbox_inv c db" "delivery_at db k = Some r" "dr_attempts r = cfg_max_attempts c"
    "claim c f now w limit db = (res, db')"
  shows "delivery_at db' k = Some r \<and> (\<forall>ds. res = Inr ds \<longrightarrow> k \<notin> set (map d_key ds))"
  using assms(4)
proof (cases rule: claim_cases)
  case (ok ds m)
  then have cl: "claim c f now w limit db = (Inr ds, db')" using assms(4) by simp
  have "k \<notin> d_key ` set ds"
  proof
    assume "k \<in> d_key ` set ds"
    then obtain r' where "delivery_at db k = Some r'" "ready c (format_timestamp now) r'"
      by (rule claim_was_ready [OF assms(1) cl])
    then show False using assms(2,3) by (auto simp: ready_def)
  qed
  then show ?thesis using claim_delivery_at [OF assms(1) cl, of k] assms(2) ok(1) by simp
qed (use assms(2) in simp)

definition one_attempt :: store_config where
  "one_attempt = default_config\<lparr>cfg_max_attempts := 1\<rparr>"

theorem last_attempt_is_never_reclaimed_witness:
  "\<exists>r. delivery_at (snd (claim one_attempt no_fault (24 * hour) ''v'' 0
      (snd (claim one_attempt no_fault second ''w'' 0 queued)))) ''k-a'' = Some r
    \<and> dr_status r = Processing"
proof -
  let ?db = "snd (claim one_attempt no_fault second ''w'' 0 queued)"
  have cok: "config_ok one_attempt" by code_simp
  have "outbox_inv one_attempt queued"
    by (rule enqueue_inv [OF outbox_inv_empty [OF cok] enqueue_queued])
  then have inv: "outbox_inv one_attempt ?db" by (rule claim_inv [OF _ prod.collapse [symmetric]])
  have at: "map_option (\<lambda>r. (dr_attempts r, dr_status r)) (delivery_at ?db ''k-a'') = Some (1, Processing)"
    by code_simp
  then obtain r where r: "delivery_at ?db ''k-a'' = Some r" "dr_attempts r = 1" "dr_status r = Processing"
    by auto
  have "dr_attempts r = cfg_max_attempts one_attempt" using r(2) by (simp add: one_attempt_def)
  from last_attempt_is_never_reclaimed [OF inv r(1) this prod.collapse [symmetric]] r(3)
  show ?thesis by blast
qed

text \<open>The marks are not bound to a lease: a failure reported late, by a worker whose lease
  ran out, puts a delivery that another worker has completed back into the queue.\<close>

theorem late_failure_reopens_delivered:
  assumes "delivery_at db k = Some r" "dr_status r = Delivered" "dr_attempts r < cfg_max_attempts c"
    "f_retryable failure" "mark_failed c f now k failure db = (None, db')"
  shows "\<exists>r'. delivery_at db' k = Some r' \<and> dr_status r' = Pending
    \<and> ready c (format_timestamp (now + backoff (cfg_retry_delay c) (dr_attempts r))) r'"
proof (rule mark_failed_at [OF assms(5)])
  fix row
  assume row: "delivery_at db k = Some row"
    "\<forall>k'. delivery_at db' k' = (if k' = k then Some (failed_row c now failure (dr_attempts row) row)
      else delivery_at db k')"
  then have "row = r" using assms(1) by simp
  then show ?thesis using row(2) assms(3,4) by (simp add: failed_row_def ready_def Let_def)
qed

theorem late_failure_reopens_delivered_witness:
  "\<exists>r'. delivery_at (snd (mark_failed default_config no_fault (3 * second) ''k-a'' outage
      (snd (mark_delivered no_fault (2 * second) ''k-a'' \<lparr>rc_provider_message_id = ''m''\<rparr> claimed)))) ''k-a''
    = Some r' \<and> dr_status r' = Pending"
proof -
  let ?db = "snd (mark_delivered no_fault (2 * second) ''k-a'' \<lparr>rc_provider_message_id = ''m''\<rparr> claimed)"
  have at: "map_option (\<lambda>r. (dr_attempts r, dr_status r)) (delivery_at ?db ''k-a'') = Some (1, Delivered)"
    by code_simp
  then obtain r where r: "delivery_at ?db ''k-a'' = Some r" "dr_attempts r = 1" "dr_status r = Delivered"
    by auto
  have "fst (mark_failed default_config no_fault (3 * second) ''k-a'' outage ?db) = None" by code_simp
  then have m: "mark_failed default_config no_fault (3 * second) ''k-a'' outage ?db
      = (None, snd (mark_failed default_config no_fault (3 * second) ''k-a'' outage ?db))"
    by (simp add: prod_eq_iff)
  have "dr_attempts r < cfg_max_attempts default_config" "f_retryable outage"
    using r(2) by (simp_all add: default_config_def outage_def)
  from late_failure_reopens_delivered [OF r(1,3) this m] show ?thesis by blast
qed

text \<open>The error text that is stored is the reported one, or its first thousand runes and
  an ellipsis.\<close>

theorem stored_error_is_cut:
  "truncate_error v = (if length (runes v) \<le> 1000 then v
     else string_of_runes (take 1000 (runes v)) @ string_of_runes [0x2026])
   \<and> length (runes (truncate_error v)) \<le> 1001"
proof
  show "length (runes (truncate_error v)) \<le> 1001"
    using length_runes_cut [of v 1000] by (simp add: truncate_error_def)
qed (simp add: truncate_error_def cut_runes_def Let_def ellipsis_runes)

end
