(* ===== verification/StoreInteraction.thy ===== *)
theory StoreInteraction
  imports StorePreference Outbox
begin

section \<open>The SQLite store: interactions\<close>

text \<open>
  sqlite/interactions.go: the log of card interactions, whose primary key makes each event
  begin once, and the lookup of a delivery by the message the messenger gave it.
\<close>

definition begin_interaction :: "fault \<Rightarrow> time \<Rightarrow> interaction_record \<Rightarrow> db \<Rightarrow> bool res \<times> db" where
  "begin_interaction f now r db =
     (if rec_event_id r = [] then (Inl (Msg ''interaction event id is required''), db)
      else case f 0 of
        Some e \<Rightarrow> (Inl (Wrap ''record interaction'' e), db)
      | None \<Rightarrow>
        let known = (rec_event_id r \<in> ix_event_id ` set (db_interactions db));
            row = \<lparr>ix_event_id = rec_event_id r, ix_message_id = rec_message_id r,
                   ix_actor_id = rec_actor_id r, ix_action = rec_action r,
                   ix_result = ''processing'', ix_created_at = format_timestamp now,
                   ix_updated_at = format_timestamp now\<rparr>;
            db' = (if known then db else db\<lparr>db_interactions := db_interactions db @ [row]\<rparr>)
        in case f 1 of
          Some e \<Rightarrow> (Inl (Wrap ''count interaction'' e), db')
        | None \<Rightarrow> (Inr known, db'))"

definition finish_interaction :: "fault \<Rightarrow> time \<Rightarrow> string \<Rightarrow> string \<Rightarrow> db \<Rightarrow> go_error option \<times> db" where
  "finish_interaction f now event_id result db =
     (if event_id = [] then (None, db)
      else case f 0 of
        Some e \<Rightarrow> (Some (Wrap ''finish interaction'' e), db)
      | None \<Rightarrow> (None, db\<lparr>db_interactions := map (\<lambda>r. if ix_event_id r = event_id
          then r\<lparr>ix_result := result, ix_updated_at := format_timestamp now\<rparr> else r)
          (db_interactions db)\<rparr>))"

definition delivery_by_message_id :: "fault \<Rightarrow> string \<Rightarrow> db \<Rightarrow> recorded_delivery option res" where
  "delivery_by_message_id f message_id db =
     (if message_id = [] then Inr None
      else case f 0 of
        Some e \<Rightarrow> Inl (Wrap ''lookup delivery by message'' e)
      | None \<Rightarrow>
        case latest dr_updated_at (filter (\<lambda>r. dr_provider_message_id r = Some message_id) (db_deliveries db)) of
          None \<Rightarrow> Inr None
        | Some r \<Rightarrow>
          (case dr_notification r of
             Corrupt \<Rightarrow> Inl (Wrap ''decode delivery notification'' (Msg ''invalid JSON''))
           | Json nt \<Rightarrow> Inr (Some \<lparr>rd_key = dr_key r, rd_notification = nt\<rparr>)))"

subsection \<open>Effects\<close>

definition begun :: "db \<Rightarrow> string set" where
  "begun db = ix_event_id ` set (db_interactions db)"

lemma begin_interaction_ok:
  assumes "begin_interaction f now r db = (Inr dup, db')"
  shows "rec_event_id r \<noteq> []" "dup \<longleftrightarrow> rec_event_id r \<in> begun db"
    "begun db' = insert (rec_event_id r) (begun db)" "dup \<Longrightarrow> db' = db"
    "db_preferences db' = db_preferences db" "db_deliveries db' = db_deliveries db"
  using assms
  by (auto simp: begin_interaction_def begun_def Let_def split: if_splits option.splits)

lemma begin_interaction_begun:
  "begin_interaction f now r db = (res, db') \<Longrightarrow> begun db \<subseteq> begun db'
     \<and> db_preferences db' = db_preferences db \<and> db_deliveries db' = db_deliveries db"
  by (auto simp: begin_interaction_def begun_def Let_def split: if_splits option.splits)

lemma finish_interaction_frame:
  assumes "finish_interaction f now k result db = (e, db')"
  shows "begun db' = begun db" "db_preferences db' = db_preferences db"
    "db_deliveries db' = db_deliveries db"
proof -
  have "ix_event_id ` set (map (\<lambda>r. if ix_event_id r = k
      then r\<lparr>ix_result := result, ix_updated_at := format_timestamp now\<rparr> else r) (db_interactions db))
    = ix_event_id ` set (db_interactions db)"
    by (rule image_map_same) simp
  then show "begun db' = begun db" "db_preferences db' = db_preferences db"
    "db_deliveries db' = db_deliveries db"
    using assms by (auto simp: finish_interaction_def begun_def simp del: set_map split: if_splits option.splits)
qed

lemma set_mute_begun: "set_mute f now a u db = (e, db') \<Longrightarrow> begun db' = begun db \<and> db_deliveries db' = db_deliveries db"
  by (auto simp: set_mute_def Let_def begun_def split: if_splits option.splits)

text \<open>A delivery is found by its message as long as no other row carries the message.\<close>

lemma delivery_by_message_id_unique:
  assumes "r \<in> set (db_deliveries db)" "dr_provider_message_id r = Some m" "m \<noteq> []"
    "\<forall>s \<in> set (db_deliveries db). dr_provider_message_id s = Some m \<longrightarrow> s = r"
    "dr_notification r = Json nt" "f 0 = None"
  shows "delivery_by_message_id f m db = Inr (Some \<lparr>rd_key = dr_key r, rd_notification = nt\<rparr>)"
proof -
  have "latest dr_updated_at (filter (\<lambda>r. dr_provider_message_id r = Some m) (db_deliveries db)) = Some r"
    by (rule latest_only; unfold set_filter) (use assms(1,2,4) in blast)+
  with assms(3,5,6) show ?thesis by (simp add: delivery_by_message_id_def)
qed

lemma delivery_by_message_id_Some:
  assumes "delivery_by_message_id f m db = Inr (Some d)"
  shows "\<exists>r \<in> set (db_deliveries db). dr_provider_message_id r = Some m \<and> dr_key r = rd_key d
    \<and> dr_notification r = Json (rd_notification d)"
proof -
  from assms obtain r where r: "latest dr_updated_at
      (filter (\<lambda>r. dr_provider_message_id r = Some m) (db_deliveries db)) = Some r"
    "dr_key r = rd_key d" "dr_notification r = Json (rd_notification d)"
    by (auto simp: delivery_by_message_id_def split: if_splits option.splits stored.splits)
  from latest_in [OF r(1)] r(2,3) show ?thesis by auto
qed

end
