(* ===== verification/StoreFrames.thy ===== *)
theory StoreFrames
  imports StoreInteraction
begin

section \<open>What the operations of the store leave alone\<close>

text \<open>
  The database falls into parts that the operations of one component write and all others
  leave alone. The rewrite rules of \<open>frame_simps\<close> say which operation keeps which part,
  whatever it returns; an invariant of one part is kept by every operation on another.
\<close>

definition outbox_part :: "db \<Rightarrow> event_row list \<times> delivery_row list \<times> pipeline_state_row list" where
  "outbox_part db = (db_events db, db_deliveries db, db_pipeline_states db)"

definition identity_part :: "db \<Rightarrow> identity_row list \<times> int" where
  "identity_part db = (db_identities db, db_next_identity_id db)"

lemma outbox_part_inv: "outbox_part a = outbox_part b \<Longrightarrow> outbox_inv c a = outbox_inv c b"
  by (simp add: outbox_part_def outbox_inv_def)

lemma identity_part_inv: "identity_part a = identity_part b \<Longrightarrow> identity_inv a = identity_inv b"
  by (simp add: identity_part_def identity_inv_def)

lemma outbox_part_at: "outbox_part a = outbox_part b \<Longrightarrow> delivery_at a k = delivery_at b k"
  by (simp add: outbox_part_def delivery_at_def)

subsection \<open>The outbox\<close>

lemma enqueue_frame [frame_simps]:
  "identity_part (snd (enqueue f now event ds st db)) = identity_part db"
  "db_preferences (snd (enqueue f now event ds st db)) = db_preferences db"
  "db_interactions (snd (enqueue f now event ds st db)) = db_interactions db"
  "db_unresolved (snd (enqueue f now event ds st db)) = db_unresolved db"
  by (auto simp: enqueue_def Let_def identity_part_def split: option.split sum.split)

lemma record_ignored_frame [frame_simps]:
  "identity_part (snd (record_ignored f now k v e db)) = identity_part db"
  "db_preferences (snd (record_ignored f now k v e db)) = db_preferences db"
  "db_interactions (snd (record_ignored f now k v e db)) = db_interactions db"
  "db_deliveries (snd (record_ignored f now k v e db)) = db_deliveries db"
  "db_pipeline_states (snd (record_ignored f now k v e db)) = db_pipeline_states db"
  by (auto simp: record_ignored_def identity_part_def split: option.split)

lemma claim_frame [frame_simps]:
  "identity_part (snd (claim c f now w n db)) = identity_part db"
  "db_preferences (snd (claim c f now w n db)) = db_preferences db"
  "db_interactions (snd (claim c f now w n db)) = db_interactions db"
  "db_events (snd (claim c f now w n db)) = db_events db"
  "db_pipeline_states (snd (claim c f now w n db)) = db_pipeline_states db"
  by (auto simp: claim_def Let_def identity_part_def split: option.split sum.split)

lemma mark_delivered_frame [frame_simps]:
  "identity_part (snd (mark_delivered f now k r db)) = identity_part db"
  "db_preferences (snd (mark_delivered f now k r db)) = db_preferences db"
  "db_interactions (snd (mark_delivered f now k r db)) = db_interactions db"
  "db_events (snd (mark_delivered f now k r db)) = db_events db"
  "db_pipeline_states (snd (mark_delivered f now k r db)) = db_pipeline_states db"
  by (auto simp: mark_delivered_def identity_part_def split: option.split)

lemma mark_failed_frame [frame_simps]:
  "identity_part (snd (mark_failed c f now k r db)) = identity_part db"
  "db_preferences (snd (mark_failed c f now k r db)) = db_preferences db"
  "db_interactions (snd (mark_failed c f now k r db)) = db_interactions db"
  "db_events (snd (mark_failed c f now k r db)) = db_events db"
  "db_pipeline_states (snd (mark_failed c f now k r db)) = db_pipeline_states db"
  by (auto simp: mark_failed_def Let_def identity_part_def split: option.split)

lemma put_pipeline_state_frame [frame_simps]:
  "identity_part (snd (put_pipeline_state f now st db)) = identity_part db"
  "db_preferences (snd (put_pipeline_state f now st db)) = db_preferences db"
  "db_deliveries (snd (put_pipeline_state f now st db)) = db_deliveries db"
  "db_events (snd (put_pipeline_state f now st db)) = db_events db"
  by (auto simp: put_pipeline_state_def identity_part_def split: option.split)

subsection \<open>Identities, preferences, interactions\<close>

lemma write_identities_frame:
  "outbox_part (snd (write_identities what rows n db)) = outbox_part db"
  "db_preferences (snd (write_identities what rows n db)) = db_preferences db"
  "db_interactions (snd (write_identities what rows n db)) = db_interactions db"
  "db_unresolved (snd (write_identities what rows n db)) = db_unresolved db"
  by (simp_all add: write_identities_def outbox_part_def)

lemma upsert_frame [frame_simps]:
  "outbox_part (snd (upsert f now p i en db)) = outbox_part db"
  "db_preferences (snd (upsert f now p i en db)) = db_preferences db"
  "db_interactions (snd (upsert f now p i en db)) = db_interactions db"
  "db_unresolved (snd (upsert f now p i en db)) = db_unresolved db"
  unfolding upsert_def save_identity_def Let_def
  by (auto simp: write_identities_frame split: option.split)

lemma disable_except_frame [frame_simps]:
  "outbox_part (snd (disable_except f now p ids db)) = outbox_part db"
  "db_preferences (snd (disable_except f now p ids db)) = db_preferences db"
  "db_interactions (snd (disable_except f now p ids db)) = db_interactions db"
  by (auto simp: disable_except_def Let_def outbox_part_def split: option.split)

lemma record_unresolved_frame [frame_simps]:
  "outbox_part (snd (record_unresolved f now k ids db)) = outbox_part db"
  "identity_part (snd (record_unresolved f now k ids db)) = identity_part db"
  "db_preferences (snd (record_unresolved f now k ids db)) = db_preferences db"
  "db_interactions (snd (record_unresolved f now k ids db)) = db_interactions db"
  by (auto simp: record_unresolved_def outbox_part_def identity_part_def split: prod.split)

lemma set_mute_frame [frame_simps]:
  "outbox_part (snd (set_mute f now a until db)) = outbox_part db"
  "identity_part (snd (set_mute f now a until db)) = identity_part db"
  by (auto simp: set_mute_def Let_def outbox_part_def identity_part_def split: option.split)

lemma upsert_preference_frame [frame_simps]:
  "outbox_part (snd (upsert_preference f now p db)) = outbox_part db"
  "identity_part (snd (upsert_preference f now p db)) = identity_part db"
  by (auto simp: upsert_preference_def Let_def outbox_part_def identity_part_def split: option.split)

lemma interaction_frame [frame_simps]:
  "outbox_part (snd (begin_interaction f now r db)) = outbox_part db"
  "identity_part (snd (begin_interaction f now r db)) = identity_part db"
  "outbox_part (snd (finish_interaction f now k result db)) = outbox_part db"
  "identity_part (snd (finish_interaction f now k result db)) = identity_part db"
  by (auto simp: begin_interaction_def finish_interaction_def Let_def outbox_part_def identity_part_def
      split: option.split)

text \<open>What writes to the outbox without touching a delivery.\<close>

lemma record_ignored_inv [inv_intros]:
  assumes "outbox_inv c db" "record_ignored f now k v e db = (err, db')"
  shows "outbox_inv c db'"
proof -
  from assms(2) consider "db' = db" | r where "db' = db\<lparr>db_events := insert_event r (db_events db)\<rparr>"
    by (auto simp: record_ignored_def split: if_splits option.splits)
  then show ?thesis
  proof cases
    case 2
    then show ?thesis
      using assms(1) by (simp add: outbox_inv_def distinct_insert_event event_keys_insert subset_insertI2)
  qed (use assms(1) in simp)
qed

text \<open>The other way round: an operation on one part keeps the invariants of the others.\<close>

lemma other_parts_inv [inv_intros]:
  "identity_inv db \<Longrightarrow> identity_inv (snd (enqueue f now event ds st db))"
  "identity_inv db \<Longrightarrow> identity_inv (snd (record_ignored f now k v e db))"
  "identity_inv db \<Longrightarrow> identity_inv (snd (claim c f now w n db))"
  "identity_inv db \<Longrightarrow> identity_inv (snd (mark_delivered f now k receipt db))"
  "identity_inv db \<Longrightarrow> identity_inv (snd (mark_failed c f now k failure db))"
  "identity_inv db \<Longrightarrow> identity_inv (snd (record_unresolved f now k ids db))"
  "outbox_inv c db \<Longrightarrow> outbox_inv c (snd (upsert f now p i en db))"
  "outbox_inv c db \<Longrightarrow> outbox_inv c (snd (disable_except f now p pids db))"
  "outbox_inv c db \<Longrightarrow> outbox_inv c (snd (record_unresolved f now k ids db))"
  by (simp_all add: frame_simps cong: identity_part_inv outbox_part_inv)

end
