(* ===== verification/GoHash.thy ===== *)
theory GoHash
  imports GoStrings "HOL-Library.Word"
begin

section \<open>SHA-256\<close>

text \<open>
  crypto/sha256 and encoding/hex, which name an ignored webhook and an event without an id
  header by the digest of its body. The words are 32 bits wide and wrap around; a string is
  the list of its bytes.
\<close>

unbundle bit_operations_syntax

definition rotr :: "nat \<Rightarrow> 32 word \<Rightarrow> 32 word" where
  "rotr n w = drop_bit n w OR push_bit (32 - n) w"

definition round_constants :: "32 word list" where
  "round_constants =
    [1116352408, 1899447441, 3049323471, 3921009573, 961987163, 1508970993, 2453635748, 2870763221,
     3624381080, 310598401, 607225278, 1426881987, 1925078388, 2162078206, 2614888103, 3248222580,
     3835390401, 4022224774, 264347078, 604807628, 770255983, 1249150122, 1555081692, 1996064986,
     2554220882, 2821834349, 2952996808, 3210313671, 3336571891, 3584528711, 113926993, 338241895,
     666307205, 773529912, 1294757372, 1396182291, 1695183700, 1986661051, 2177026350, 2456956037,
     2730485921, 2820302411, 3259730800, 3345764771, 3516065817, 3600352804, 4094571909, 275423344,
     430227734, 506948616, 659060556, 883997877, 958139571, 1322822218, 1537002063, 1747873779,
     1955562222, 2024104815, 2227730452, 2361852424, 2428436474, 2756734187, 3204031479, 3329325298]"

definition initial_hash :: "32 word list" where
  "initial_hash = [1779033703, 3144134277, 1013904242, 2773480762, 1359893119, 2600822924, 528734635, 1541459225]"

text \<open>The sixteen words of a block, latest first, become sixty-four.\<close>

fun schedule :: "nat \<Rightarrow> 32 word list \<Rightarrow> 32 word list" where
  "schedule 0 ws = ws"
| "schedule (Suc n) ws =
     (let w15 = ws ! 14; w2 = ws ! 1;
          s0 = rotr 7 w15 XOR rotr 18 w15 XOR drop_bit 3 w15;
          s1 = rotr 17 w2 XOR rotr 19 w2 XOR drop_bit 10 w2
      in schedule n ((ws ! 15 + s0 + ws ! 6 + s1) # ws))"

fun compress :: "32 word list \<Rightarrow> (32 word \<times> 32 word) list \<Rightarrow> 32 word list" where
  "compress [a, b, c, d, e, f, g, h] ((k, w) # kws) =
     (let t1 = h + (rotr 6 e XOR rotr 11 e XOR rotr 25 e) + ((e AND f) XOR (NOT e AND g)) + k + w;
          t2 = (rotr 2 a XOR rotr 13 a XOR rotr 22 a) + ((a AND b) XOR (a AND c) XOR (b AND c))
      in compress [t1 + t2, a, b, c, d + t1, e, f, g] kws)"
| "compress s kws = s"

definition byte_word :: "char \<Rightarrow> 32 word" where
  "byte_word c = word_of_nat (of_char c)"

fun words_of :: "string \<Rightarrow> 32 word list" where
  "words_of (a # b # c # d # s) =
     (push_bit 24 (byte_word a) OR push_bit 16 (byte_word b) OR push_bit 8 (byte_word c) OR byte_word d) # words_of s"
| "words_of s = []"

definition hash_block :: "32 word list \<Rightarrow> 32 word list \<Rightarrow> 32 word list" where
  "hash_block h ws = map2 (+) h (compress h (zip round_constants (rev (schedule 48 (rev ws)))))"

function hash_blocks :: "32 word list \<Rightarrow> 32 word list \<Rightarrow> 32 word list" where
  "hash_blocks h ws = (if length ws < 16 then h else hash_blocks (hash_block h (take 16 ws)) (drop 16 ws))"
  by pat_completeness auto

termination by (relation "measure (length \<circ> snd)") auto

text \<open>The message, a one bit, zeros, and the length in bits as 64 bits.\<close>

definition nat_bytes :: "nat \<Rightarrow> nat \<Rightarrow> string" where
  "nat_bytes width n = map (\<lambda>i. char_of (n div 256 ^ i)) (rev [0..<width])"

definition padded :: "string \<Rightarrow> string" where
  "padded s = s @ char_of (128 :: nat) # replicate ((119 - length s mod 64) mod 64) (char_of (0 :: nat))
     @ nat_bytes 8 (8 * length s)"

definition hex_word :: "32 word \<Rightarrow> string" where
  "hex_word w = map (\<lambda>i. ''0123456789abcdef'' ! (unat w div 16 ^ i mod 16)) (rev [0..<8])"

definition sha256_hex :: "string \<Rightarrow> string" where
  "sha256_hex s = concat (map hex_word (hash_blocks initial_hash (words_of (padded s))))"

lemma length_schedule [simp]: "length (schedule n ws) = n + length ws"
  by (induction n ws rule: schedule.induct) (simp_all add: Let_def)

lemma length_compress [simp]: "length (compress s kws) = length s"
  by (induction s kws rule: compress.induct) (simp_all add: Let_def)

lemma length_hash_block [simp]: "length (hash_block h ws) = length h"
  by (simp add: hash_block_def)

declare hash_blocks.simps [simp del]

lemma length_hash_blocks [simp]: "length (hash_blocks h ws) = length h"
  by (induction h ws rule: hash_blocks.induct) (subst hash_blocks.simps, simp)

lemma length_sha256_hex [simp]: "length (sha256_hex s) = 64"
proof -
  have "length (hash_blocks initial_hash (words_of (padded s))) = 8" by (simp add: initial_hash_def)
  moreover have "length (hex_word w) = 8" for w by (simp add: hex_word_def)
  then have "length (concat (map hex_word ws)) = 8 * length ws" for ws by (induction ws) simp_all
  ultimately show ?thesis by (simp add: sha256_hex_def)
qed

end
