(* ===== verification/Ingest.thy ===== *)
theory Ingest
  imports RoutingStore StoreFrames GoHash
begin

section \<open>Taking in a webhook\<close>

text \<open>
  application/ingest.go: decode, enrich, remember the identities, route, enqueue. The service
  is a record of what it is built from; a field that may be nil, or an interface the store
  may not offer, is an option. \<open>Header.Get\<close> is a function of the header's name. Logging is
  left out. The locale \<open>ingest_store\<close> states what the service relies on, and the
  interpretation \<open>sqlite_ingest\<close> shows it for the SQLite store as main.go wires it.
\<close>

type_synonym headers = "string \<Rightarrow> string"

record decoder =
  dc_provider :: provider
  dc_source_label :: string
  dc_decode :: "headers \<Rightarrow> string \<Rightarrow> canonical_event res"

subsection \<open>The decoder registry\<close>

definition label_of :: "decoder \<Rightarrow> string" where
  "label_of d = (let label = trim_space (dc_source_label d) in if label = [] then dc_provider d else label)"

fun try_decoders ::
  "decoder list \<Rightarrow> headers \<Rightarrow> string \<Rightarrow> bool \<Rightarrow> go_error option \<Rightarrow> canonical_event res" where
  "try_decoders [] hs body ignored last_err =
     (if ignored then Inl Ignored
      else case last_err of Some e \<Rightarrow> Inl e | None \<Rightarrow> Inl (Msg ''no configured decoder accepted webhook''))"
| "try_decoders (d # ds) hs body ignored last_err =
     (case dc_decode d hs body of
        Inr event \<Rightarrow> Inr (event\<lparr>ev_source_label := label_of d\<rparr>)
      | Inl e \<Rightarrow>
        if errors_is e Ignored then try_decoders ds hs body True last_err
        else try_decoders ds hs body ignored (Some e))"

definition registry_decode :: "decoder list option \<Rightarrow> headers \<Rightarrow> string \<Rightarrow> canonical_event res" where
  "registry_decode r hs body =
     (case r of
        None \<Rightarrow> Inl (Msg ''no webhook decoders configured'')
      | Some ds \<Rightarrow>
        if ds = [] then Inl (Msg ''no webhook decoders configured'')
        else try_decoders ds hs body False None)"

subsection \<open>The identities of an event\<close>

definition event_identities :: "canonical_event \<Rightarrow> identity list" where
  "event_identities event =
     [ev_actor event]
     @ (case ev_author event of None \<Rightarrow> [] | Some a \<Rightarrow> [a])
     @ ev_reviewers event @ ev_assignees event @ ev_mentions event
     @ (case ev_pipeline event of None \<Rightarrow> [] | Some pl \<Rightarrow> [pl_commit_author pl])
     @ (case ev_merge_request event of None \<Rightarrow> []
        | Some mr \<Rightarrow> mr_author mr # mr_reviewers mr @ mr_assignees mr)
     @ (case ev_note event of None \<Rightarrow> []
        | Some nt \<Rightarrow>
          (case nt_merge_request nt of None \<Rightarrow> []
           | Some mr \<Rightarrow> mr_author mr # mr_reviewers mr @ mr_assignees mr)
          @ (case nt_issue nt of None \<Rightarrow> [] | Some is \<Rightarrow> is_author is # is_assignees is))
     @ (case ev_issue event of None \<Rightarrow> [] | Some is \<Rightarrow> is_author is # is_assignees is)"

text \<open>The loop of \<open>rememberIdentities\<close>; \<open>up n\<close> is the n-th call of \<open>Upsert\<close>, its error is logged.\<close>

fun remember ::
  "(nat \<Rightarrow> provider \<Rightarrow> identity \<Rightarrow> bool \<Rightarrow> 's \<Rightarrow> go_error option \<times> 's) \<Rightarrow> nat \<Rightarrow> provider \<Rightarrow> identity list \<Rightarrow> 's \<Rightarrow> 's" where
  "remember up n source [] s = s"
| "remember up n source (i0 # is) s =
     (let i = (if i_provider i0 = [] then i0\<lparr>i_provider := source\<rparr> else i0) in
      if i_provider_id i = [] \<and> i_username i = [] then remember up n source is s
      else if i_email i = [] then remember up n source is s
      else remember up (Suc n) source is (snd (up n (i_provider i) i True s)))"

lemma remember_keeps_inv:
  assumes "P s" "\<And>n p i s. P s \<Longrightarrow> P (snd (up n p i True s))"
  shows "P (remember up n source is s)"
  using assms(1) by (induction "is" arbitrary: n s) (simp_all add: Let_def assms(2))

subsection \<open>Handle\<close>

record ingest_result =
  ig_status :: string
  ig_event_key :: string
  ig_delivery_count :: nat
  ig_unresolved_count :: nat

record 's event_store =
  es_enqueue :: "canonical_event \<Rightarrow> delivery list \<Rightarrow> 's \<Rightarrow> go_error option \<times> 's"
  es_transactional :: "(canonical_event \<Rightarrow> delivery list \<Rightarrow> pipeline_state option \<Rightarrow> 's \<Rightarrow> go_error option \<times> 's) option"
  es_ignored :: "(string \<Rightarrow> string \<Rightarrow> string \<Rightarrow> 's \<Rightarrow> go_error option \<times> 's) option"
  es_unresolved :: "(string \<Rightarrow> identity list \<Rightarrow> 's \<Rightarrow> go_error option \<times> 's) option"

record 's ingest_service =
  sv_decoders :: "decoder list option"
  sv_router :: "('s \<Rightarrow> router) option"
  sv_events :: "'s event_store option"
  sv_pipeline_put :: "(pipeline_state \<Rightarrow> 's \<Rightarrow> go_error option \<times> 's) option"
  sv_upsert :: "(nat \<Rightarrow> provider \<Rightarrow> identity \<Rightarrow> bool \<Rightarrow> 's \<Rightarrow> go_error option \<times> 's) option"
  sv_resolver :: "(canonical_event \<Rightarrow> canonical_event \<times> go_error option) option"

definition ignored_result :: ingest_result where
  "ignored_result = \<lparr>ig_status = ''ignored'', ig_event_key = [], ig_delivery_count = 0, ig_unresolved_count = 0\<rparr>"

definition ignored_key :: "string \<Rightarrow> string" where
  "ignored_key body = ''gitlab:ignored:'' @ sha256_hex body"

definition enrich :: "'s ingest_service \<Rightarrow> canonical_event \<Rightarrow> canonical_event" where
  "enrich svc event = (case sv_resolver svc of None \<Rightarrow> event | Some f \<Rightarrow> fst (f event))"

definition remember_identities :: "'s ingest_service \<Rightarrow> canonical_event \<Rightarrow> 's \<Rightarrow> 's" where
  "remember_identities svc event s =
     (case sv_upsert svc of None \<Rightarrow> s
      | Some up \<Rightarrow> remember up 0 (ev_source event) (event_identities event) s)"

text \<open>Storing the result of the routing: in one transaction if the store offers it.\<close>

definition store_event ::
  "'s ingest_service \<Rightarrow> 's event_store \<Rightarrow> canonical_event \<Rightarrow> route_result \<Rightarrow> 's \<Rightarrow> go_error option \<times> 's" where
  "store_event svc es event rr s =
     (case es_transactional es of
        Some enq \<Rightarrow> apfst (map_option (Wrap ''enqueue webhook event'')) (enq event (rr_deliveries rr) (rr_pipeline_state rr) s)
      | None \<Rightarrow>
        (case es_enqueue es event (rr_deliveries rr) s of
           (Some e, s1) \<Rightarrow> (Some (Wrap ''enqueue webhook event'' e), s1)
         | (None, s1) \<Rightarrow>
           (case (rr_pipeline_state rr, sv_pipeline_put svc) of
              (Some st, Some put) \<Rightarrow> apfst (map_option (Wrap ''store pipeline state'')) (put st s1)
            | _ \<Rightarrow> (None, s1))))"

definition record_unresolved_users :: "'s event_store \<Rightarrow> string \<Rightarrow> identity list \<Rightarrow> 's \<Rightarrow> 's" where
  "record_unresolved_users es key ids s =
     (if ids = [] then s
      else case es_unresolved es of None \<Rightarrow> s | Some rec \<Rightarrow> snd (rec key ids s))"

definition accept_event ::
  "'s ingest_service \<Rightarrow> ('s \<Rightarrow> router) \<Rightarrow> 's event_store \<Rightarrow> ord \<Rightarrow> canonical_event \<Rightarrow> 's \<Rightarrow> ingest_result res \<times> 's" where
  "accept_event svc router es ord event0 s0 =
     (let event = enrich svc event0;
          s = remember_identities svc event s0
      in case route (router s) ord event of
           Inl e \<Rightarrow> (Inl (Wrap ''route webhook event'' e), s)
         | Inr rr \<Rightarrow>
           (case store_event svc es event rr s of
              (Some e, s1) \<Rightarrow> (Inl e, s1)
            | (None, s1) \<Rightarrow>
              (Inr \<lparr>ig_status = ''accepted'', ig_event_key = ev_event_key event,
                    ig_delivery_count = length (rr_deliveries rr),
                    ig_unresolved_count = length (rr_unresolved rr)\<rparr>,
               record_unresolved_users es (ev_event_key event) (rr_unresolved rr) s1)))"

definition handle_webhook ::
  "'s ingest_service option \<Rightarrow> ord \<Rightarrow> headers \<Rightarrow> string \<Rightarrow> 's \<Rightarrow> ingest_result res \<times> 's" where
  "handle_webhook service ord hs body s =
     (case service of
        None \<Rightarrow> (Inl (Msg ''ingest service is not configured''), s)
      | Some svc \<Rightarrow>
        (case (sv_decoders svc, sv_router svc, sv_events svc) of
           (Some ds, Some router, Some es) \<Rightarrow>
           (case registry_decode (Some ds) hs body of
              Inl e \<Rightarrow>
                if errors_is e Ignored then
                  (Inr ignored_result,
                   (case es_ignored es of None \<Rightarrow> s
                    | Some rec \<Rightarrow> snd (rec (ignored_key body) ''17.6'' (hs ''X-Gitlab-Event'') s)))
                else (Inl (Wrap ''decode webhook'' e), s)
            | Inr event \<Rightarrow> accept_event svc router es ord event s)
         | _ \<Rightarrow> (Inl (Msg ''ingest service is not configured''), s)))"

subsection \<open>What the service relies on\<close>

text \<open>
  \<open>outbox s\<close>: events, deliveries and pipeline states. Only \<open>RecordIgnored\<close> and the
  transaction that enqueues an event change them, and a transaction that fails does not.
\<close>

locale ingest_store =
  fixes svc :: "'s ingest_service" and es :: "'s event_store"
    and enq :: "canonical_event \<Rightarrow> delivery list \<Rightarrow> pipeline_state option \<Rightarrow> 's \<Rightarrow> go_error option \<times> 's"
    and outbox :: "'s \<Rightarrow> 'o"
  assumes events: "sv_events svc = Some es" and transactional: "es_transactional es = Some enq"
    and upsert_keeps: "sv_upsert svc = Some up \<Longrightarrow> outbox (snd (up n p i en s)) = outbox s"
    and enqueue_fails: "enq event ds st s = (Some err, s') \<Longrightarrow> outbox s' = outbox s"
    and unresolved_keeps: "es_unresolved es = Some rec \<Longrightarrow> outbox (snd (rec k ids s)) = outbox s"
begin

lemma remember_keeps: "outbox (remember_identities svc event s) = outbox s"
proof (cases "sv_upsert svc")
  case (Some up)
  have "outbox (remember up 0 (ev_source event) (event_identities event) s) = outbox s"
    by (rule remember_keeps_inv) (simp_all add: upsert_keeps [OF Some])
  then show ?thesis by (simp add: remember_identities_def Some)
qed (simp add: remember_identities_def)

lemma record_keeps: "outbox (record_unresolved_users es k ids s) = outbox s"
  by (simp add: record_unresolved_users_def unresolved_keeps split: option.split)

lemma handle_cases:
  assumes "handle_webhook (Some svc) ord hs body s = (res, s')"
  obtains (unconfigured) e where "res = Inl e" "s' = s"
  | (ignored) "res = Inr ignored_result"
      "s' = (case es_ignored es of None \<Rightarrow> s | Some rec \<Rightarrow> snd (rec (ignored_key body) ''17.6'' (hs ''X-Gitlab-Event'') s))"
  | (undecoded) e where "res = Inl (Wrap ''decode webhook'' e)" "s' = s"
  | (unrouted) e event where "res = Inl (Wrap ''route webhook event'' e)" "s' = remember_identities svc event s"
  | (unstored) e event s1 and rr :: route_result where "res = Inl (Wrap ''enqueue webhook event'' e)" "outbox s' = outbox s"
      "s1 = remember_identities svc event s" "enq event (rr_deliveries rr) (rr_pipeline_state rr) s1 = (Some e, s')"
  | (accepted) event0 event router rr s1 s2 where
      "registry_decode (sv_decoders svc) hs body = Inr event0" "event = enrich svc event0"
      "s1 = remember_identities svc event s" "outbox s1 = outbox s" "sv_router svc = Some router"
      "route (router s1) ord event = Inr rr" "enq event (rr_deliveries rr) (rr_pipeline_state rr) s1 = (None, s2)"
      "s' = record_unresolved_users es (ev_event_key event) (rr_unresolved rr) s2" "outbox s' = outbox s2"
      "res = Inr \<lparr>ig_status = ''accepted'', ig_event_key = ev_event_key event,
         ig_delivery_count = length (rr_deliveries rr), ig_unresolved_count = length (rr_unresolved rr)\<rparr>"
proof (cases "sv_decoders svc = None \<or> sv_router svc = None")
  case True
  with assms events show ?thesis
    by (intro unconfigured [of "Msg ''ingest service is not configured''"]) (auto simp: handle_webhook_def split: option.splits)
next
  case False
  then obtain ds router where cfg: "sv_decoders svc = Some ds" "sv_router svc = Some router" by auto
  show ?thesis
  proof (cases "registry_decode (Some ds) hs body")
    case (Inl e)
    show ?thesis
    proof (cases "errors_is e Ignored")
      case True
      with assms cfg events Inl show ?thesis by (intro ignored) (simp_all add: handle_webhook_def)
    next
      case False
      with assms cfg events Inl show ?thesis by (intro undecoded [of e]) (simp_all add: handle_webhook_def)
    qed
  next
    case (Inr event0)
    define event where "event = enrich svc event0"
    define s1 where "s1 = remember_identities svc event s"
    have o1: "outbox s1 = outbox s" by (simp add: s1_def remember_keeps)
    have acc: "accept_event svc router es ord event0 s = (res, s')"
      using assms cfg events Inr by (simp add: handle_webhook_def)
    show ?thesis
    proof (cases "route (router s1) ord event")
      case (Inl e)
      with acc show ?thesis
        by (intro unrouted [of e event]) (simp_all add: accept_event_def Let_def event_def [symmetric] s1_def [symmetric])
    next
      case rr: (Inr rr)
      obtain e2 s2 where enq: "enq event (rr_deliveries rr) (rr_pipeline_state rr) s1 = (e2, s2)" by fastforce
      have st: "store_event svc es event rr s1 = (map_option (Wrap ''enqueue webhook event'') e2, s2)"
        by (simp add: store_event_def transactional enq)
      show ?thesis
      proof (cases e2)
        case (Some e)
        with acc rr st enq enqueue_fails [OF enq [unfolded Some]] o1 show ?thesis
          by (intro unstored [of e s1 event rr])
            (simp_all add: accept_event_def Let_def event_def [symmetric] s1_def [symmetric])
      next
        case None
        have "(res, s') = (Inr \<lparr>ig_status = ''accepted'', ig_event_key = ev_event_key event,
            ig_delivery_count = length (rr_deliveries rr), ig_unresolved_count = length (rr_unresolved rr)\<rparr>,
            record_unresolved_users es (ev_event_key event) (rr_unresolved rr) s2)"
          using acc rr st None by (simp add: accept_event_def Let_def event_def [symmetric] s1_def [symmetric])
        then show ?thesis
          using Inr cfg event_def s1_def o1 rr enq None record_keeps by (intro accepted [of event0 event s1 router rr s2]) simp_all
      qed
    qed
  qed
qed

end

subsection \<open>The service on the SQLite store\<close>

text \<open>
  As main.go wires it: one store for everything, so the transactional interface is there, one
  decoder, and a resolver if the GitLab API is configured. Call \<open>n\<close> of the store meets the
  fault \<open>f n\<close> at the instant \<open>clock n\<close>.
\<close>

definition sqlite_events :: "(nat \<Rightarrow> fault) \<Rightarrow> (nat \<Rightarrow> time) \<Rightarrow> db event_store" where
  "sqlite_events f clock =
     \<lparr>es_enqueue = (\<lambda>event ds. enqueue (f 4) (clock 4) event ds None),
      es_transactional = Some (enqueue (f 4) (clock 4)),
      es_ignored = Some (record_ignored (f 0) (clock 0)),
      es_unresolved = Some (record_unresolved (f 5) (clock 5))\<rparr>"

definition sqlite_service ::
  "(nat \<Rightarrow> fault) \<Rightarrow> (nat \<Rightarrow> time) \<Rightarrow> (string, unit) gomap \<Rightarrow> recipient_policy option \<Rightarrow> decoder list
     \<Rightarrow> (canonical_event \<Rightarrow> canonical_event \<times> go_error option) option \<Rightarrow> db ingest_service" where
  "sqlite_service f clock domains policy decoders resolver =
     \<lparr>sv_decoders = Some decoders,
      sv_router = Some (sqlite_router (\<lambda>n. f (Suc n)) (clock 1) domains policy),
      sv_events = Some (sqlite_events f clock),
      sv_pipeline_put = Some (put_pipeline_state (f 5) (clock 5)),
      sv_upsert = Some (\<lambda>n. upsert (f (n + 6)) (clock (n + 6))),
      sv_resolver = resolver\<rparr>"

lemma sqlite_service_simps [simp]:
  "sv_decoders (sqlite_service f clock domains policy decoders resolver) = Some decoders"
  "sv_router (sqlite_service f clock domains policy decoders resolver)
    = Some (sqlite_router (\<lambda>n. f (Suc n)) (clock 1) domains policy)"
  "sv_events (sqlite_service f clock domains policy decoders resolver) = Some (sqlite_events f clock)"
  "sv_upsert (sqlite_service f clock domains policy decoders resolver)
    = Some (\<lambda>n. upsert (f (n + 6)) (clock (n + 6)))"
  "sv_resolver (sqlite_service f clock domains policy decoders resolver) = resolver"
  "es_transactional (sqlite_events f clock) = Some (enqueue (f 4) (clock 4))"
  "es_ignored (sqlite_events f clock) = Some (record_ignored (f 0) (clock 0))"
  "es_unresolved (sqlite_events f clock) = Some (record_unresolved (f 5) (clock 5))"
  by (simp_all add: sqlite_service_def sqlite_events_def)

interpretation sqlite_ingest: ingest_store
  "sqlite_service f clock domains policy decoders resolver" "sqlite_events f clock" "enqueue (f 4) (clock 4)" outbox_part
  for f clock domains policy decoders resolver
proof unfold_locales
  fix event ds st s err s'
  assume "enqueue (f 4) (clock 4) event ds st s = (Some err, s')"
  then show "outbox_part s' = outbox_part s" by (cases rule: enqueue_cases) auto
qed (auto simp: frame_simps)

lemma snd_inv: "(\<And>e db'. op db = (e, db') \<Longrightarrow> P db') \<Longrightarrow> P (snd (op db))"
  by (cases "op db") auto

lemma remember_identities_inv:
  "identity_inv db \<Longrightarrow> identity_inv (remember_identities (sqlite_service f clock domains policy decoders resolver) event db)"
  unfolding remember_identities_def sqlite_service_simps option.case
  by (rule remember_keeps_inv) (auto intro: snd_inv upsert_inv)

lemma record_users_frame:
  "identity_part (record_unresolved_users (sqlite_events f clock) k ids db) = identity_part db"
  by (simp add: record_unresolved_users_def frame_simps)

subsection \<open>Properties\<close>

text \<open>C6: a webhook is taken in as a whole or not at all: after an error, events, deliveries and
  pipeline states are as before; an accepted event is recorded with a row for every delivery the
  router made, pending if it is new, and with the pipeline state; an ignored one adds no
  delivery and changes no pipeline state.\<close>

theorem webhook_all_or_nothing:
  assumes "handle_webhook (Some (sqlite_service f clock domains policy decoders resolver)) ord hs body db = (res, db')"
  shows "case res of Inl e \<Rightarrow> outbox_part db' = outbox_part db
    | Inr r \<Rightarrow>
        if ig_status r = ''ignored'' then db_deliveries db' = db_deliveries db \<and> db_pipeline_states db' = db_pipeline_states db
        else \<exists>event rr db1. route (sqlite_router (\<lambda>n. f (Suc n)) (clock 1) domains policy db1) ord event = Inr rr
          \<and> outbox_part db1 = outbox_part db \<and> ig_event_key r = ev_event_key event
          \<and> ig_delivery_count r = length (rr_deliveries rr)
          \<and> ev_event_key event \<in> er_event_key ` set (db_events db')
          \<and> inserted db db' (clock 4) (ev_event_key event) (rr_deliveries rr)
          \<and> (\<forall>st. rr_pipeline_state rr = Some st \<longrightarrow> pipeline_state_row_of st (clock 4) \<in> set (db_pipeline_states db'))"
  using assms
proof (cases rule: sqlite_ingest.handle_cases)
  case ignored
  then show ?thesis by (simp add: ignored_result_def frame_simps)
next
  case (unrouted e event)
  then show ?thesis by (simp add: sqlite_ingest.remember_keeps)
next
  case (accepted event0 event router rr s1 s2)
  note w = enqueue_writes [OF accepted(7), unfolded option.case]
  have same: "db_events db' = db_events s2" "db_pipeline_states db' = db_pipeline_states s2"
    using accepted(9) by (simp_all add: outbox_part_def)
  have "inserted db db' (clock 4) (ev_event_key event) (rr_deliveries rr)"
    using w outbox_part_at [OF accepted(4)] outbox_part_at [OF accepted(9)] by (simp add: inserted_def)
  moreover have "\<forall>st. rr_pipeline_state rr = Some st \<longrightarrow> pipeline_state_row_of st (clock 4) \<in> set (db_pipeline_states db')"
    using w same by auto
  moreover have "route (sqlite_router (\<lambda>n. f (Suc n)) (clock 1) domains policy s1) ord event = Inr rr"
    using accepted(5,6) by simp
  ultimately show ?thesis
    using accepted(4,10) w same by (simp add: ignored_result_def) blast
qed auto

text \<open>Taking in a webhook keeps the invariants of the outbox and of the identity table, whatever
  the payload, the resolver and the faults.\<close>

theorem webhook_keeps_invariants:
  assumes "outbox_inv c db" "identity_inv db"
    "handle_webhook (Some (sqlite_service f clock domains policy decoders resolver)) ord hs body db = (res, db')"
  shows "outbox_inv c db' \<and> identity_inv db'"
  using assms(3)
proof (cases rule: sqlite_ingest.handle_cases)
  case ignored
  then show ?thesis
    using assms(1) other_parts_inv(2) [OF assms(2)]
    by (auto intro: snd_inv record_ignored_inv)
next
  case (unrouted e event)
  then show ?thesis
    using remember_identities_inv [OF assms(2)] assms(1) outbox_part_inv [OF sqlite_ingest.remember_keeps] by auto
next
  case (unstored e event s1 rr)
  from unstored(4) have "db' = s1" by (cases rule: enqueue_cases) auto
  then show ?thesis
    using remember_identities_inv [OF assms(2)] assms(1) outbox_part_inv [OF unstored(2)] unstored(3) by auto
next
  case (accepted event0 event router rr s1 s2)
  have "outbox_inv c s1" using assms(1) outbox_part_inv [OF accepted(4)] by simp
  then have "outbox_inv c s2" by (rule enqueue_inv [OF _ accepted(7)])
  moreover have "identity_inv s1" using remember_identities_inv [OF assms(2)] accepted(3) by simp
  then have "identity_inv s2"
    using other_parts_inv(1) [of s1 "f 4" "clock 4" event "rr_deliveries rr" "rr_pipeline_state rr"]
    unfolding accepted(7) snd_conv by blast
  moreover have "identity_part db' = identity_part s2" unfolding accepted(8) by (rule record_users_frame)
  ultimately show ?thesis
    using outbox_part_inv [OF accepted(9)] identity_part_inv [of db' s2] by simp
qed (use assms(1,2) in auto)

text \<open>A decoder for the witnesses: the header names the event.\<close>

definition sample_decoder :: decoder where
  "sample_decoder = \<lparr>dc_provider = ProviderGitLab, dc_source_label = ''GitLab'',
     dc_decode = (\<lambda>hs body. if hs ''X-Gitlab-Event'' = ''red'' then Inr (main_event ''e-red'' ''failed'')
       else if hs ''X-Gitlab-Event'' = ''green'' then Inr (main_event ''e-green'' ''success'')
       else Inl Ignored)\<rparr>"

definition webhook :: "string \<Rightarrow> db \<Rightarrow> ingest_result res \<times> db" where
  "webhook name = handle_webhook (Some (sqlite_service (\<lambda>_. no_fault) (\<lambda>_. second) [] None [sample_decoder] None))
     (\<lambda>_ ks. ks) (\<lambda>_. name) []"

definition after_red :: db where
  "after_red = snd (webhook ''red'' empty_db)"

lemma webhook_red:
  "webhook ''red'' empty_db = (Inr \<lparr>ig_status = ''accepted'', ig_event_key = ''e-red'', ig_delivery_count = 1,
     ig_unresolved_count = 0\<rparr>, after_red)"
proof -
  have "fst (webhook ''red'' empty_db) = Inr \<lparr>ig_status = ''accepted'', ig_event_key = ''e-red'', ig_delivery_count = 1,
     ig_unresolved_count = 0\<rparr>" by code_simp
  then show ?thesis by (simp add: after_red_def prod_eq_iff)
qed

theorem webhook_all_or_nothing_witness:
  "''e-red'' \<in> er_event_key ` set (db_events after_red)
   \<and> (\<exists>ds. inserted empty_db after_red second ''e-red'' ds \<and> length ds = 1)"
  using webhook_all_or_nothing [OF webhook_red [unfolded webhook_def]] by simp metis

theorem webhook_keeps_invariants_witness: "outbox_inv default_config after_red \<and> identity_inv after_red"
  by (rule webhook_keeps_invariants [OF outbox_inv_empty identity_inv_empty webhook_red [unfolded webhook_def]]) simp

subsection \<open>A recovery is told once\<close>

lemma no_candidates_no_deliveries:
  assumes "map_order ord" "candidates_for r event = Inr []" "route r ord event = Inr rr"
    "\<And>out. resolver_output r [] = Inr out \<Longrightarrow> out = []"
  shows "rr_deliveries rr = []"
proof (rule ccontr)
  assume "rr_deliveries rr \<noteq> []"
  then obtain d where "d \<in> set (rr_deliveries rr)" by (cases "rr_deliveries rr") auto
  with assms(1,3) show False
  proof (rule route_delivery)
    fix items "is" item
    assume 1: "candidates_for r event = Inr items" "resolver_output r (candidate_identities ord items) = Inr is"
      "\<exists>i \<in> set is. email_address i = Some (res_address item)"
    have "candidate_identities ord items = []"
      using 1(1) assms(2) set_visit [OF assms(1), of items 0] by (simp add: candidate_identities_def)
    with 1(2,3) assms(4) show False by auto
  qed
qed

lemma route_pipeline_state:
  assumes "route r ord event = Inr rr" "ev_kind event = EventKindPipeline" "ev_pipeline event = Some pl"
    "rt_pipeline_state r = Some get"
  shows "rr_pipeline_state rr = pipeline_state_for event (rr_deliveries rr) (rt_now r)"
  using assms by (auto simp: route_def Let_def split: if_splits sum.splits)

lemma find_upserted_state:
  "find (\<lambda>r. psr_correlation_key r = psr_correlation_key x) (upsert_pipeline_state x rows) = Some x"
proof (cases "psr_correlation_key x \<in> psr_correlation_key ` set rows")
  case True
  then have "find (\<lambda>r. psr_correlation_key r = psr_correlation_key x)
      (map (\<lambda>y. if psr_correlation_key y = psr_correlation_key x then x else y) rows) = Some x"
    by (induction rows) auto
  with True show ?thesis by (simp add: upsert_pipeline_state_def)
next
  case False
  then have "find (\<lambda>r. psr_correlation_key r = psr_correlation_key x) rows = None"
    unfolding find_None_iff by (metis imageI)
  moreover have "find P (ys @ [y]) = (case find P ys of None \<Rightarrow> if P y then Some y else None | Some z \<Rightarrow> Some z)"
    for P and y :: pipeline_state_row and ys by (induction ys) auto
  ultimately show ?thesis using False by (simp add: upsert_pipeline_state_def)
qed

lemma success_is_stored:
  assumes "route (sqlite_router f now domains policy db) ord event = Inr rr" "ev_kind event = EventKindPipeline"
    "ev_pipeline event = Some pl" "pl_status pl = ''success''"
    "enqueue g t event (rr_deliveries rr) (rr_pipeline_state rr) db = (None, db')"
  shows "\<exists>row. find (\<lambda>r. psr_correlation_key r = pipeline_correlation_key event) (db_pipeline_states db') = Some row
    \<and> psr_status row = ''success''"
proof -
  have "rr_pipeline_state rr = pipeline_state_for event (rr_deliveries rr) now"
    using route_pipeline_state [OF assms(1-3) sqlite_router_simps(3)] by simp
  with assms(3,4) obtain st where st: "rr_pipeline_state rr = Some st" "ps_status st = ''success''"
    "ps_correlation_key st = pipeline_correlation_key event"
    by (simp add: pipeline_state_for_def)
  from assms(5) have "db_pipeline_states db' = upsert_pipeline_state (pipeline_state_row_of st t) (db_pipeline_states db)"
    by (cases rule: enqueue_cases) (simp_all add: st(1))
  then show ?thesis
    using find_upserted_state [of "pipeline_state_row_of st t"] st(2,3) by (simp add: pipeline_state_row_of_def)
qed

text \<open>C19: a recovery is told once: after a successful pipeline has been taken in, another success of
  the same branch or merge request, a redelivered webhook for instance, makes no delivery, as
  long as no other pipeline state has been stored in between.\<close>

theorem recovery_is_told_once:
  assumes "map_order ord" "map_order ord'"
    "route (sqlite_router f now domains policy db) ord event = Inr rr" "ev_kind event = EventKindPipeline"
    "ev_pipeline event = Some pl" "pl_status pl = ''success''"
    "enqueue g t event (rr_deliveries rr) (rr_pipeline_state rr) db = (None, db1)"
    "db_pipeline_states db2 = db_pipeline_states db1" "ev_kind event' = EventKindPipeline"
    "ev_pipeline event' = Some pl'" "pl_status pl' = ''success''"
    "pipeline_correlation_key event' = pipeline_correlation_key event"
    "route (sqlite_router f' now' domains' policy' db2) ord' event' = Inr rr'"
  shows "rr_deliveries rr' = []"
proof -
  let ?r = "sqlite_router f' now' domains' policy' db2"
  obtain row where row: "find (\<lambda>r. psr_correlation_key r = pipeline_correlation_key event') (db_pipeline_states db2) = Some row"
    "psr_status row = ''success''"
    using success_is_stored [OF assms(3-7)] assms(8,12) by auto
  from assms(13) obtain items where items: "candidates_for ?r event' = Inr items" by (rule route_parts)
  then have "items = []"
    using assms(9-11) row
    by (auto simp: candidates_for_def route_pipeline_def get_pipeline_state_def split: option.splits stored.splits if_splits)
  with no_candidates_no_deliveries [OF assms(2) _ assms(13)] items sqlite_resolver_output [of f' now' domains' policy' db2 "[]"]
  show ?thesis by simp
qed

theorem recovery_is_told_once_witness:
  "length (rr_deliveries green_result) = 1
   \<and> rr_deliveries (projr (route (sqlite_router (\<lambda>_. no_fault) second [] None
        (snd (enqueue no_fault second (main_event ''e9'' ''success'') (rr_deliveries green_result)
          (rr_pipeline_state green_result) red_main))) (\<lambda>_ ks. ks) (main_event ''e10'' ''success''))) = []"
proof -
  let ?db1 = "snd (enqueue no_fault second (main_event ''e9'' ''success'') (rr_deliveries green_result)
          (rr_pipeline_state green_result) red_main)"
  let ?out = "route (sqlite_router (\<lambda>_. no_fault) second [] None ?db1) (\<lambda>_ ks. ks) (main_event ''e10'' ''success'')"
  have l: "length (rr_deliveries green_result) = 1" by code_simp
  have "fst (enqueue no_fault second (main_event ''e9'' ''success'') (rr_deliveries green_result)
          (rr_pipeline_state green_result) red_main) = None" by code_simp
  then have e: "enqueue no_fault second (main_event ''e9'' ''success'') (rr_deliveries green_result)
          (rr_pipeline_state green_result) red_main = (None, ?db1)" by (simp add: prod_eq_iff)
  have "isl ?out = False" by code_simp
  then have o: "?out = Inr (projr ?out)" by (cases ?out) auto
  have k: "ev_kind (main_event k s) = EventKindPipeline" for k s by (simp add: main_event_def)
  have p: "ev_pipeline (main_event k s)
      = Some (no_pipeline\<lparr>pl_status := s, pl_ref := ''main'', pl_commit_author := dev ''cyd''\<rparr>)" for k s
    by (simp add: main_event_def)
  have c: "pipeline_correlation_key (main_event ''e10'' ''success'') = pipeline_correlation_key (main_event ''e9'' ''success'')"
    by (simp add: pipeline_correlation_key_def main_event_def)
  have "rr_deliveries (projr ?out) = []"
    by (rule recovery_is_told_once [OF map_order_id map_order_id route_green k p _ e refl k p _ c o]) simp_all
  with l show ?thesis ..
qed

end
