(* ===== verification/Decoder.thy ===== *)
theory Decoder
  imports DecoderText Ingest
begin

section \<open>The GitLab decoder\<close>

text \<open>
  adapter/git/gitlab/v17_6/decoder.go: from the headers and the body of a webhook to a
  canonical event. Where the code ranges over a map of identities, \<open>ord n\<close> orders the removed
  ones of the n-th changed field. \<open>local_zone\<close> is the machine's time zone, \<open>now\<close> its clock.
\<close>

abbreviation (input) gitlab_version :: string where "gitlab_version \<equiv> ''17.6''"

subsection \<open>Identities\<close>

definition identity_from_map :: "object \<Rightarrow> identity" where
  "identity_from_map data =
     \<lparr>i_provider = ProviderGitLab,
      i_provider_id = first_non_empty [string_value (member data ''id''), string_value (member data ''user_id'')],
      i_username = to_lower (first_non_empty [string_value (member data ''username''), string_value (member data ''user_username'')]),
      i_email = decoder_usable_email (string_value (member data ''email'')),
      i_name = first_non_empty [string_value (member data ''name''), string_value (member data ''user_name'')]\<rparr>"

definition known_identity :: "identity \<Rightarrow> bool" where
  "known_identity i \<longleftrightarrow> i_provider_id i \<noteq> [] \<or> i_username i \<noteq> [] \<or> i_email i \<noteq> [] \<or> i_name i \<noteq> []"

definition identity_pointer :: "identity \<Rightarrow> identity option" where
  "identity_pointer i = (if known_identity i then Some i else None)"

definition identity_key :: "identity \<Rightarrow> string" where
  "identity_key i =
     (if i_provider_id i \<noteq> [] then ''id:'' @ i_provider_id i
      else if i_username i \<noteq> [] then ''username:'' @ to_lower (i_username i)
      else ''email:'' @ to_lower (i_email i))"

definition identity_of_item :: "json \<Rightarrow> identity" where
  "identity_of_item item =
     (let i = identity_from_map (map_value item) in
      if \<not> known_identity i \<and> item \<noteq> JNull
      then no_identity\<lparr>i_provider := ProviderGitLab, i_provider_id := string_value item\<rparr> else i)"

fun collect_identities :: "json list \<Rightarrow> string list \<Rightarrow> identity list" where
  "collect_identities [] seen = []"
| "collect_identities (item # items) seen =
     (let i = identity_of_item item in
      if \<not> known_identity i \<or> identity_key i \<in> set seen then collect_identities items seen
      else i # collect_identities items (identity_key i # seen))"

definition identities_from :: "json \<Rightarrow> identity list" where
  "identities_from v = collect_identities (array_value v) []"

subsection \<open>Changes\<close>

definition by_key :: "identity list \<Rightarrow> (string, identity) gomap" where
  "by_key is = fold (\<lambda>i. AList.update (identity_key i) i) is []"

definition identity_diff :: "ord \<Rightarrow> nat \<Rightarrow> identity list \<Rightarrow> identity list \<Rightarrow> identity list \<times> identity list" where
  "identity_diff ord n older newer =
     (filter (\<lambda>i. map_of (by_key older) (identity_key i) = None) newer,
      map snd (filter (\<lambda>(k, i). map_of (by_key newer) k = None) (visit ord n (by_key older))))"

definition change_of :: "ord \<Rightarrow> nat \<Rightarrow> string \<Rightarrow> object \<Rightarrow> change" where
  "change_of ord n field value =
     (let normalized = (if field = ''assignee_ids'' then ''assignees''
          else if field = ''reviewer_ids'' then ''reviewers'' else field)
      in if normalized = ''reviewers'' \<or> normalized = ''assignees'' then
           (let (added, removed) = identity_diff ord n (identities_from (member value ''previous''))
                (identities_from (member value ''current''))
            in \<lparr>ch_field = normalized, ch_before = [], ch_after = [], ch_added = added, ch_removed = removed\<rparr>)
         else \<lparr>ch_field = normalized, ch_before = scalar_string (member value ''previous''),
               ch_after = scalar_string (member value ''current''), ch_added = [], ch_removed = []\<rparr>)"

definition parse_changes :: "ord \<Rightarrow> object \<Rightarrow> change list" where
  "parse_changes ord data =
     (let fields = sorted_list_of_set (fst ` set data);
          present = filter (\<lambda>f. map_value (member data f) \<noteq> []) fields;
          changes = map (\<lambda>(n, f). change_of ord n f (map_value (member data f))) (enumerate 0 present)
      in filter (\<lambda>c. ch_before c \<noteq> [] \<or> ch_after c \<noteq> [] \<or> ch_added c \<noteq> [] \<or> ch_removed c \<noteq> []) changes)"

subsection \<open>The parts of an event\<close>

definition project_ref_of :: "object \<Rightarrow> project_ref" where
  "project_ref_of data =
     \<lparr>p_id = string_value (member data ''id''),
      p_path = first_non_empty [string_value (member data ''path_with_namespace''),
        string_value (member data ''path''), string_value (member data ''name'')],
      p_url = first_http_url [string_value (member data ''web_url''), string_value (member data ''homepage'')],
      p_default_branch = string_value (member data ''default_branch'')\<rparr>"

definition resource_ref_of :: "event_kind \<Rightarrow> object \<Rightarrow> resource_ref" where
  "resource_ref_of kind data =
     \<lparr>r_kind = kind, r_id = string_value (member data ''id''), r_iid = string_value (member data ''iid''),
      r_title = string_value (member data ''title''),
      r_url = first_http_url [string_value (member data ''url''), string_value (member data ''web_url'')]\<rparr>"

definition author_of :: "object \<Rightarrow> object \<Rightarrow> identity" where
  "author_of data payload =
     (let a0 = identity_from_map (map_value (member data ''author''));
          a1 = (if known_identity a0 then a0 else identity_from_map (map_value (member payload ''author'')))
      in if known_identity a1 then a1 else a1\<lparr>i_provider_id := string_value (member data ''author_id'')\<rparr>)"

definition single_assignee :: "object \<Rightarrow> identity list" where
  "single_assignee data =
     (let a = map_value (member data ''assignee'') in if a = [] then [] else [identity_from_map a])"

definition merge_request_details_of :: "object \<Rightarrow> object \<Rightarrow> string \<Rightarrow> merge_request_details" where
  "merge_request_details_of data payload project_url =
     (let rs0 = identities_from (member data ''reviewers'');
          rs = (if rs0 = [] then identities_from (member payload ''reviewers'') else rs0);
          as0 = identities_from (member data ''assignees'');
          as1 = (if as0 = [] then identities_from (member payload ''assignees'') else as0);
          as = (if as1 = [] then single_assignee payload else as1);
          iid = string_value (member data ''iid'')
      in \<lparr>mr_id = string_value (member data ''id''), mr_iid = iid,
          mr_title = string_value (member data ''title''),
          mr_description = cut_runes (string_value (member data ''description'')) 4000,
          mr_url = first_http_url [string_value (member data ''url''), string_value (member data ''web_url''),
            fallback_url project_url ''merge_requests'' iid],
          mr_source_branch = string_value (member data ''source_branch''),
          mr_target_branch = string_value (member data ''target_branch''),
          mr_state = string_value (member data ''state''), mr_author = author_of data payload,
          mr_reviewers = rs, mr_assignees = as\<rparr>)"

definition issue_details_of :: "object \<Rightarrow> object \<Rightarrow> string \<Rightarrow> issue_details" where
  "issue_details_of data payload project_url =
     (let as0 = identities_from (member data ''assignees'');
          as = (if as0 = [] then single_assignee data else as0);
          iid = string_value (member data ''iid'')
      in \<lparr>is_id = string_value (member data ''id''), is_iid = iid,
          is_title = string_value (member data ''title''),
          is_description = cut_runes (string_value (member data ''description'')) 4000,
          is_url = first_http_url [string_value (member data ''url''), string_value (member data ''web_url''),
            fallback_url project_url ''issues'' iid],
          is_state = string_value (member data ''state''), is_author = author_of data payload,
          is_assignees = as\<rparr>)"

definition job_of :: "string \<Rightarrow> json \<Rightarrow> pipeline_job" where
  "job_of project_url raw =
     (let build = map_value raw in
      \<lparr>job_id = string_value (member build ''id''), job_name = string_value (member build ''name''),
       job_status = string_value (member build ''status''),
       job_allow_failure = bool_value (member build ''allow_failure''),
       job_url = first_http_url [string_value (member build ''url''), string_value (member build ''web_url''),
         fallback_job_url project_url (string_value (member build ''id''))]\<rparr>)"

definition pipeline_of :: "string \<Rightarrow> object \<Rightarrow> pipeline_details" where
  "pipeline_of project_url payload =
     (let attributes = map_value (member payload ''object_attributes'');
          commit = map_value (member payload ''commit'');
          mr = map_value (member payload ''merge_request'')
      in \<lparr>pl_id = string_value (member attributes ''id''), pl_iid = string_value (member attributes ''iid''),
          pl_name = string_value (member attributes ''name''), pl_ref = string_value (member attributes ''ref''),
          pl_sha = string_value (member attributes ''sha''), pl_source = string_value (member attributes ''source''),
          pl_status = string_value (member attributes ''status''),
          pl_url = first_http_url [string_value (member attributes ''url''), string_value (member attributes ''web_url''),
            fallback_pipeline_url project_url (string_value (member attributes ''id''))],
          pl_commit_url = first_http_url [string_value (member commit ''url''), string_value (member commit ''web_url'')],
          pl_commit_author = identity_from_map (map_value (member commit ''author'')),
          pl_merge_request = (if mr = [] then None else Some (resource_ref_of EventKindMergeRequest mr)),
          pl_failed_jobs = filter (\<lambda>j. job_status j = ''failed'' \<and> \<not> job_allow_failure j)
            (map (job_of project_url) (array_value (member payload ''builds'')))\<rparr>)"

subsection \<open>The four kinds\<close>

definition decode_pipeline :: "object \<Rightarrow> canonical_event \<Rightarrow> canonical_event" where
  "decode_pipeline payload event =
     (let pl = pipeline_of (p_url (ev_project event)) payload in
      event\<lparr>ev_pipeline := Some pl,
        ev_object := \<lparr>r_kind = EventKindPipeline, r_id = pl_id pl, r_iid = pl_iid pl, r_title = pl_name pl, r_url = pl_url pl\<rparr>,
        ev_author := (if known_identity (pl_commit_author pl) then Some (pl_commit_author pl) else ev_author event),
        ev_source_text := cut_runes (string_value (member (map_value (member payload ''commit'')) ''message'')) 2000,
        ev_raw_status := pl_status pl,
        ev_metadata := AList.update ''source'' (pl_source pl) (AList.update ''ref'' (pl_ref pl) (ev_metadata event))\<rparr>)"

definition decode_merge_request :: "object \<Rightarrow> canonical_event \<Rightarrow> canonical_event" where
  "decode_merge_request payload event =
     (let attributes = map_value (member payload ''object_attributes'');
          mr = merge_request_details_of attributes payload (p_url (ev_project event));
          old_rev = string_value (member attributes ''oldrev'')
      in event\<lparr>ev_merge_request := Some mr,
        ev_object := \<lparr>r_kind = EventKindMergeRequest, r_id = mr_id mr, r_iid = mr_iid mr, r_title = mr_title mr, r_url = mr_url mr\<rparr>,
        ev_reviewers := mr_reviewers mr, ev_assignees := mr_assignees mr,
        ev_author := (if known_identity (mr_author mr) then Some (mr_author mr) else ev_author event),
        ev_mentions := extract_mentions [mr_title mr, mr_description mr],
        ev_source_text := cut_runes (first_non_empty [mr_description mr, mr_title mr]) 2000,
        ev_raw_status := mr_state mr,
        ev_metadata := (if old_rev \<noteq> [] then AList.update ''oldrev'' old_rev (ev_metadata event) else ev_metadata event)\<rparr>)"

definition decode_note :: "object \<Rightarrow> canonical_event \<Rightarrow> canonical_event" where
  "decode_note payload event =
     (let attributes = map_value (member payload ''object_attributes'');
          body = cut_runes (string_value (member attributes ''note'')) 4000;
          note_id = string_value (member attributes ''id'');
          links = [string_value (member attributes ''url''), string_value (member attributes ''web_url'')];
          note = \<lparr>nt_id = note_id, nt_body = body, nt_action = string_value (member attributes ''action''),
            nt_noteable_type = string_value (member attributes ''noteable_type''), nt_url = [],
            nt_system = bool_value (member attributes ''system''), nt_merge_request = None, nt_issue = None\<rparr>;
          mr_data = map_value (member payload ''merge_request'');
          issue_data = map_value (member payload ''issue'');
          decoded =
            (if mr_data \<noteq> [] then
               (let mr = merge_request_details_of mr_data payload (p_url (ev_project event)) in
                event\<lparr>ev_note := Some (note\<lparr>nt_merge_request := Some mr,
                    nt_url := first_http_url (links @ [note_anchor_url (mr_url mr) note_id, mr_url mr])\<rparr>),
                  ev_author := identity_pointer (mr_author mr), ev_reviewers := mr_reviewers mr,
                  ev_assignees := mr_assignees mr,
                  ev_object := \<lparr>r_kind = EventKindMergeRequest, r_id = mr_id mr, r_iid = mr_iid mr, r_title = mr_title mr, r_url = mr_url mr\<rparr>\<rparr>)
             else if issue_data \<noteq> [] then
               (let is = issue_details_of issue_data payload (p_url (ev_project event)) in
                event\<lparr>ev_note := Some (note\<lparr>nt_issue := Some is,
                    nt_url := first_http_url (links @ [note_anchor_url (is_url is) note_id, is_url is])\<rparr>),
                  ev_author := identity_pointer (is_author is), ev_assignees := is_assignees is,
                  ev_object := \<lparr>r_kind = EventKindIssue, r_id = is_id is, r_iid = is_iid is, r_title = is_title is, r_url = is_url is\<rparr>\<rparr>)
             else event\<lparr>ev_note := Some (note\<lparr>nt_url := first_http_url links\<rparr>),
                  ev_object := \<lparr>r_kind = EventKindNote, r_id = note_id, r_iid = [], r_title = [], r_url = first_http_url links\<rparr>\<rparr>)
      in decoded\<lparr>ev_mentions := extract_mentions [body], ev_source_text := body,
           ev_metadata := AList.update ''noteable_type'' (nt_noteable_type note) (ev_metadata decoded)\<rparr>)"

definition decode_issue :: "object \<Rightarrow> canonical_event \<Rightarrow> canonical_event" where
  "decode_issue payload event =
     (let attributes = map_value (member payload ''object_attributes'');
          nested = map_value (member payload ''issue'');
          is = issue_details_of (if nested = [] then attributes else nested) payload (p_url (ev_project event))
      in event\<lparr>ev_issue := Some is,
        ev_object := \<lparr>r_kind = EventKindIssue, r_id = is_id is, r_iid = is_iid is, r_title = is_title is, r_url = is_url is\<rparr>,
        ev_assignees := is_assignees is,
        ev_author := (if known_identity (is_author is) then Some (is_author is) else ev_author event),
        ev_mentions := extract_mentions [is_title is, is_description is],
        ev_source_text := cut_runes (first_non_empty [is_description is, is_title is]) 2000,
        ev_raw_status := is_state is\<rparr>)"

subsection \<open>Kind, action, key and time\<close>

definition kind_from_payload :: "object \<Rightarrow> event_kind option" where
  "kind_from_payload payload =
     (let v0 = to_lower (string_value (member payload ''object_kind''));
          v = (if v0 = [] then to_lower (string_value (member payload ''event_name'')) else v0)
      in if v = ''pipeline'' then Some EventKindPipeline
         else if v = ''merge_request'' then Some EventKindMergeRequest
         else if v = ''note'' then Some EventKindNote
         else if v = ''issue'' \<or> v = ''work_item'' then Some EventKindIssue else None)"

definition event_kind_of :: "string \<Rightarrow> object \<Rightarrow> event_kind option" where
  "event_kind_of source_event payload =
     (let name = to_lower (trim_space source_event) in
      if name = ''pipeline hook'' then Some EventKindPipeline
      else if name = ''merge request hook'' then Some EventKindMergeRequest
      else if name = ''note hook'' then Some EventKindNote
      else if name = ''issue hook'' then Some EventKindIssue
      else kind_from_payload payload)"

definition action_for :: "event_kind \<Rightarrow> object \<Rightarrow> string" where
  "action_for kind payload =
     (let attributes = map_value (member payload ''object_attributes'');
          action = string_value (member attributes ''action'')
      in if action \<noteq> [] then action
         else if kind = EventKindPipeline then string_value (member attributes ''status'')
         else string_value (member payload ''event_name''))"

definition key_headers :: "string list" where
  "key_headers = [''Idempotency-Key'', ''X-Gitlab-Event-UUID'', ''X-Gitlab-Webhook-UUID'',
     ''X-Gitlab-Webhook-ID'', ''X-Gitlab-Event-ID'']"

definition event_key :: "headers \<Rightarrow> string \<Rightarrow> string" where
  "event_key hs body =
     (case find (\<lambda>h. trim_space (hs h) \<noteq> []) key_headers of
        Some h \<Rightarrow> ''gitlab:header:'' @ trim_space (hs h)
      | None \<Rightarrow> ''gitlab:body:'' @ sha256_hex body)"

fun first_some :: "('a \<Rightarrow> 'b option) \<Rightarrow> 'a list \<Rightarrow> 'b option" where
  "first_some f [] = None"
| "first_some f (x # xs) = (case f x of None \<Rightarrow> first_some f xs | Some y \<Rightarrow> Some y)"

definition parse_time :: "(string \<Rightarrow> time \<Rightarrow> int option) \<Rightarrow> string \<Rightarrow> time option" where
  "parse_time local_zone value =
     (let v = trim_space value in
      if v = [] then None
      else first_some (\<lambda>f. f v) [parse_rfc3339, parse_named_zone local_zone, parse_numeric_zone, parse_millis])"

definition occurred_at :: "(string \<Rightarrow> time \<Rightarrow> int option) \<Rightarrow> object \<Rightarrow> event_kind \<Rightarrow> time option" where
  "occurred_at local_zone payload kind =
     (let attributes = map_value (member payload ''object_attributes'');
          keys = (if kind = EventKindPipeline then [''finished_at'', ''updated_at'', ''created_at'']
            else [''updated_at'', ''finished_at'', ''merged_at'', ''created_at''])
      in first_some (\<lambda>k. first_some (\<lambda>data. parse_time local_zone (string_value (member data k)))
           [attributes, payload]) keys)"

subsection \<open>Decode\<close>

definition rewrite_merge_request :: "url option \<Rightarrow> merge_request_details \<Rightarrow> merge_request_details" where
  "rewrite_merge_request b mr = mr\<lparr>mr_url := rewrite_url b (mr_url mr)\<rparr>"

definition rewrite_issue :: "url option \<Rightarrow> issue_details \<Rightarrow> issue_details" where
  "rewrite_issue b is = is\<lparr>is_url := rewrite_url b (is_url is)\<rparr>"

definition rewrite_pipeline :: "url option \<Rightarrow> pipeline_details \<Rightarrow> pipeline_details" where
  "rewrite_pipeline b pl = pl\<lparr>pl_url := rewrite_url b (pl_url pl), pl_commit_url := rewrite_url b (pl_commit_url pl),
     pl_merge_request := map_option (\<lambda>r. r\<lparr>r_url := rewrite_url b (r_url r)\<rparr>) (pl_merge_request pl),
     pl_failed_jobs := map (\<lambda>j. j\<lparr>job_url := rewrite_url b (job_url j)\<rparr>) (pl_failed_jobs pl)\<rparr>"

definition rewrite_note :: "url option \<Rightarrow> note_details \<Rightarrow> note_details" where
  "rewrite_note b nt = nt\<lparr>nt_url := rewrite_url b (nt_url nt),
     nt_merge_request := map_option (rewrite_merge_request b) (nt_merge_request nt),
     nt_issue := map_option (rewrite_issue b) (nt_issue nt)\<rparr>"

definition rewrite_event_urls :: "url option \<Rightarrow> canonical_event \<Rightarrow> canonical_event" where
  "rewrite_event_urls b event =
     (if b = None then event
      else event\<lparr>ev_project := (ev_project event)\<lparr>p_url := rewrite_url b (p_url (ev_project event))\<rparr>,
        ev_object := (ev_object event)\<lparr>r_url := rewrite_url b (r_url (ev_object event))\<rparr>,
        ev_pipeline := map_option (rewrite_pipeline b) (ev_pipeline event),
        ev_merge_request := map_option (rewrite_merge_request b) (ev_merge_request event),
        ev_issue := map_option (rewrite_issue b) (ev_issue event),
        ev_note := map_option (rewrite_note b) (ev_note event)\<rparr>)"

definition base_event ::
  "ord \<Rightarrow> (string \<Rightarrow> time \<Rightarrow> int option) \<Rightarrow> time \<Rightarrow> event_kind \<Rightarrow> headers \<Rightarrow> string \<Rightarrow> object \<Rightarrow> canonical_event" where
  "base_event ord local_zone now kind hs body payload =
     no_event\<lparr>ev_event_key := event_key hs body, ev_source := ProviderGitLab,
       ev_source_version := gitlab_version, ev_source_event := trim_space (hs ''X-Gitlab-Event''),
       ev_kind := kind, ev_action := action_for kind payload, ev_received_at := now,
       ev_project := project_ref_of (map_value (member payload ''project'')),
       ev_actor := identity_from_map (map_value (member payload ''user'')),
       ev_object := no_resource\<lparr>r_kind := kind\<rparr>,
       ev_changes := parse_changes ord (map_value (member payload ''changes'')),
       ev_occurred_at := occurred_at local_zone payload kind\<rparr>"

definition decode_kind :: "event_kind \<Rightarrow> object \<Rightarrow> canonical_event \<Rightarrow> canonical_event option" where
  "decode_kind kind payload event =
     (if kind = EventKindPipeline then Some (decode_pipeline payload event)
      else if kind = EventKindMergeRequest then Some (decode_merge_request payload event)
      else if kind = EventKindNote then Some (decode_note payload event)
      else if kind = EventKindIssue then Some (decode_issue payload event) else None)"

text \<open>\<open>json.Unmarshal\<close> into a map: an object, or \<open>null\<close>, whose numbers are all in range.\<close>

definition unmarshal_map :: "string \<Rightarrow> object option" where
  "unmarshal_map body =
     (case parse_json body of
        Some (JObj ms) \<Rightarrow> if in_range (JObj ms) then Some ms else None
      | Some JNull \<Rightarrow> Some []
      | _ \<Rightarrow> None)"

definition decode ::
  "url option \<Rightarrow> ord \<Rightarrow> (string \<Rightarrow> time \<Rightarrow> int option) \<Rightarrow> time \<Rightarrow> bool \<Rightarrow> headers \<Rightarrow> string \<Rightarrow> canonical_event res" where
  "decode link_base ord local_zone now canceled hs body =
     (if canceled then Inl Canceled
      else case unmarshal_map body of
        None \<Rightarrow> Inl (Wrap ''decode GitLab webhook JSON'' (Msg ''invalid JSON''))
      | Some payload \<Rightarrow>
        let source_event = trim_space (hs ''X-Gitlab-Event'') in
        if source_event = [] then Inl (Msg ''missing X-Gitlab-Event header'')
        else case event_kind_of source_event payload of
          None \<Rightarrow> Inl Ignored
        | Some kind \<Rightarrow>
          case decode_kind kind payload (base_event ord local_zone now kind hs body payload) of
            None \<Rightarrow> Inl Ignored
          | Some event \<Rightarrow> Inr (rewrite_event_urls link_base event))"

text \<open>The decoder as the registry sees it.\<close>

definition gitlab_decoder :: "url option \<Rightarrow> ord \<Rightarrow> (string \<Rightarrow> time \<Rightarrow> int option) \<Rightarrow> time \<Rightarrow> decoder" where
  "gitlab_decoder link_base ord local_zone now =
     \<lparr>dc_provider = ProviderGitLab, dc_source_label = ''GitLab'',
      dc_decode = decode link_base ord local_zone now False\<rparr>"

end
