(* ===== verification/DecoderLaws.thy ===== *)
theory DecoderLaws
  imports Decoder
begin

section \<open>What the decoder promises\<close>

text \<open>
  The properties of the decoder: its events are complete for their kind, hold normalised
  identities only, mention whom the text mentions, and link to the configured base. The last
  part is about numbers: a large id changes its text on the way.
\<close>

subsection \<open>Shape of an event\<close>

text \<open>The details an event of a kind carries, and the object it names.\<close>

definition details_fit :: "canonical_event \<Rightarrow> bool" where
  "details_fit e \<longleftrightarrow>
     (ev_pipeline e \<noteq> None) = (ev_kind e = EventKindPipeline) \<and>
     (ev_merge_request e \<noteq> None) = (ev_kind e = EventKindMergeRequest) \<and>
     (ev_note e \<noteq> None) = (ev_kind e = EventKindNote) \<and>
     (ev_issue e \<noteq> None) = (ev_kind e = EventKindIssue) \<and>
     (if ev_kind e = EventKindNote
      then r_kind (ev_object e) =
        (if nt_merge_request (the (ev_note e)) \<noteq> None then EventKindMergeRequest
         else if nt_issue (the (ev_note e)) \<noteq> None then EventKindIssue else EventKindNote)
      else r_kind (ev_object e) = ev_kind e)"

definition known_kinds :: "event_kind list" where
  "known_kinds = [EventKindPipeline, EventKindMergeRequest, EventKindNote, EventKindIssue]"

lemma event_kind_known: "event_kind_of s payload = Some kind \<Longrightarrow> kind \<in> set known_kinds"
  by (auto simp: event_kind_of_def kind_from_payload_def known_kinds_def Let_def split: if_splits)

lemmas decode_kind_defs = decode_pipeline_def decode_merge_request_def decode_note_def decode_issue_def

text \<open>Every way through \<open>Decode\<close> that returns an event.\<close>

lemma decodeE:
  assumes "decode b ord local_zone now canceled hs body = Inr e"
  obtains payload kind event where
    "\<not> canceled" "unmarshal_map body = Some payload" "trim_space (hs ''X-Gitlab-Event'') \<noteq> []"
    "event_kind_of (trim_space (hs ''X-Gitlab-Event'')) payload = Some kind"
    "decode_kind kind payload (base_event ord local_zone now kind hs body payload) = Some event"
    "e = rewrite_event_urls b event"
  using assms by (auto simp: decode_def Let_def split: if_splits option.splits)

lemma decode_kindE:
  assumes "decode_kind kind payload event = Some e"
  obtains "kind = EventKindPipeline" "e = decode_pipeline payload event"
  | "kind = EventKindMergeRequest" "e = decode_merge_request payload event"
  | "kind = EventKindNote" "e = decode_note payload event"
  | "kind = EventKindIssue" "e = decode_issue payload event"
  using assms by (auto simp: decode_kind_def split: if_splits)

lemma decode_kind_total: "kind \<in> set known_kinds \<Longrightarrow> decode_kind kind payload event \<noteq> None"
  by (auto simp: decode_kind_def known_kinds_def)

text \<open>What the four decoders leave alone.\<close>

lemma decode_kind_frame:
  assumes "decode_kind kind payload event = Some e"
  shows "ev_event_key e = ev_event_key event" "ev_source e = ev_source event" "ev_kind e = ev_kind event"
    "ev_source_version e = ev_source_version event" "ev_source_event e = ev_source_event event"
    "ev_received_at e = ev_received_at event" "ev_project e = ev_project event"
    "ev_actor e = ev_actor event" "ev_changes e = ev_changes event" "ev_action e = ev_action event"
    "ev_occurred_at e = ev_occurred_at event"
  using assms by (auto elim!: decode_kindE simp: decode_kind_defs Let_def)

lemma rewrite_frame [simp]:
  "ev_event_key (rewrite_event_urls b e) = ev_event_key e" "ev_source (rewrite_event_urls b e) = ev_source e"
  "ev_kind (rewrite_event_urls b e) = ev_kind e" "ev_source_version (rewrite_event_urls b e) = ev_source_version e"
  "ev_source_event (rewrite_event_urls b e) = ev_source_event e"
  "ev_received_at (rewrite_event_urls b e) = ev_received_at e"
  "ev_actor (rewrite_event_urls b e) = ev_actor e" "ev_author (rewrite_event_urls b e) = ev_author e"
  "ev_reviewers (rewrite_event_urls b e) = ev_reviewers e" "ev_assignees (rewrite_event_urls b e) = ev_assignees e"
  "ev_mentions (rewrite_event_urls b e) = ev_mentions e" "ev_changes (rewrite_event_urls b e) = ev_changes e"
  by (simp_all add: rewrite_event_urls_def)

lemma rewrite_details_fit: "details_fit e \<Longrightarrow> details_fit (rewrite_event_urls b e)"
  by (auto simp: details_fit_def rewrite_event_urls_def rewrite_note_def split: if_splits)

lemma event_key_gitlab: "prefix ''gitlab:'' (event_key hs body)"
  by (auto simp: event_key_def prefix_def split: option.splits)

lemma details_fit_pipeline: "details_fit (decode_pipeline payload event)"
  if "ev_kind event = EventKindPipeline" "ev_merge_request event = None" "ev_note event = None" "ev_issue event = None"
  using that by (simp add: details_fit_def decode_pipeline_def Let_def)

lemma details_fit_merge_request: "details_fit (decode_merge_request payload event)"
  if "ev_kind event = EventKindMergeRequest" "ev_pipeline event = None" "ev_note event = None" "ev_issue event = None"
  using that by (simp add: details_fit_def decode_merge_request_def Let_def)

lemma details_fit_issue: "details_fit (decode_issue payload event)"
  if "ev_kind event = EventKindIssue" "ev_pipeline event = None" "ev_merge_request event = None" "ev_note event = None"
  using that by (simp add: details_fit_def decode_issue_def Let_def)

lemma details_fit_note: "details_fit (decode_note payload event)"
  if "ev_kind event = EventKindNote" "ev_pipeline event = None" "ev_merge_request event = None" "ev_issue event = None"
proof -
  consider "map_value (member payload ''merge_request'') \<noteq> []"
    | "map_value (member payload ''merge_request'') = []" "map_value (member payload ''issue'') \<noteq> []"
    | "map_value (member payload ''merge_request'') = []" "map_value (member payload ''issue'') = []" by blast
  then show ?thesis using that by cases (simp_all add: details_fit_def decode_note_def Let_def)
qed

lemma base_event_bare:
  "ev_kind (base_event ord local_zone now kind hs body payload) = kind"
  "ev_pipeline (base_event ord local_zone now kind hs body payload) = None"
  "ev_merge_request (base_event ord local_zone now kind hs body payload) = None"
  "ev_note (base_event ord local_zone now kind hs body payload) = None"
  "ev_issue (base_event ord local_zone now kind hs body payload) = None"
  "ev_author (base_event ord local_zone now kind hs body payload) = None"
  "ev_reviewers (base_event ord local_zone now kind hs body payload) = []"
  "ev_assignees (base_event ord local_zone now kind hs body payload) = []"
  "ev_mentions (base_event ord local_zone now kind hs body payload) = []"
  by (simp_all add: base_event_def zero_values)

lemma decode_kind_fit:
  assumes "decode_kind kind payload (base_event ord local_zone now kind hs body payload) = Some e"
  shows "details_fit e"
  using assms by (rule decode_kindE)
    (simp_all add: base_event_bare details_fit_pipeline details_fit_merge_request details_fit_issue details_fit_note)

text \<open>C26: a decoded event says where it comes from and carries the details of its kind, and only these.\<close>

theorem decoded_event_fits:
  assumes "decode b ord local_zone now canceled hs body = Inr e"
  shows "\<not> canceled \<and> ev_source e = ProviderGitLab \<and> ev_source_version e = ''17.6'' \<and> ev_received_at e = now
    \<and> ev_source_event e = trim_space (hs ''X-Gitlab-Event'') \<and> ev_source_event e \<noteq> []
    \<and> ev_event_key e = event_key hs body \<and> prefix ''gitlab:'' (ev_event_key e)
    \<and> ev_kind e \<in> set known_kinds \<and> details_fit e"
  using assms
proof (rule decodeE)
  fix payload kind event
  assume h: "\<not> canceled" "trim_space (hs ''X-Gitlab-Event'') \<noteq> []"
    "event_kind_of (trim_space (hs ''X-Gitlab-Event'')) payload = Some kind"
    "decode_kind kind payload (base_event ord local_zone now kind hs body payload) = Some event"
    "e = rewrite_event_urls b event"
  show ?thesis
    using h(1,2) event_kind_known [OF h(3)] decode_kind_frame [OF h(4)] event_key_gitlab [of hs body]
      rewrite_details_fit [OF decode_kind_fit [OF h(4)], of b]
    by (simp add: h(5) base_event_def zero_values)
qed

subsection \<open>Identities\<close>

text \<open>The identities of a merge request, an issue and an event.\<close>

definition mr_identities :: "merge_request_details \<Rightarrow> identity list" where
  "mr_identities mr = mr_author mr # mr_reviewers mr @ mr_assignees mr"

definition issue_identities :: "issue_details \<Rightarrow> identity list" where
  "issue_identities is = is_author is # is_assignees is"

definition opt_list :: "('a \<Rightarrow> 'b list) \<Rightarrow> 'a option \<Rightarrow> 'b list" where
  "opt_list f x = (case x of None \<Rightarrow> [] | Some y \<Rightarrow> f y)"

definition all_identities :: "canonical_event \<Rightarrow> identity list" where
  "all_identities e =
     ev_actor e # opt_list (\<lambda>i. [i]) (ev_author e) @ ev_reviewers e @ ev_assignees e @ ev_mentions e
     @ opt_list (\<lambda>pl. [pl_commit_author pl]) (ev_pipeline e)
     @ opt_list mr_identities (ev_merge_request e)
     @ opt_list (\<lambda>nt. opt_list mr_identities (nt_merge_request nt) @ opt_list issue_identities (nt_issue nt)) (ev_note e)
     @ opt_list issue_identities (ev_issue e)"

definition changed_identities :: "canonical_event \<Rightarrow> identity list" where
  "changed_identities e = concat (map (\<lambda>c. ch_added c @ ch_removed c) (ev_changes e))"

definition clean_identity :: "identity \<Rightarrow> bool" where
  "clean_identity i \<longleftrightarrow> i_provider i \<in> set [[], ProviderGitLab] \<and>
     to_lower (i_username i) = i_username i \<and> usable_email (i_email i) = i_email i"

named_theorems clean

lemma usable_email_Nil [simp]: "usable_email [] = []"
  by (simp add: usable_email_def)

lemma clean_identity_from_map [clean]: "clean_identity (identity_from_map data)"
  by (simp add: clean_identity_def identity_from_map_def decoder_usable_email_eq)

lemma clean_provider_id [clean]: "clean_identity i \<Longrightarrow> clean_identity (i\<lparr>i_provider_id := v\<rparr>)"
  by (simp add: clean_identity_def)

lemma clean_plain [clean]: "clean_identity (no_identity\<lparr>i_provider := ProviderGitLab, i_provider_id := v\<rparr>)"
  by (simp add: clean_identity_def no_identity_def)

lemma clean_identity_of_item [clean]: "clean_identity (identity_of_item item)"
  by (simp add: identity_of_item_def Let_def clean)

lemma clean_collected: "list_all clean_identity (collect_identities items seen)"
  by (induction items seen rule: collect_identities.induct) (simp_all add: Let_def clean)

lemma clean_identities_from [clean]: "list_all clean_identity (identities_from v)"
  by (simp add: identities_from_def clean_collected)

lemma clean_author_of [clean]: "clean_identity (author_of data payload)"
  by (simp add: author_of_def Let_def clean)

lemma clean_single_assignee [clean]: "list_all clean_identity (single_assignee data)"
  by (simp add: single_assignee_def Let_def clean)

lemma clean_mr [clean]: "list_all clean_identity (mr_identities (merge_request_details_of data payload url))"
  by (simp add: mr_identities_def merge_request_details_of_def Let_def clean)

lemma clean_issue [clean]: "list_all clean_identity (issue_identities (issue_details_of data payload url))"
  by (simp add: issue_identities_def issue_details_of_def Let_def clean)

lemma lower_mentions: "list_all (\<lambda>u. to_lower u = u) (add_mentions ms seen)"
  by (induction ms seen rule: add_mentions.induct) (simp_all add: Let_def)

lemma clean_mentions [clean]: "list_all clean_identity (extract_mentions texts)"
  using lower_mentions by (auto simp: extract_mentions_def list_all_iff clean_identity_def no_identity_def)

lemma visit_entries: "set (visit ord n m) \<subseteq> set m"
  by (auto simp: visit_def List.map_filter_def dest: map_of_SomeD)

lemma by_key_entries: "snd ` set (by_key is) \<subseteq> set is"
proof -
  have "\<And>m. snd ` set (fold (\<lambda>i. AList.update (identity_key i) i) is m) \<subseteq> set is \<union> snd ` set m"
  proof (induction "is")
    case (Cons i "is")
    have "snd ` set (AList.update (identity_key i) i m) \<subseteq> insert i (snd ` set m)"
      by (induction m) auto
    with Cons [of "AList.update (identity_key i) i m"] show ?case
      unfolding fold_Cons comp_apply by (simp only: list.set) blast
  qed simp
  from this [of "[]"] show ?thesis by (simp add: by_key_def)
qed

lemma identity_diff_sets:
  assumes "identity_diff ord n older newer = (added, removed)"
  shows "set added \<subseteq> set newer" "set removed \<subseteq> set older"
proof -
  show "set added \<subseteq> set newer" using assms by (auto simp: identity_diff_def)
  have "set removed \<subseteq> snd ` set (visit ord n (by_key older))" using assms by (auto simp: identity_diff_def)
  then show "set removed \<subseteq> set older"
    using visit_entries [of ord n "by_key older"] by_key_entries [of older] by blast
qed

lemma clean_change [clean]: "list_all clean_identity (ch_added (change_of ord n f v) @ ch_removed (change_of ord n f v))"
proof -
  obtain added removed where d: "identity_diff ord n (identities_from (member v ''previous''))
      (identities_from (member v ''current'')) = (added, removed)" by fastforce
  from identity_diff_sets [OF d] have "list_all clean_identity (added @ removed)"
    using clean_identities_from by (auto simp: list_all_iff)
  then show ?thesis by (simp add: change_of_def Let_def d)
qed

lemma clean_changes:
  assumes "c \<in> set (parse_changes ord data)"
  shows "list_all clean_identity (ch_added c @ ch_removed c)"
proof -
  obtain n f where "c = change_of ord n f (map_value (member data f))"
    using assms by (auto simp: parse_changes_def Let_def)
  then show ?thesis using clean_change [of ord n f] by metis
qed

lemma clean_opt [simp]: "list_all P (opt_list f x) \<longleftrightarrow> (case x of None \<Rightarrow> True | Some y \<Rightarrow> list_all P (f y))"
  by (cases x) (simp_all add: opt_list_def)

lemma clean_parts:
  "list_all clean_identity (mr_identities mr) \<longleftrightarrow>
     clean_identity (mr_author mr) \<and> list_all clean_identity (mr_reviewers mr) \<and> list_all clean_identity (mr_assignees mr)"
  "list_all clean_identity (issue_identities is) \<longleftrightarrow>
     clean_identity (is_author is) \<and> list_all clean_identity (is_assignees is)"
  by (simp_all add: mr_identities_def issue_identities_def)

lemma clean_mr_parts [clean]:
  "clean_identity (mr_author (merge_request_details_of data payload url))"
  "list_all clean_identity (mr_reviewers (merge_request_details_of data payload url))"
  "list_all clean_identity (mr_assignees (merge_request_details_of data payload url))"
  using clean_mr by (simp_all add: clean_parts)

lemma clean_issue_parts [clean]:
  "clean_identity (is_author (issue_details_of data payload url))"
  "list_all clean_identity (is_assignees (issue_details_of data payload url))"
  using clean_issue by (simp_all add: clean_parts)

lemma clean_commit_author [clean]: "clean_identity (pl_commit_author (pipeline_of url payload))"
  by (simp add: pipeline_of_def Let_def clean)

lemma rewrite_identities [simp]:
  "mr_identities (rewrite_merge_request b mr) = mr_identities mr"
  "issue_identities (rewrite_issue b is) = issue_identities is"
  "pl_commit_author (rewrite_pipeline b pl) = pl_commit_author pl"
  "nt_merge_request (rewrite_note b nt) = map_option (rewrite_merge_request b) (nt_merge_request nt)"
  "nt_issue (rewrite_note b nt) = map_option (rewrite_issue b) (nt_issue nt)"
  by (simp_all add: mr_identities_def issue_identities_def rewrite_merge_request_def rewrite_issue_def
      rewrite_pipeline_def rewrite_note_def)

lemma opt_list_map [simp]: "opt_list f (map_option g x) = opt_list (\<lambda>y. f (g y)) x"
  by (cases x) (simp_all add: opt_list_def)

lemma rewrite_event_identities [simp]: "all_identities (rewrite_event_urls b e) = all_identities e"
  by (cases "b = None") (simp_all add: all_identities_def rewrite_event_urls_def)

lemma clean_pointer [clean]: "clean_identity i \<Longrightarrow> list_all clean_identity (opt_list (\<lambda>i. [i]) (identity_pointer i))"
  by (simp add: identity_pointer_def)

text \<open>An event before its details are read: no identities but the actor.\<close>

definition bare :: "canonical_event \<Rightarrow> bool" where
  "bare e \<longleftrightarrow> clean_identity (ev_actor e) \<and> ev_author e = None \<and> ev_reviewers e = [] \<and> ev_assignees e = []
     \<and> ev_pipeline e = None \<and> ev_merge_request e = None \<and> ev_note e = None \<and> ev_issue e = None \<and> ev_mentions e = []"

lemma bare_base_event: "bare (base_event ord local_zone now kind hs body payload)"
  by (simp add: bare_def base_event_def zero_values clean_identity_from_map)

lemma clean_decoded:
  assumes "bare event"
  shows "list_all clean_identity (all_identities (decode_pipeline payload event))"
    "list_all clean_identity (all_identities (decode_merge_request payload event))"
    "list_all clean_identity (all_identities (decode_issue payload event))"
  using assms
  by (simp_all add: bare_def all_identities_def decode_pipeline_def decode_merge_request_def decode_issue_def
      Let_def clean clean_parts)

lemma clean_decoded_note:
  assumes "bare event"
  shows "list_all clean_identity (all_identities (decode_note payload event))"
proof -
  consider "map_value (member payload ''merge_request'') \<noteq> []"
    | "map_value (member payload ''merge_request'') = []" "map_value (member payload ''issue'') \<noteq> []"
    | "map_value (member payload ''merge_request'') = []" "map_value (member payload ''issue'') = []" by blast
  then show ?thesis using assms
    by cases (simp_all add: bare_def all_identities_def decode_note_def Let_def identity_pointer_def clean clean_parts)
qed

lemma changed_identities_decoded:
  assumes "decode_kind kind payload (base_event ord local_zone now kind hs body payload) = Some e"
  shows "changed_identities (rewrite_event_urls b e)
    = concat (map (\<lambda>c. ch_added c @ ch_removed c) (parse_changes ord (map_value (member payload ''changes''))))"
  using decode_kind_frame(9) [OF assms] by (simp add: changed_identities_def base_event_def)

text \<open>C27: every identity of a decoded event is of GitLab or of no provider, has its user name in lower
  case and an address only if mail can reach it: a redacted or no-reply address never enters.
\<close>

theorem decoded_identities_clean:
  assumes "decode b ord local_zone now canceled hs body = Inr e"
  shows "list_all clean_identity (all_identities e @ changed_identities e)"
  using assms
proof (rule decodeE)
  fix payload kind event
  assume h: "decode_kind kind payload (base_event ord local_zone now kind hs body payload) = Some event"
    "e = rewrite_event_urls b event"
  have "list_all clean_identity (all_identities event)"
    using h(1) by (rule decode_kindE) (simp_all add: clean_decoded clean_decoded_note bare_base_event)
  moreover have "list_all clean_identity (changed_identities e)"
    unfolding h(2) changed_identities_decoded [OF h(1)]
    using clean_changes by (fastforce simp: list_all_iff)
  ultimately show ?thesis by (simp add: h(2))
qed

subsection \<open>Mentions\<close>

text \<open>C28: the mentioned users of a text are, each once and in lower case, the names behind an at sign
  that stands at the start or after a character no address has, outside of code, with \<open>all\<close>
  and \<open>here\<close> left out: the pattern's search from left to right misses none of them.
\<close>

theorem mentions_are_exact:
  "distinct (map i_username (extract_mentions texts))
    \<and> set (map i_username (extract_mentions texts))
      = (\<lambda>m. to_lower (trim_space m)) ` (\<Union>t \<in> set texts. set (mentions_ref True (clean_text t))) - {[], ''all'', ''here''}"
  by (intro conjI mention_usernames)

subsection \<open>Links\<close>

text \<open>
  A link is on a base if it has the base's scheme and its authority, that is, what stands
  between the two slashes and the path, query or fragment, is the base's host, after user
  information or not.
\<close>

definition separator :: "char \<Rightarrow> bool" where
  "separator c \<longleftrightarrow> c \<in> set ''/?#''"

definition on_base :: "url \<Rightarrow> string \<Rightarrow> bool" where
  "on_base b v \<longleftrightarrow> v = [] \<or>
     (let start = u_scheme b @ ''://''; host = escape (u_host b) EncodeHost;
          authority = takeWhile (\<lambda>c. \<not> separator c) (drop (length start) v)
      in prefix start v \<and> (authority = host \<or> suffix (CHR ''@'' # host) authority))"

lemma separator_code: "separator c \<longleftrightarrow> code c = 47 \<or> code c = 63 \<or> code c = 35"
proof -
  have "code CHR ''/'' = 47" "code CHR ''?'' = 63" "code CHR ''#'' = 35" by (simp_all add: code_def)
  then show ?thesis by (simp add: separator_def) (metis code_inject)
qed

lemma hex_upper_plain: "n < 16 \<Longrightarrow> \<not> separator (hex_upper n)"
  by (auto simp: separator_code hex_upper_def)

lemma percent_plain: "c \<in> set (percent d) \<Longrightarrow> \<not> separator c"
proof -
  assume c: "c \<in> set (percent d)"
  have "code d div 16 < 16" using code_less [of d] by (simp add: less_mult_imp_div_less)
  moreover have "\<not> separator CHR ''%''" by (simp add: separator_def)
  ultimately show ?thesis
    using c hex_upper_plain [of "code d div 16"] hex_upper_plain [of "code d mod 16"] by (auto simp: percent_def)
qed

lemma separators_escaped: "mode \<in> {EncodeHost, EncodeUserPassword} \<Longrightarrow> separator c \<Longrightarrow> should_escape c mode"
proof -
  assume m: "mode \<in> {EncodeHost, EncodeUserPassword}" and c: "separator c"
  have "list_all (\<lambda>d. list_all (should_escape d) [EncodeHost, EncodeUserPassword]) ''/?#''" by code_simp
  then show ?thesis using m c by (auto simp: separator_def list_all_iff)
qed

lemma escape_plain:
  assumes "mode \<in> {EncodeHost, EncodeUserPassword}" "c \<in> set (escape s mode)"
  shows "\<not> separator c"
proof -
  from assms(2) obtain d where "c \<in> set (if should_escape d mode then percent d else [d])"
    unfolding escape_def set_concat set_map by blast
  then show ?thesis
    using percent_plain [of c d] separators_escaped [OF assms(1), of d] by (cases "should_escape d mode") auto
qed

lemma user_string_plain: "c \<in> set (user_string u) \<Longrightarrow> \<not> separator c"
proof -
  have "\<not> separator CHR '':''" by (simp add: separator_def)
  moreover assume "c \<in> set (user_string u)"
  ultimately show ?thesis
    using escape_plain [of EncodeUserPassword c] by (cases u) (auto simp: user_string_def split: option.splits)
qed

text \<open>A parsed URL with a host is hierarchical.\<close>

lemma set_path_keeps: "set_path p u = Some v \<Longrightarrow> u_opaque v = u_opaque u \<and> u_host v = u_host u \<and> u_scheme v = u_scheme u"
  by (auto simp: set_path_def)

lemma set_fragment_keeps: "set_fragment f u = Some v \<Longrightarrow> u_opaque v = u_opaque u \<and> u_host v = u_host u \<and> u_scheme v = u_scheme u"
  by (auto simp: set_fragment_def)

lemma parse_hierarchy_keeps:
  assumes "parse_hierarchy rest u = Some v"
  shows "u_opaque v = u_opaque u"
  using assms by (auto simp: parse_hierarchy_def Let_def split: if_splits option.splits dest!: set_path_keeps)

lemma parse_main_opaque:
  assumes "parse_main raw = Some v" "u_host v \<noteq> []"
  shows "u_opaque v = []"
  using assms
  by (auto simp: parse_main_def Let_def no_url_def split: if_splits option.splits prod.splits dest!: parse_hierarchy_keeps)

lemma parse_url_opaque:
  assumes "parse_url raw = Some v" "u_host v \<noteq> []"
  shows "u_opaque v = []"
  using assms parse_main_opaque
  by (fastforce simp: parse_url_def bind_eq_Some_conv split: prod.splits if_splits dest!: set_fragment_keeps)

lemma takeWhile_stops: "(\<And>c. c \<in> set xs \<Longrightarrow> P c) \<Longrightarrow> (ys = [] \<or> \<not> P (hd ys)) \<Longrightarrow> takeWhile P (xs @ ys) = xs"
  by (induction xs) (cases ys; auto)+

lemma url_string_on_base:
  assumes "u_scheme u \<noteq> []" "u_host u \<noteq> []" "u_opaque u = []"
  shows "on_base u (url_string u)"
proof -
  define path where "path = escaped_path u"
  define rest where "rest = (if path \<noteq> [] \<and> \<not> prefix ''/'' path then ''/'' else []) @ path
    @ (if u_force_query u \<or> u_raw_query u \<noteq> [] then ''?'' @ u_raw_query u else [])
    @ (if u_fragment u \<noteq> [] then ''#'' @ escaped_fragment u else [])"
  define user where "user = (case u_user u of None \<Rightarrow> [] | Some x \<Rightarrow> user_string x @ ''@'')"
  let ?start = "u_scheme u @ ''://''" and ?host = "escape (u_host u) EncodeHost"
  have url: "url_string u = ?start @ (user @ ?host) @ rest"
    using assms by (simp add: url_string_def url_authority_def Let_def rest_def path_def user_def)
  have at: "\<not> separator CHR ''@''" by (simp add: separator_def)
  have plain: "\<not> separator c" if "c \<in> set (user @ ?host)" for c
    using that at escape_plain [of EncodeHost c "u_host u"] user_string_plain [of c]
    by (auto simp: user_def split: option.splits)
  have stop: "rest = [] \<or> separator (hd rest)"
    by (cases path) (auto simp: rest_def separator_def)
  have "takeWhile (\<lambda>c. \<not> separator c) ((user @ ?host) @ rest) = user @ ?host"
    by (rule takeWhile_stops) (use plain stop in auto)
  moreover have "user @ ?host = ?host \<or> suffix (CHR ''@'' # ?host) (user @ ?host)"
    by (cases "u_user u") (auto simp: user_def suffix_def)
  ultimately show ?thesis by (auto simp: on_base_def Let_def url)
qed

lemma valid_trim [simp]: "valid_http_url (trim_space v) = valid_http_url v"
  by (simp add: valid_http_url_def)

lemma valid_http_urlD:
  assumes "valid_http_url v" "parse_url (trim_space v) = Some u"
  shows "u_host u \<noteq> []" "u_scheme u \<noteq> []" "u_opaque u = []"
  using assms parse_url_opaque [OF assms(2)] by (auto simp: valid_http_url_def equal_fold_def dest: sym)

lemma first_http_url_cases: "first_http_url vs = [] \<or> valid_http_url (first_http_url vs)"
  by (induction vs) auto

declare first_http_url.simps [simp del]

lemma rewrite_on_base:
  assumes "with_link_base base = Some b" "v = [] \<or> valid_http_url v"
  shows "on_base b (rewrite_url (Some b) v)"
proof (cases "v = []")
  case False
  then have v: "valid_http_url v" using assms(2) by blast
  then obtain u where u: "parse_url (trim_space v) = Some u" by (auto simp: valid_http_url_def split: option.splits)
  have "u_host b \<noteq> []" "u_scheme b \<noteq> []"
    using assms(1) valid_http_urlD [of base b] by (auto simp: with_link_base_def split: if_splits)
  moreover have "on_base (u\<lparr>u_scheme := u_scheme b, u_host := u_host b\<rparr>) = on_base b"
    by (rule ext) (simp add: on_base_def)
  ultimately show ?thesis
    using url_string_on_base [of "u\<lparr>u_scheme := u_scheme b, u_host := u_host b\<rparr>"] valid_http_urlD(3) [OF v u] False v u
    by (simp add: rewrite_url_def)
qed (simp add: rewrite_url_def on_base_def)

text \<open>All links of an event.\<close>

definition pipeline_links :: "pipeline_details \<Rightarrow> string list" where
  "pipeline_links pl = pl_url pl # pl_commit_url pl # opt_list (\<lambda>r. [r_url r]) (pl_merge_request pl) @ map job_url (pl_failed_jobs pl)"

definition note_links :: "note_details \<Rightarrow> string list" where
  "note_links nt = nt_url nt # opt_list (\<lambda>mr. [mr_url mr]) (nt_merge_request nt) @ opt_list (\<lambda>is. [is_url is]) (nt_issue nt)"

definition event_links :: "canonical_event \<Rightarrow> string list" where
  "event_links e = p_url (ev_project e) # r_url (ev_object e) # opt_list pipeline_links (ev_pipeline e)
     @ opt_list (\<lambda>mr. [mr_url mr]) (ev_merge_request e) @ opt_list (\<lambda>is. [is_url is]) (ev_issue e)
     @ opt_list note_links (ev_note e)"

lemma map_opt_list: "map g (opt_list f x) = opt_list (\<lambda>y. map g (f y)) x"
  by (cases x) (simp_all add: opt_list_def)

lemma rewritten_links: "event_links (rewrite_event_urls (Some b) e) = map (rewrite_url (Some b)) (event_links e)"
  by (simp add: event_links_def rewrite_event_urls_def map_opt_list pipeline_links_def note_links_def
      rewrite_pipeline_def rewrite_note_def rewrite_merge_request_def rewrite_issue_def comp_def)

definition sound_link :: "string \<Rightarrow> bool" where
  "sound_link v \<longleftrightarrow> v = [] \<or> valid_http_url v"

named_theorems link

lemma sound_first [link]: "sound_link (first_http_url vs)"
  using first_http_url_cases by (simp add: sound_link_def)

lemma sound_parts [link]:
  "sound_link (p_url (project_ref_of data))" "sound_link (r_url (resource_ref_of kind data))"
  "sound_link (mr_url (merge_request_details_of data payload url))"
  "sound_link (is_url (issue_details_of data payload url))"
  "sound_link (pl_url (pipeline_of url payload))" "sound_link (pl_commit_url (pipeline_of url payload))"
  by (simp_all add: project_ref_of_def resource_ref_of_def merge_request_details_of_def issue_details_of_def
      pipeline_of_def Let_def link)

lemma sound_pipeline [link]: "list_all sound_link (pipeline_links (pipeline_of url payload))"
proof -
  have "list_all sound_link (map job_url (pl_failed_jobs (pipeline_of url payload)))"
    by (auto simp: list_all_iff pipeline_of_def job_of_def Let_def link)
  then show ?thesis by (simp add: pipeline_links_def link) (simp add: pipeline_of_def Let_def link)
qed

lemma sound_decoded:
  assumes "sound_link (p_url (ev_project event))" "bare event"
  shows "list_all sound_link (event_links (decode_pipeline payload event))"
    "list_all sound_link (event_links (decode_merge_request payload event))"
    "list_all sound_link (event_links (decode_issue payload event))"
  using assms
  by (simp_all add: bare_def event_links_def decode_pipeline_def decode_merge_request_def decode_issue_def Let_def link)

lemma sound_decoded_note:
  assumes "sound_link (p_url (ev_project event))" "bare event"
  shows "list_all sound_link (event_links (decode_note payload event))"
proof -
  consider "map_value (member payload ''merge_request'') \<noteq> []"
    | "map_value (member payload ''merge_request'') = []" "map_value (member payload ''issue'') \<noteq> []"
    | "map_value (member payload ''merge_request'') = []" "map_value (member payload ''issue'') = []" by blast
  then show ?thesis using assms
    by cases (simp_all add: bare_def event_links_def note_links_def decode_note_def Let_def link)
qed

lemma sound_decode_kind:
  assumes "decode_kind kind payload (base_event ord local_zone now kind hs body payload) = Some event"
  shows "list_all sound_link (event_links event)"
proof -
  have "sound_link (p_url (ev_project (base_event ord local_zone now kind hs body payload)))"
    by (simp add: base_event_def link)
  with assms show ?thesis
    by (auto elim!: decode_kindE simp: sound_decoded sound_decoded_note bare_base_event)
qed

text \<open>C29: with a link base configured, every link of a decoded event is empty or on that base: what a
  payload says of scheme and host never reaches a card.
\<close>

theorem links_stay_on_base:
  assumes "with_link_base base = Some b" "decode (Some b) ord local_zone now canceled hs body = Inr e"
  shows "list_all (on_base b) (event_links e)"
  using assms(2)
proof (rule decodeE)
  fix payload kind event
  assume h: "decode_kind kind payload (base_event ord local_zone now kind hs body payload) = Some event"
    "e = rewrite_event_urls (Some b) event"
  show ?thesis
    using sound_decode_kind [OF h(1)] rewrite_on_base [OF assms(1)]
    by (auto simp: h(2) rewritten_links list_all_iff sound_link_def)
qed

subsection \<open>Numbers\<close>

lemma is_digit_digit [simp]: "is_digit (digit n)"
  by (simp add: is_digit_def)

lemma nat_string_digits: "list_all is_digit (nat_string n)"
proof (induction n rule: nat_string.induct)
  case (1 n)
  then show ?case by (cases "n < 10") (simp_all add: nat_string.simps [of n])
qed

lemma nat_string_not_Nil [simp]: "nat_string n \<noteq> []"
  by (cases "n < 10") (simp_all add: nat_string.simps [of n])

lemma nat_string_head: "0 < n \<Longrightarrow> hd (nat_string n) \<noteq> CHR ''0''"
proof (induction n rule: nat_string.induct)
  case (1 n)
  show ?case
  proof (cases "n < 10")
    case True
    have "code (digit n) \<noteq> code CHR ''0''" using True 1(2) by (simp add: code_def [of "CHR ''0''"])
    then have "digit n \<noteq> CHR ''0''" by metis
    then show ?thesis using True by (simp add: nat_string.simps [of n])
  next
    case False
    then show ?thesis using 1 by (simp add: nat_string.simps [of n])
  qed
qed

lemma length_nat_string: "length (nat_string n) \<le> Suc k \<longleftrightarrow> n < 10 ^ Suc k"
proof (induction k arbitrary: n)
  case 0
  then show ?case by (simp add: nat_string.simps [of n])
next
  case (Suc k)
  show ?case
  proof (cases "n < 10")
    case True
    then have "n < 10 ^ Suc (Suc k)" by (rule less_le_trans) simp
    then show ?thesis using True by (simp add: nat_string.simps [of n])
  next
    case False
    then have "length (nat_string n) = Suc (length (nat_string (n div 10)))" by (simp add: nat_string.simps [of n])
    then show ?thesis using Suc [of "n div 10"] by (simp add: less_mult_imp_div_less div_less_iff_less_mult mult.commute)
  qed
qed

text \<open>The digits of a positive number without the zeros at its end.\<close>

definition core_digits :: "nat \<Rightarrow> string" where
  "core_digits n = rev (dropWhile (\<lambda>c. c = CHR ''0'') (rev (nat_string n)))"

lemma core_digits_zeros:
  "nat_string n = core_digits n @ replicate (length (nat_string n) - length (core_digits n)) CHR ''0''"
proof -
  define zs where "zs = takeWhile (\<lambda>c. c = CHR ''0'') (rev (nat_string n))"
  have split: "nat_string n = core_digits n @ rev zs"
    unfolding core_digits_def zs_def by (metis rev_append rev_rev_ident takeWhile_dropWhile_id)
  have "\<forall>c \<in> set (rev zs). c = CHR ''0''" by (auto simp: zs_def dest: set_takeWhileD)
  from replicate_length_same [OF this] have "rev zs = replicate (length zs) CHR ''0''" by simp
  with split show ?thesis by (metis add_diff_cancel_left' length_append length_rev)
qed

lemma literal_nat:
  assumes "0 < n"
  shows "literal_decimal (nat_string n) = (False, core_digits n, int (length (nat_string n)))" "core_digits n \<noteq> []"
proof -
  have digits: "takeWhile is_digit (nat_string n) = nat_string n" "dropWhile is_digit (nat_string n) = []"
    using nat_string_digits [of n] by (simp_all add: list_all_iff)
  have sign: "\<not> prefix ''-'' (nat_string n)"
    using nat_string_digits [of n] by (cases "nat_string n") (auto simp: is_digit_def code_def)
  have front: "dropWhile (\<lambda>c. c = CHR ''0'') (nat_string n) = nat_string n"
    using nat_string_head [OF assms] nat_string_not_Nil [of n] by (cases "nat_string n") auto
  show core: "core_digits n \<noteq> []"
    using nat_string_head [OF assms] nat_string_not_Nil [of n] core_digits_zeros [of n]
    by (metis append_Nil hd_replicate list.size(3) replicate_empty)
  have strip: "strip_zeros False (nat_string n) k = (False, core_digits n, k)" for k
    using core by (auto simp: strip_zeros_def Let_def front core_digits_def)
  show "literal_decimal (nat_string n) = (False, core_digits n, int (length (nat_string n)))"
    by (simp add: literal_decimal_def Let_def strip digits sign)
qed

lemma float_nat:
  assumes "0 < n" "n < 10 ^ 15"
  shows "float_decimal (nat_string n) = Some (False, core_digits n, int (length (nat_string n)))"
proof -
  have "length (nat_string n) \<le> 15" using length_nat_string [of n 14] assms(2) by simp
  moreover have "length (core_digits n) \<le> length (nat_string n)"
    using core_digits_zeros [of n] by (metis length_append le_add1)
  ultimately show ?thesis by (simp add: float_decimal_def literal_nat [OF assms(1)])
qed

lemma string_value_number: "string_value (JNum lit) = number_text lit"
  by (simp add: string_value_def)

lemma small_number_text: "n < 1000000 \<Longrightarrow> string_value (JNum (nat_string n)) = nat_string n"
proof (cases "n = 0")
  case True
  show ?thesis unfolding True by code_simp
next
  case False
  assume n: "n < 1000000"
  have "length (nat_string n) \<le> 6" using length_nat_string [of n 5] n by simp
  moreover have "nat_string n = core_digits n @ replicate (length (nat_string n) - length (core_digits n)) CHR ''0''"
    by (rule core_digits_zeros)
  moreover have "length (core_digits n) \<le> length (nat_string n)"
    using core_digits_zeros [of n] by (metis length_append le_add1)
  ultimately show ?thesis
    using False n literal_nat(2) [of n]
    by (simp add: string_value_number number_text_def float_nat format_g_def)
qed

lemma large_number_text:
  assumes "1000000 \<le> n" "n < 10 ^ 15"
  shows "CHR ''e'' \<in> set (string_value (JNum (nat_string n)))"
proof -
  have "\<not> length (nat_string n) \<le> 6" using length_nat_string [of n 5] assms(1) by simp
  then have "6 \<le> int (length (nat_string n)) - 1" by simp
  then show ?thesis
    using assms literal_nat(2) [of n]
    by (simp add: string_value_number number_text_def float_nat format_g_def exponent_string_def Let_def)
qed

lemma nat_string_no_e: "CHR ''e'' \<notin> set (nat_string n)"
  using nat_string_digits [of n] by (auto simp: list_all_iff is_digit_def code_def)

lemma number_text_iff: "n < 10 ^ 15 \<Longrightarrow> string_value (JNum (nat_string n)) = nat_string n \<longleftrightarrow> n < 1000000"
  using small_number_text [of n] large_number_text [of n] nat_string_no_e [of n] by (metis not_le)

text \<open>C30: the id of a user in a payload survives the way through a float exactly below a million: from
  there on it is printed with an exponent, and is not the id the user's mapping is stored under.
\<close>

theorem ids_survive_below_a_million:
  assumes "n < 10 ^ 15"
  shows "i_provider_id (identity_from_map [(''id'', JNum (nat_string n))]) = nat_string n \<longleftrightarrow> n < 1000000"
proof -
  have "CHR ''e'' \<in> set v \<Longrightarrow> trim_space v \<noteq> []" for v
    by (rule ccontr) (use trim_space_keeps [of "CHR ''e''" v] in \<open>auto simp: space_codes_def\<close>)
  moreover have "trim_space (nat_string n) \<noteq> []"
  proof -
    have "is_digit (hd (nat_string n))" using nat_string_digits [of n] by (simp add: list_all_iff)
    moreover have "list_all (list_all (\<lambda>c. \<not> is_digit c)) space_codes" by code_simp
    ultimately have "hd (nat_string n) \<in> set (trim_space (nat_string n))"
      by (intro trim_space_keeps) (auto simp: list_all_iff)
    then show ?thesis by auto
  qed
  ultimately show ?thesis
    using small_number_text [of n] large_number_text [of n] nat_string_no_e [of n] assms
    by (cases "n < 1000000") (auto simp: identity_from_map_def member_def)
qed

subsection \<open>An example\<close>

text \<open>A comment on nothing in particular, seen through a link base.\<close>

definition sample_body :: string where
  \<open>sample_body = ''{"user":{"id":7,"username":"Kim"},"project":{"id":1,"web_url":"http://old/g/p"},"object_attributes":{"id":9,"note":"hi @Lee","url":"http://old/g/p/-/issues/1#note_9"}}''\<close>

definition sample_headers :: headers where
  "sample_headers h = (if h = ''X-Gitlab-Event'' then ''Note Hook'' else if h = ''Idempotency-Key'' then ''k1'' else [])"

definition sample_event :: "canonical_event res" where
  "sample_event = decode (with_link_base ''https://git.example.com'') (\<lambda>_ ks. ks) (\<lambda>_ _. None) 5 False sample_headers sample_body"

lemma sample_decoded: "\<exists>e. sample_event = Inr e"
proof -
  have "\<not> isl sample_event" by code_simp
  from sum.collapse(2) [OF this] show ?thesis by metis
qed

lemma sample_base: "\<exists>b. with_link_base ''https://git.example.com'' = Some b"
proof -
  have "with_link_base ''https://git.example.com'' \<noteq> None" by code_simp
  then show ?thesis by blast
qed

theorem decoded_event_fits_witness: "\<exists>e. sample_event = Inr e \<and> details_fit e"
proof -
  obtain e where e: "sample_event = Inr e" using sample_decoded by blast
  from decoded_event_fits [OF e [unfolded sample_event_def]] e show ?thesis by blast
qed

theorem decoded_identities_clean_witness:
  "\<exists>e. sample_event = Inr e \<and> list_all clean_identity (all_identities e)"
proof -
  obtain e where e: "sample_event = Inr e" using sample_decoded by blast
  from decoded_identities_clean [OF e [unfolded sample_event_def]] e show ?thesis by auto
qed

theorem links_stay_on_base_witness:
  "\<exists>b e. with_link_base ''https://git.example.com'' = Some b \<and> sample_event = Inr e \<and> list_all (on_base b) (event_links e)"
proof -
  obtain b where b: "with_link_base ''https://git.example.com'' = Some b" using sample_base by blast
  obtain e where e: "sample_event = Inr e" using sample_decoded by blast
  from e have "decode (Some b) (\<lambda>_ ks. ks) (\<lambda>_ _. None) 5 False sample_headers sample_body = Inr e"
    by (simp only: sample_event_def b)
  from links_stay_on_base [OF b this] b e show ?thesis by blast
qed

theorem ids_survive_below_a_million_witness:
  "i_provider_id (identity_from_map [(''id'', JNum (nat_string 1234567))]) \<noteq> nat_string 1234567"
  using ids_survive_below_a_million [of 1234567] by simp

end
