(* ===== verification/Settings.thy ===== *)
theory Settings
  imports GoHttp DecoderLaws
begin

section \<open>Settings\<close>

text \<open>
  platform/config/config.go: the settings from the environment, a function that gives the empty
  string for a variable that is not set. \<open>strconv.ParseBool\<close> and \<open>time.ParseDuration\<close> are
  written out, with the checks for 64 bits and the float that reads a fraction.
\<close>

type_synonym environment = "string \<Rightarrow> string"

record settings =
  st_http_address :: string
  st_db_path :: string
  st_webhook_secret :: string
  st_dry_run :: bool
  st_reconcile_dry_run :: bool
  st_delivery_poll_interval :: duration
  st_reconcile_interval :: duration
  st_identity_sync_enabled :: bool
  st_identity_sync_dry_run :: bool
  st_identity_sync_interval :: duration
  st_identity_sync_verify_feishu :: bool
  st_recipient_allowlist :: "string list"
  st_allowed_email_domains :: "string list"
  st_gitlab_base_url :: string
  st_gitlab_api_token :: string
  st_gitlab_webhook_url :: string
  st_gitlab_webhook_token :: string
  st_gitlab_hook_token :: string
  st_gitlab_hook_name :: string
  st_gitlab_ssl_verify :: bool
  st_feishu_base_url :: string
  st_feishu_app_id :: string
  st_feishu_app_secret :: string

subsection \<open>Durations\<close>

fun leading_int :: "nat \<Rightarrow> string \<Rightarrow> (nat \<times> string) option" where
  "leading_int x [] = Some (x, [])"
| "leading_int x (c # s) =
     (if \<not> is_digit c then Some (x, c # s)
      else if 2 ^ 63 div 10 < x then None
      else let y = x * 10 + (code c - 48) in if 2 ^ 63 < y then None else leading_int y s)"

text \<open>The digits behind a point as a number and the power of ten they are counted in; digits that do not fit are skipped.\<close>

fun leading_fraction :: "nat \<Rightarrow> nat \<Rightarrow> bool \<Rightarrow> string \<Rightarrow> nat \<times> nat \<times> string" where
  "leading_fraction x scale overflow [] = (x, scale, [])"
| "leading_fraction x scale overflow (c # s) =
     (if \<not> is_digit c then (x, scale, c # s)
      else if overflow \<or> (2 ^ 63 - 1) div 10 < x then leading_fraction x scale True s
      else let y = x * 10 + (code c - 48) in
        if 2 ^ 63 < y then leading_fraction x scale True s else leading_fraction y (scale * 10) overflow s)"

definition duration_unit :: "string \<Rightarrow> nat option" where
  "duration_unit u =
     map_of [(''ns'', 1), (''us'', 1000), (string_of_runes [0xB5] @ ''s'', 1000), (string_of_runes [0x3BC] @ ''s'', 1000),
       (''ms'', 1000000), (''s'', 1000000000), (''m'', 60000000000), (''h'', 3600000000000)] u"

text \<open>\<open>uint64(float64(f) * (float64(unit) / scale))\<close>, every operation rounded.\<close>

definition ratio_of :: "(nat \<times> int) option \<Rightarrow> nat \<times> nat" where
  "ratio_of x = (case x of None \<Rightarrow> (0, 1) | Some (q, k) \<Rightarrow> if 0 \<le> k then (q * 2 ^ nat k, 1) else (q, 2 ^ nat (- k)))"

definition fraction_part :: "nat \<Rightarrow> nat \<Rightarrow> nat \<Rightarrow> nat" where
  "fraction_part f unit_ns scale =
     (let (a, b) = ratio_of (round_float f 1); (c, d) = ratio_of (round_float unit_ns scale);
          (n, m) = ratio_of (round_float (a * c) (b * d))
      in n div m)"

text \<open>One number with its unit: what it is worth in nanoseconds, and the rest of the text.\<close>

definition duration_term :: "string \<Rightarrow> (nat \<times> string) option" where
  "duration_term s =
     (if s = [] \<or> \<not> (hd s = CHR ''.'' \<or> is_digit (hd s)) then None
      else
        (case leading_int 0 s of
           None \<Rightarrow> None
         | Some (v, s1) \<Rightarrow>
           let pre = length s1 \<noteq> length s;
               dot = prefix ''.'' s1;
               (f, scale, s2) = (if dot then leading_fraction 0 1 False (tl s1) else (0, 1, s1));
               post = dot \<and> length s2 \<noteq> length (tl s1);
               u = takeWhile (\<lambda>c. c \<noteq> CHR ''.'' \<and> \<not> is_digit c) s2
           in if \<not> pre \<and> \<not> post then None
              else if u = [] then None
              else
                (case duration_unit u of
                   None \<Rightarrow> None
                 | Some ns \<Rightarrow>
                   if 2 ^ 63 div ns < v then None
                   else
                     let total = v * ns + (if 0 < f then fraction_part f ns scale else 0) in
                     if 2 ^ 63 < total then None else Some (total, drop (length u) s2))))"

lemma duration_term_shorter: "duration_term s = Some (n, r) \<Longrightarrow> length r < length s"
proof -
  have int: "length r \<le> length s" if "leading_int x s = Some (v, r)" for x s v r
    using that by (induction x s rule: leading_int.induct) (auto simp: Let_def split: if_splits)
  have frac: "leading_fraction x k b s = (f, sc, r) \<Longrightarrow> length r \<le> length s" for x k b s f sc r
    by (induction x k b s rule: leading_fraction.induct) (fastforce simp: Let_def split: if_splits)+
  assume t: "duration_term s = Some (n, r)"
  then obtain v s1 where i: "leading_int 0 s = Some (v, s1)" by (auto simp: duration_term_def split: if_splits option.splits)
  obtain f scale s2 where f: "(if prefix ''.'' s1 then leading_fraction 0 1 False (tl s1) else (0, 1, s1)) = (f, scale, s2)"
    by (metis prod_cases3)
  have "length s2 \<le> length s1" using f frac [of 0 1 False "tl s1" f scale s2] by (auto split: if_splits)
  moreover have "r = drop (length (takeWhile (\<lambda>c. c \<noteq> CHR ''.'' \<and> \<not> is_digit c) s2)) s2
      \<and> takeWhile (\<lambda>c. c \<noteq> CHR ''.'' \<and> \<not> is_digit c) s2 \<noteq> []"
    using t i f by (auto simp: duration_term_def Let_def split: if_splits option.splits)
  moreover from this have "length r < length s2" by (cases s2) auto
  ultimately show "length r < length s" using int [OF i] by simp
qed

function duration_terms :: "nat \<Rightarrow> string \<Rightarrow> nat option" where
  "duration_terms d s =
     (if s = [] then Some d
      else
        (case duration_term s of
           None \<Rightarrow> None
         | Some (v, r) \<Rightarrow> let d' = (d + v) mod 2 ^ 64 in if 2 ^ 63 < d' then None else duration_terms d' r))"
  by auto
termination
  by (relation "measure (length \<circ> snd)") (auto dest: duration_term_shorter)

declare duration_terms.simps [simp del]

definition parse_duration :: "string \<Rightarrow> duration option" where
  "parse_duration value =
     (let neg = prefix ''-'' value;
          s = (if neg \<or> prefix ''+'' value then tl value else value)
      in if s = ''0'' then Some 0
         else if s = [] then None
         else
           (case duration_terms 0 s of
              None \<Rightarrow> None
            | Some d \<Rightarrow>
              if neg then Some (wrap64 (- int d))
              else if 2 ^ 63 - 1 < d then None else Some (int d)))"

subsection \<open>Variables\<close>

definition parse_bool :: "string \<Rightarrow> bool option" where
  "parse_bool s =
     (if s \<in> set [''1'', ''t'', ''T'', ''TRUE'', ''true'', ''True''] then Some True
      else if s \<in> set [''0'', ''f'', ''F'', ''FALSE'', ''false'', ''False''] then Some False else None)"

definition env_or :: "environment \<Rightarrow> string \<Rightarrow> string \<Rightarrow> string" where
  "env_or env name fallback = (if env name \<noteq> [] then env name else fallback)"

definition bool_env :: "environment \<Rightarrow> string \<Rightarrow> bool \<Rightarrow> bool" where
  "bool_env env name fallback =
     (if env name = [] then fallback else case parse_bool (env name) of None \<Rightarrow> fallback | Some b \<Rightarrow> b)"

definition duration_env :: "environment \<Rightarrow> string \<Rightarrow> duration \<Rightarrow> duration" where
  "duration_env env name fallback =
     (if env name = [] then fallback
      else (case parse_duration (env name) of None \<Rightarrow> fallback | Some d \<Rightarrow> if d \<le> 0 then fallback else d))"

definition list_env :: "environment \<Rightarrow> string \<Rightarrow> string list" where
  "list_env env name =
     filter (\<lambda>v. v \<noteq> []) (map (\<lambda>v. to_lower (trim_space v)) (split (env name) CHR '',''))"

definition load :: "environment \<Rightarrow> settings" where
  "load env =
     (let webhook_token = env ''CROWSNEST_GITLAB_WEBHOOK_TOKEN'';
          secret = env ''CROWSNEST_WEBHOOK_SECRET'';
          hook_token = env ''CROWSNEST_GITLAB_HOOK_TOKEN''
      in \<lparr>st_http_address = env_or env ''CROWSNEST_HTTP_ADDR'' '':8080'',
          st_db_path = env_or env ''CROWSNEST_DB_PATH'' ''data/crowsnest.sqlite3'',
          st_webhook_secret = (if secret = [] then webhook_token else secret),
          st_dry_run = bool_env env ''CROWSNEST_DRY_RUN'' True,
          st_reconcile_dry_run = bool_env env ''CROWSNEST_RECONCILE_DRY_RUN'' True,
          st_delivery_poll_interval = duration_env env ''CROWSNEST_DELIVERY_POLL_INTERVAL'' (2 * second),
          st_reconcile_interval = duration_env env ''CROWSNEST_RECONCILE_INTERVAL'' (15 * minute),
          st_identity_sync_enabled = bool_env env ''CROWSNEST_IDENTITY_SYNC_ENABLED'' False,
          st_identity_sync_dry_run = bool_env env ''CROWSNEST_IDENTITY_SYNC_DRY_RUN'' True,
          st_identity_sync_interval = duration_env env ''CROWSNEST_IDENTITY_SYNC_INTERVAL'' hour,
          st_identity_sync_verify_feishu = bool_env env ''CROWSNEST_IDENTITY_SYNC_VERIFY_FEISHU'' False,
          st_recipient_allowlist = list_env env ''CROWSNEST_RECIPIENT_ALLOWLIST'',
          st_allowed_email_domains = list_env env ''CROWSNEST_ALLOWED_EMAIL_DOMAINS'',
          st_gitlab_base_url = trim_right (env ''CROWSNEST_GITLAB_BASE_URL'') CHR ''/'',
          st_gitlab_api_token = env ''CROWSNEST_GITLAB_API_TOKEN'',
          st_gitlab_webhook_url = env ''CROWSNEST_GITLAB_WEBHOOK_URL'',
          st_gitlab_webhook_token = webhook_token,
          st_gitlab_hook_token = (if hook_token = [] then webhook_token else hook_token),
          st_gitlab_hook_name = env_or env ''CROWSNEST_GITLAB_HOOK_NAME'' ''Crowsnest'',
          st_gitlab_ssl_verify = bool_env env ''CROWSNEST_GITLAB_SSL_VERIFY'' True,
          st_feishu_base_url = env_or env ''CROWSNEST_FEISHU_BASE_URL'' ''https://open.feishu.cn'',
          st_feishu_app_id = env ''CROWSNEST_FEISHU_APP_ID'',
          st_feishu_app_secret = env ''CROWSNEST_FEISHU_APP_SECRET''\<rparr>)"

subsection \<open>What is read\<close>

lemma leading_int_nat: "n \<le> 2 ^ 63 \<Longrightarrow> leading_int 0 (nat_string n @ r) = leading_int n r"
proof (induction n arbitrary: r rule: nat_string.induct)
  case (1 n)
  have digit: "is_digit (digit n)" by (simp add: is_digit_def code_digit)
  show ?case
  proof (cases "n < 10")
    case True
    then show ?thesis using digit "1.prems" by (simp add: nat_string.simps [of n])
  next
    case False
    have small: "n div 10 \<le> 2 ^ 63 div 10" using "1.prems" by (rule div_le_mono)
    have "leading_int 0 (nat_string n @ r) = leading_int 0 (nat_string (n div 10) @ digit n # r)"
      using False by (simp add: nat_string.simps [of n])
    also have "\<dots> = leading_int (n div 10) (digit n # r)"
      using "1.IH" [OF False] "1.prems" by simp
    also have "\<dots> = leading_int n r"
      using digit small "1.prems" by (simp add: Let_def)
    finally show ?thesis .
  qed
qed

lemma duration_units_shape:
  assumes "duration_unit u = Some k"
  shows "u \<noteq> []" "list_all (\<lambda>c. c \<noteq> CHR ''.'' \<and> \<not> is_digit c) u" "0 < k"
proof -
  let ?units = "[(''ns'', 1), (''us'', 1000), (string_of_runes [0xB5] @ ''s'', 1000), (string_of_runes [0x3BC] @ ''s'', 1000),
       (''ms'', 1000000), (''s'', 1000000000), (''m'', 60000000000), (''h'', 3600000000000)] :: (string \<times> nat) list"
  have "list_all (\<lambda>(u, k). u \<noteq> [] \<and> list_all (\<lambda>c. c \<noteq> CHR ''.'' \<and> \<not> is_digit c) u \<and> 0 < k) ?units" by code_simp
  moreover have "(u, k) \<in> set ?units" using map_of_SomeD [OF assms [unfolded duration_unit_def]] .
  ultimately show "u \<noteq> []" "list_all (\<lambda>c. c \<noteq> CHR ''.'' \<and> \<not> is_digit c) u" "0 < k"
    by (auto simp only: list_all_iff)
qed

lemma duration_term_whole:
  assumes "duration_unit u = Some k" "n * k < 2 ^ 63"
  shows "duration_term (nat_string n @ u) = Some (n * k, [])"
proof -
  note shape = duration_units_shape [OF assms(1)]
  have n: "n \<le> 2 ^ 63 div k" using assms(2) shape(3) by (simp add: less_eq_div_iff_mult_less_eq)
  have "n * 1 \<le> n * k" using shape(3) by (intro mult_le_mono2) simp
  then have "n \<le> 2 ^ 63" using assms(2) by linarith
  moreover have "leading_int n u = Some (n, u)" using shape(1,2) by (cases u) auto
  ultimately have int: "leading_int 0 (nat_string n @ u) = Some (n, u)" by (simp add: leading_int_nat)
  obtain c cs where c: "nat_string n = c # cs" "is_digit c"
    using nat_string_digits [of n] nat_string_not_Nil [of n] by (cases "nat_string n") auto
  have dot: "\<not> prefix ''.'' u" using shape(1,2) by (cases u) auto
  have unit: "takeWhile (\<lambda>c. c \<noteq> CHR ''.'' \<and> \<not> is_digit c) u = u"
    using shape(2) by (simp add: takeWhile_eq_all_conv list_all_iff)
  show ?thesis
    unfolding duration_term_def using int dot n assms shape(1) c by (simp add: Let_def unit)
qed

text \<open>A whole number of any unit, written in decimal, is read as that many units, up to the longest
  duration of 64 bits.\<close>

theorem duration_read_back:
  assumes "duration_unit u = Some k" "n * k < 2 ^ 63"
  shows "parse_duration (nat_string n @ u) = Some (int (n * k))"
proof -
  obtain c cs where c: "nat_string n = c # cs" "is_digit c"
    using nat_string_digits [of n] nat_string_not_Nil [of n] by (cases "nat_string n") auto
  have "c \<noteq> CHR ''-''" "c \<noteq> CHR ''+''" using c(2) by (auto simp: is_digit_def code_def)
  then have sign: "\<not> prefix ''-'' (nat_string n @ u)" "\<not> prefix ''+'' (nat_string n @ u)" by (simp_all add: c)
  have zero: "nat_string n @ u \<noteq> ''0''" using duration_units_shape(1) [OF assms(1)] c by auto
  have "duration_terms 0 (nat_string n @ u) = Some (n * k)"
    using duration_term_whole [OF assms] assms(2) c
    by (subst duration_terms.simps) (simp add: Let_def duration_terms.simps [of _ "[]"])
  then show ?thesis using sign zero assms(2) c duration_units_shape(1) [OF assms(1)] by (simp add: parse_duration_def Let_def)
qed

theorem duration_read_back_witness: "parse_duration (nat_string 90 @ ''m'') = Some 5400000000000"
  using duration_read_back [of "''m''" 60000000000 90] by (simp add: duration_unit_def)

subsection \<open>Settings are usable\<close>

lemma duration_env_range: "0 < fallback \<Longrightarrow> fallback < 2 ^ 63 \<Longrightarrow> 0 < duration_env env name fallback \<and> duration_env env name fallback < 2 ^ 63"
  by (auto simp: duration_env_def parse_duration_def wrap64_def Let_def split: option.splits if_splits)

lemma lower_trim_fixed: "v = to_lower (trim_space w) \<Longrightarrow> to_lower v = v \<and> trim_space v = v"
  by (simp add: trim_space_to_lower)

lemma list_env_clean: "list_all (\<lambda>v. v \<noteq> [] \<and> to_lower v = v \<and> trim_space v = v) (list_env env name)"
  by (auto simp: list_env_def list_all_iff trim_space_to_lower)

lemma load_fields:
  "st_delivery_poll_interval (load env) = duration_env env ''CROWSNEST_DELIVERY_POLL_INTERVAL'' (2 * second)"
  "st_reconcile_interval (load env) = duration_env env ''CROWSNEST_RECONCILE_INTERVAL'' (15 * minute)"
  "st_identity_sync_interval (load env) = duration_env env ''CROWSNEST_IDENTITY_SYNC_INTERVAL'' hour"
  "st_recipient_allowlist (load env) = list_env env ''CROWSNEST_RECIPIENT_ALLOWLIST''"
  "st_allowed_email_domains (load env) = list_env env ''CROWSNEST_ALLOWED_EMAIL_DOMAINS''"
  "st_dry_run (load env) = bool_env env ''CROWSNEST_DRY_RUN'' True"
  "st_webhook_secret (load env) = (if env ''CROWSNEST_WEBHOOK_SECRET'' = [] then env ''CROWSNEST_GITLAB_WEBHOOK_TOKEN''
     else env ''CROWSNEST_WEBHOOK_SECRET'')"
  by (simp_all only: load_def Let_def settings.select_convs)

text \<open>C38: whatever the environment holds, the settings are usable: the intervals are positive durations of
  64 bits, the entries of the two lists are lower-case, trimmed and not empty, messages are sent
  only if the dry run is switched off in one of Go's six spellings of false, and the webhook has
  a secret if either of its two variables is set.\<close>

theorem settings_usable:
  "list_all (\<lambda>d. 0 < d \<and> d < 2 ^ 63)
      [st_delivery_poll_interval (load env), st_reconcile_interval (load env), st_identity_sync_interval (load env)]
   \<and> list_all (\<lambda>v. v \<noteq> [] \<and> to_lower v = v \<and> trim_space v = v)
      (st_recipient_allowlist (load env) @ st_allowed_email_domains (load env))
   \<and> (st_dry_run (load env) \<longleftrightarrow>
      env ''CROWSNEST_DRY_RUN'' \<notin> set [''0'', ''f'', ''F'', ''FALSE'', ''false'', ''False''])
   \<and> (st_webhook_secret (load env) = [] \<longleftrightarrow>
      env ''CROWSNEST_WEBHOOK_SECRET'' = [] \<and> env ''CROWSNEST_GITLAB_WEBHOOK_TOKEN'' = [])"
proof -
  have "0 < 2 * second" "2 * second < 2 ^ 63" "0 < 15 * minute" "15 * minute < 2 ^ 63" "0 < hour" "hour < 2 ^ 63"
    by (simp_all add: duration_units)
  then have "list_all (\<lambda>d. 0 < d \<and> d < 2 ^ 63)
      [st_delivery_poll_interval (load env), st_reconcile_interval (load env), st_identity_sync_interval (load env)]"
    unfolding load_fields list.pred_inject(2) by (intro conjI list.pred_inject(1) duration_env_range [THEN conjunct1] duration_env_range [THEN conjunct2] TrueI)
  moreover have "st_dry_run (load env) \<longleftrightarrow>
      env ''CROWSNEST_DRY_RUN'' \<notin> set [''0'', ''f'', ''F'', ''FALSE'', ''false'', ''False'']"
  proof -
    define v where "v = env ''CROWSNEST_DRY_RUN''"
    show ?thesis unfolding load_fields bool_env_def parse_bool_def v_def [symmetric] by auto
  qed
  moreover have "list_all (\<lambda>v. v \<noteq> [] \<and> to_lower v = v \<and> trim_space v = v)
      (st_recipient_allowlist (load env) @ st_allowed_email_domains (load env))"
    unfolding load_fields list_all_append using list_env_clean by (intro conjI)
  moreover have "st_webhook_secret (load env) = [] \<longleftrightarrow>
      env ''CROWSNEST_WEBHOOK_SECRET'' = [] \<and> env ''CROWSNEST_GITLAB_WEBHOOK_TOKEN'' = []"
    unfolding load_fields by (cases "env ''CROWSNEST_WEBHOOK_SECRET'' = []") (simp_all only: if_P if_not_P simp_thms)
  ultimately show ?thesis by (intro conjI)
qed

end
