(* ===== verification/WebhookServer.thy ===== *)
theory WebhookServer
  imports Ingest DecoderText
begin

section \<open>The HTTP server\<close>

text \<open>
  platform/httpserver/server.go: the three routes and their handlers. The multiplexer is the
  library's: \<open>handler\<close> says which handler a method and a path reach, \<open>None\<close> where the library
  answers by itself. A request's body is what reading it gives, an error where it breaks off.
\<close>

record webhook_server =
  ws_service_set :: bool
  ws_secret :: string
  ws_max_body :: nat

record incoming =
  rq_header :: headers
  rq_body :: "string res"

record reply =
  rp_status :: nat
  rp_content_type :: string
  rp_body :: string

datatype route_name = Health | Webhook

definition default_max_body_bytes :: nat where
  "default_max_body_bytes = 2 * 2 ^ 20"

definition new_server :: "bool \<Rightarrow> string \<Rightarrow> webhook_server" where
  "new_server has_service secret = \<lparr>ws_service_set = has_service, ws_secret = secret, ws_max_body = default_max_body_bytes\<rparr>"

definition handler_for :: "string \<Rightarrow> string \<Rightarrow> route_name option" where
  "handler_for method path =
     (if method \<in> {''GET'', ''HEAD''} \<and> path \<in> {''/healthz'', ''/readyz''} then Some Health
      else if method = ''POST'' \<and> path = ''/webhook/gitlab'' then Some Webhook else None)"

definition health_reply :: reply where
  \<open>health_reply = \<lparr>rp_status = 200, rp_content_type = ''application/json'', rp_body = ''{"status":"ok"}''\<rparr>\<close>

definition http_error :: "string \<Rightarrow> nat \<Rightarrow> reply" where
  "http_error message status =
     \<lparr>rp_status = status, rp_content_type = ''text/plain; charset=utf-8'', rp_body = message @ [CHR 0x0A]\<rparr>"

text \<open>\<open>json.Encoder\<close> writes the fields of the result in their order and a newline.\<close>

definition result_json :: "ingest_result \<Rightarrow> string" where
  \<open>result_json r =
     ''{"Status":'' @ json_string (ig_status r) @ '',"EventKey":'' @ json_string (ig_event_key r)
       @ '',"DeliveryCount":'' @ nat_string (ig_delivery_count r)
       @ '',"UnresolvedCount":'' @ nat_string (ig_unresolved_count r) @ ''}'' @ [CHR 0x0A]\<close>

definition body_after_close :: go_error where
  "body_after_close = Msg ''http: invalid Read on closed Body''"

definition read_body :: "nat \<Rightarrow> string res \<Rightarrow> string res" where
  "read_body limit body =
     (case body of
        Inl e \<Rightarrow> Inl e
      | Inr b \<Rightarrow> if limit < length b then Inl (Msg ''http: request body too large'') else Inr b)"

definition serve_webhook ::
  "webhook_server \<Rightarrow> (headers \<Rightarrow> string \<Rightarrow> 's \<Rightarrow> ingest_result res \<times> 's) \<Rightarrow> incoming \<Rightarrow> 's \<Rightarrow> reply \<times> 's" where
  "serve_webhook srv handle rq s =
     (if ws_secret srv = [] then (http_error ''webhook authentication is not configured'' 503, s)
      else if rq_header rq ''X-Gitlab-Token'' \<noteq> ws_secret srv then (http_error ''unauthorized'' 401, s)
      else if \<not> ws_service_set srv then (http_error ''webhook service is not configured'' 503, s)
      else case read_body (ws_max_body srv) (rq_body rq) of
        Inl e \<Rightarrow>
          (http_error (if errors_is e body_after_close then ''invalid request body'' else ''request body could not be read'') 400, s)
      | Inr body \<Rightarrow>
        (case handle (rq_header rq) body s of
           (Inl e, s') \<Rightarrow> (http_error ''webhook processing failed'' 500, s')
         | (Inr r, s') \<Rightarrow>
           (\<lparr>rp_status = 200, rp_content_type = ''application/json'', rp_body = result_json r\<rparr>, s')))"

definition serve_request ::
  "webhook_server \<Rightarrow> (headers \<Rightarrow> string \<Rightarrow> 's \<Rightarrow> ingest_result res \<times> 's) \<Rightarrow> string \<Rightarrow> string \<Rightarrow> incoming \<Rightarrow> 's
     \<Rightarrow> (reply \<times> 's) option" where
  "serve_request srv handle method path rq s =
     (case handler_for method path of
        None \<Rightarrow> None
      | Some Health \<Rightarrow> Some (health_reply, s)
      | Some Webhook \<Rightarrow> Some (serve_webhook srv handle rq s))"

subsection \<open>What a reply means\<close>

context ingest_store begin

lemma error_keeps:
  assumes "handle_webhook (Some svc) ord hs body s = (Inl e, s')"
  shows "outbox s' = outbox s"
  using assms by (cases rule: handle_cases) (auto simp: remember_keeps)

end

lemma serve_webhook_cases:
  assumes "serve_webhook srv handle rq s = (r, s')"
  obtains (refused) "s' = s" "rp_status r \<in> {400, 401, 503}"
  | (handled) body where "ws_secret srv \<noteq> []" "rq_header rq ''X-Gitlab-Token'' = ws_secret srv"
      "rq_body rq = Inr body" "length body \<le> ws_max_body srv" "s' = snd (handle (rq_header rq) body s)"
      "rp_status r = (if isl (fst (handle (rq_header rq) body s)) then 500 else 200)"
  using assms
  by (auto simp: serve_webhook_def read_body_def http_error_def split: if_splits sum.splits prod.splits)

text \<open>C11: only a request with the configured secret, and with a body within the limit, can change
  the outbox, and then the reply is 200: a reply of any other status means that no event, no
  delivery and no pipeline state was written, whatever the decoders, the resolver and the
  faults of the store.\<close>

theorem webhook_replies_truthfully:
  assumes "serve_webhook srv
      (handle_webhook (Some (sqlite_service f clock domains policy decoders resolver)) ord) rq db = (r, db')"
  shows "rp_status r \<in> {200, 400, 401, 500, 503}
    \<and> (outbox_part db' \<noteq> outbox_part db \<longrightarrow> rp_status r = 200)
    \<and> (db' \<noteq> db \<longrightarrow> ws_secret srv \<noteq> [] \<and> rq_header rq ''X-Gitlab-Token'' = ws_secret srv
        \<and> (\<exists>body. rq_body rq = Inr body \<and> length body \<le> ws_max_body srv))"
  using assms
proof (cases rule: serve_webhook_cases)
  case (handled body)
  obtain res db1 where h: "handle_webhook (Some (sqlite_service f clock domains policy decoders resolver)) ord (rq_header rq) body db
      = (res, db1)" by fastforce
  show ?thesis
  proof (cases res)
    case (Inl e)
    with handled h sqlite_ingest.error_keeps [OF h [unfolded Inl]] show ?thesis by simp
  next
    case (Inr x)
    with handled h show ?thesis by simp
  qed
qed auto

definition red_request :: "string \<Rightarrow> incoming" where
  "red_request token = \<lparr>rq_header = (\<lambda>h. if h = ''X-Gitlab-Token'' then token else ''red''), rq_body = Inr []\<rparr>"

theorem webhook_replies_truthfully_witness:
  "\<exists>r db'. serve_webhook (new_server True ''s3'')
      (handle_webhook (Some (sqlite_service (\<lambda>_. no_fault) (\<lambda>_. second) [] None [sample_decoder] None)) (\<lambda>_ ks. ks))
      (red_request ''s3'') empty_db = (r, db') \<and> rp_status r = 200 \<and> length (db_deliveries db') = 1"
proof -
  let ?got = "serve_webhook (new_server True ''s3'')
      (handle_webhook (Some (sqlite_service (\<lambda>_. no_fault) (\<lambda>_. second) [] None [sample_decoder] None)) (\<lambda>_ ks. ks))
      (red_request ''s3'') empty_db"
  have n: "length (db_deliveries (snd ?got)) = 1" by code_simp
  have "outbox_part (snd ?got) \<noteq> outbox_part empty_db"
  proof
    assume "outbox_part (snd ?got) = outbox_part empty_db"
    then have "db_deliveries (snd ?got) = db_deliveries empty_db" by (simp only: outbox_part_def prod.inject)
    with n show False by (simp add: empty_db_def)
  qed
  with webhook_replies_truthfully [OF prod.collapse [symmetric], of "new_server True ''s3''"] n show ?thesis
    by (metis prod.collapse)
qed

end
