(* ===== verification/Migration.thy ===== *)
theory Migration
  imports StoreIdentity
begin

section \<open>Opening the database\<close>

text \<open>
  \<open>Open\<close> of store.go with the migrations it runs, and timestamps.go. A \<open>store_file\<close> is what the
  file holds before the program may work on it: a table may be missing, the two columns that
  came later may be missing, and times may be written with any number of digits. The rows of a
  table that lacks a column have that column's field, but nothing reads it before it is added.
  No statement runs in a transaction, so a fault leaves the file as far as it has come. The
  n-th call outside, the directory, \<open>sql.Open\<close> and each statement, fails with \<open>f n\<close>. A text of
  a time is ASCII, so that SQLite's characters are its bytes.
\<close>

record store_file =
  sf_versions :: "(nat \<times> string) list option"
  sf_events :: "event_row list option"
  sf_deliveries :: "(string list \<times> delivery_row list) option"
  sf_identities :: "identity_row list option"
  sf_preferences :: "(string list \<times> preference_row list) option"
  sf_pipeline_states :: "pipeline_state_row list option"
  sf_unresolved :: "unresolved_row list option"
  sf_interactions :: "interaction_row list option"
  sf_indexes :: "string list"
  sf_next_identity_id :: int

definition no_file :: store_file where
  "no_file = \<lparr>sf_versions = None, sf_events = None, sf_deliveries = None, sf_identities = None,
     sf_preferences = None, sf_pipeline_states = None, sf_unresolved = None, sf_interactions = None,
     sf_indexes = [], sf_next_identity_id = 1\<rparr>"

text \<open>The tables the operations of the store work on.\<close>

fun rows_of :: "'a list option \<Rightarrow> 'a list" where
  "rows_of None = []"
| "rows_of (Some rows) = rows"

definition file_db :: "store_file \<Rightarrow> db" where
  "file_db file =
     \<lparr>db_events = rows_of (sf_events file), db_deliveries = rows_of (map_option snd (sf_deliveries file)),
      db_identities = rows_of (sf_identities file), db_preferences = rows_of (map_option snd (sf_preferences file)),
      db_pipeline_states = rows_of (sf_pipeline_states file), db_unresolved = rows_of (sf_unresolved file),
      db_interactions = rows_of (sf_interactions file), db_next_identity_id = sf_next_identity_id file\<rparr>"

subsection \<open>Statements\<close>

type_synonym statement = "store_file \<Rightarrow> store_file res"

text \<open>Statements run one after the other, each with the text its error is wrapped in.\<close>

fun exec_all :: "fault \<Rightarrow> nat \<Rightarrow> (string \<times> statement) list \<Rightarrow> store_file \<Rightarrow> go_error option \<times> nat \<times> store_file" where
  "exec_all f n [] file = (None, n, file)"
| "exec_all f n ((what, st) # sts) file =
     (case f n of Some e \<Rightarrow> (Some (Wrap what e), Suc n, file)
      | None \<Rightarrow> (case st file of
          Inl e \<Rightarrow> (Some (Wrap what e), Suc n, file)
        | Inr file1 \<Rightarrow> exec_all f (Suc n) sts file1))"

definition and_then ::
  "go_error option \<times> nat \<times> store_file \<Rightarrow> (nat \<Rightarrow> store_file \<Rightarrow> go_error option \<times> nat \<times> store_file)
     \<Rightarrow> go_error option \<times> nat \<times> store_file" where
  "and_then r k = (case r of (Some e, n, file) \<Rightarrow> r | (None, n, file) \<Rightarrow> k n file)"

fun if_missing :: "'a \<Rightarrow> 'a option \<Rightarrow> 'a option" where
  "if_missing d None = Some d"
| "if_missing d (Some x) = Some x"

definition add_name :: "'a \<Rightarrow> 'a list \<Rightarrow> 'a list" where
  "add_name x xs = (if x \<in> set xs then xs else xs @ [x])"

text \<open>\<open>CREATE INDEX IF NOT EXISTS\<close>; \<open>ok\<close> is what a unique index wants of the rows.\<close>

definition create_index :: "string \<Rightarrow> (store_file \<Rightarrow> bool) \<Rightarrow> statement" where
  "create_index name ok file =
     (if name \<notin> set (sf_indexes file) \<and> \<not> ok file then Inl constraint_failed
      else Inr (file\<lparr>sf_indexes := add_name name (sf_indexes file)\<rparr>))"

definition configure_statements :: "(string \<times> statement) list" where
  "configure_statements =
     map (\<lambda>s. (''configure SQLite: '' @ s, Inr))
       [''PRAGMA busy_timeout = 5000'', ''PRAGMA foreign_keys = ON'', ''PRAGMA journal_mode = WAL'']"

definition delivery_columns :: "string list" where
  "delivery_columns =
     [''delivery_key'', ''event_key'', ''status'', ''notification_json'', ''attempts'', ''retryable'', ''next_attempt_at'',
      ''lease_until'', ''provider_message_id'', ''last_error_class'', ''last_error_message'', ''created_at'', ''updated_at'',
      ''delivered_at'']"

definition preference_columns :: "string list" where
  "preference_columns =
     [''email'', ''enabled'', ''ci_failed'', ''ci_recovered'', ''mr_review_requested'', ''mr_assigned'', ''mr_updated'',
      ''mr_approved'', ''mr_state_changed'', ''mr_comment'', ''mention'', ''issue_assigned'', ''issue_updated'',
      ''project_include'', ''project_exclude'', ''muted_until'', ''updated_at'']"

definition schema_statements :: "statement list" where
  "schema_statements =
     [\<lambda>file. Inr (file\<lparr>sf_versions := if_missing [] (sf_versions file)\<rparr>),
      \<lambda>file. Inr (file\<lparr>sf_events := if_missing [] (sf_events file)\<rparr>),
      \<lambda>file. Inr (file\<lparr>sf_deliveries := if_missing (delivery_columns, []) (sf_deliveries file)\<rparr>),
      create_index ''deliveries_ready_idx'' (\<lambda>file. True),
      \<lambda>file. Inr (file\<lparr>sf_identities := if_missing [] (sf_identities file)\<rparr>),
      create_index ''identities_provider_id_idx'' (\<lambda>file. unique_on ir_provider_id (rows_of (sf_identities file))),
      create_index ''identities_username_idx'' (\<lambda>file. unique_on ir_username (rows_of (sf_identities file))),
      create_index ''identities_email_idx'' (\<lambda>file. True),
      \<lambda>file. Inr (file\<lparr>sf_preferences := if_missing (preference_columns, []) (sf_preferences file)\<rparr>),
      \<lambda>file. Inr (file\<lparr>sf_pipeline_states := if_missing [] (sf_pipeline_states file)\<rparr>),
      \<lambda>file. Inr (file\<lparr>sf_unresolved := if_missing [] (sf_unresolved file)\<rparr>),
      \<lambda>file. Inr (file\<lparr>sf_interactions := if_missing [] (sf_interactions file)\<rparr>),
      create_index ''interaction_events_created_idx'' (\<lambda>file. True),
      create_index ''deliveries_message_idx'' (\<lambda>file. True)]"

subsection \<open>ensureColumn\<close>

fun scan_columns :: "fault \<Rightarrow> nat \<Rightarrow> string \<Rightarrow> string \<Rightarrow> string list \<Rightarrow> (bool \<times> nat) res" where
  "scan_columns f n table column [] =
     (case f n of Some e \<Rightarrow> Inl (Wrap (''iterate SQLite table '' @ table) e) | None \<Rightarrow> Inr (False, Suc n))"
| "scan_columns f n table column (name # names) =
     (case f n of Some e \<Rightarrow> Inl (Wrap (''scan SQLite table '' @ table) e)
      | None \<Rightarrow>
        if name = column
        then (case f (Suc n) of
                Some e \<Rightarrow> Inl (Wrap (''iterate SQLite table '' @ table) e)
              | None \<Rightarrow> Inr (True, Suc (Suc n)))
        else scan_columns f (Suc n) table column names)"

definition ensure_column ::
  "fault \<Rightarrow> string \<Rightarrow> string \<Rightarrow> (store_file \<Rightarrow> string list) \<Rightarrow> (store_file \<Rightarrow> store_file) \<Rightarrow> nat \<Rightarrow> store_file
     \<Rightarrow> go_error option \<times> nat \<times> store_file" where
  "ensure_column f table column columns add n file =
     (case f n of Some e \<Rightarrow> (Some (Wrap (''inspect SQLite table '' @ table) e), Suc n, file)
      | None \<Rightarrow>
        (case scan_columns f (Suc n) table column (columns file) of
           Inl e \<Rightarrow> (Some e, Suc n, file)
         | Inr (present, m) \<Rightarrow>
           if present then (None, m, file)
           else exec_all f m [(''add SQLite column '' @ table @ ''.'' @ column, \<lambda>file. Inr (add file))] file))"

definition columns_of :: "(string list \<times> 'a) option \<Rightarrow> string list" where
  "columns_of t = (case t of None \<Rightarrow> [] | Some (names, rows) \<Rightarrow> names)"

definition add_retryable :: "store_file \<Rightarrow> store_file" where
  "add_retryable file = file\<lparr>sf_deliveries := map_option (\<lambda>(names, rows).
     (names @ [''retryable''], map (\<lambda>r. r\<lparr>dr_retryable := True\<rparr>) rows)) (sf_deliveries file)\<rparr>"

definition add_muted_until :: "store_file \<Rightarrow> store_file" where
  "add_muted_until file = file\<lparr>sf_preferences := map_option (\<lambda>(names, rows).
     (names @ [''muted_until''], map (\<lambda>r. r\<lparr>pf_muted_until := []\<rparr>) rows)) (sf_preferences file)\<rparr>"

subsection \<open>normalizeTimestamps\<close>

text \<open>SQLite's \<open>instr\<close> of one character and \<open>substr\<close> from a position counted from one.\<close>

definition sql_instr :: "string \<Rightarrow> char \<Rightarrow> nat" where
  "sql_instr s c = (if c \<in> set s then Suc (length (takeWhile (\<lambda>x. x \<noteq> c) s)) else 0)"

definition sql_substr :: "string \<Rightarrow> nat \<Rightarrow> nat \<Rightarrow> string" where
  "sql_substr s i n = take n (drop (i - 1) s)"

definition normalized_text :: "string \<Rightarrow> string" where
  "normalized_text s =
     (let t = trim_right s CHR ''Z''; i = sql_instr t CHR ''.'' in
      if i = 0 then t @ ''.000Z''
      else sql_substr t 1 (i - 1) @ ''.'' @ sql_substr (drop i t @ ''000'') 1 3 @ ''Z'')"

definition normalize_timestamp :: "string \<Rightarrow> string" where
  "normalize_timestamp s = (if s \<noteq> [] \<and> last s = CHR ''Z'' then normalized_text s else s)"

definition on_events :: "(event_row \<Rightarrow> event_row) \<Rightarrow> store_file \<Rightarrow> store_file" where
  "on_events g file = file\<lparr>sf_events := map_option (map g) (sf_events file)\<rparr>"

definition on_deliveries :: "(delivery_row \<Rightarrow> delivery_row) \<Rightarrow> store_file \<Rightarrow> store_file" where
  "on_deliveries g file = file\<lparr>sf_deliveries := map_option (apsnd (map g)) (sf_deliveries file)\<rparr>"

definition on_identities :: "(identity_row \<Rightarrow> identity_row) \<Rightarrow> store_file \<Rightarrow> store_file" where
  "on_identities g file = file\<lparr>sf_identities := map_option (map g) (sf_identities file)\<rparr>"

definition on_preferences :: "(preference_row \<Rightarrow> preference_row) \<Rightarrow> store_file \<Rightarrow> store_file" where
  "on_preferences g file = file\<lparr>sf_preferences := map_option (apsnd (map g)) (sf_preferences file)\<rparr>"

definition on_pipeline_states :: "(pipeline_state_row \<Rightarrow> pipeline_state_row) \<Rightarrow> store_file \<Rightarrow> store_file" where
  "on_pipeline_states g file = file\<lparr>sf_pipeline_states := map_option (map g) (sf_pipeline_states file)\<rparr>"

definition on_unresolved :: "(unresolved_row \<Rightarrow> unresolved_row) \<Rightarrow> store_file \<Rightarrow> store_file" where
  "on_unresolved g file = file\<lparr>sf_unresolved := map_option (map g) (sf_unresolved file)\<rparr>"

definition on_interactions :: "(interaction_row \<Rightarrow> interaction_row) \<Rightarrow> store_file \<Rightarrow> store_file" where
  "on_interactions g file = file\<lparr>sf_interactions := map_option (map g) (sf_interactions file)\<rparr>"

definition timestamp_columns :: "(string \<times> (store_file \<Rightarrow> store_file)) list" where
  "timestamp_columns =
     (let t = normalize_timestamp in
     [(''events.received_at'', on_events (er_received_at_update t)),
      (''events.occurred_at'', on_events (er_occurred_at_update (map_option t))),
      (''events.created_at'', on_events (er_created_at_update t)),
      (''deliveries.next_attempt_at'', on_deliveries (dr_next_attempt_at_update t)),
      (''deliveries.lease_until'', on_deliveries (dr_lease_until_update (map_option t))),
      (''deliveries.created_at'', on_deliveries (dr_created_at_update t)),
      (''deliveries.updated_at'', on_deliveries (dr_updated_at_update t)),
      (''deliveries.delivered_at'', on_deliveries (dr_delivered_at_update (map_option t))),
      (''identities.updated_at'', on_identities (ir_updated_at_update t)),
      (''notification_preferences.updated_at'', on_preferences (pf_updated_at_update t)),
      (''pipeline_states.updated_at'', on_pipeline_states (psr_updated_at_update t)),
      (''unresolved_identities.first_seen'', on_unresolved (un_first_seen_update t)),
      (''unresolved_identities.last_seen'', on_unresolved (un_last_seen_update t)),
      (''interaction_events.created_at'', on_interactions (ix_created_at_update t)),
      (''interaction_events.updated_at'', on_interactions (ix_updated_at_update t))])"

definition normalize_statements :: "(string \<times> statement) list" where
  "normalize_statements =
     map (\<lambda>(name, update). (''normalize '' @ name @ '' timestamps'', \<lambda>file. Inr (update file))) timestamp_columns"

subsection \<open>migrate and Open\<close>

definition insert_version :: "nat \<Rightarrow> string \<Rightarrow> statement" where
  "insert_version v now file =
     Inr (file\<lparr>sf_versions := map_option (\<lambda>vs. if v \<in> fst ` set vs then vs else vs @ [(v, now)]) (sf_versions file)\<rparr>)"

definition version_statements :: "(nat \<Rightarrow> time) \<Rightarrow> (string \<times> statement) list" where
  "version_statements clock =
     [(''record SQLite migration'', insert_version 1 (format_timestamp (clock 0))),
      (''record SQLite retryable migration'', insert_version 2 (format_timestamp (clock 1))),
      (''record SQLite interaction migration'', insert_version 3 (format_timestamp (clock 2))),
      (''record SQLite timestamp migration'', insert_version 4 (format_timestamp (clock 3))),
      (''record SQLite mute migration'', insert_version 5 (format_timestamp (clock 4)))]"

definition migrate :: "fault \<Rightarrow> (nat \<Rightarrow> time) \<Rightarrow> nat \<Rightarrow> store_file \<Rightarrow> go_error option \<times> nat \<times> store_file" where
  "migrate f clock n file =
     and_then (exec_all f n (map (Pair ''migrate SQLite'') schema_statements) file)
       (\<lambda>n file. and_then (ensure_column f ''deliveries'' ''retryable'' (\<lambda>file. columns_of (sf_deliveries file)) add_retryable n file)
       (\<lambda>n file. and_then (ensure_column f ''notification_preferences'' ''muted_until''
                             (\<lambda>file. columns_of (sf_preferences file)) add_muted_until n file)
       (\<lambda>n file. and_then (exec_all f n normalize_statements file)
       (\<lambda>n file. exec_all f n (version_statements clock) file))))"

definition needs_directory :: "string \<Rightarrow> bool" where
  "needs_directory path \<longleftrightarrow> path \<noteq> '':memory:'' \<and> \<not> has_prefix path ''file:''"

definition open_store ::
  "fault \<Rightarrow> (nat \<Rightarrow> time) \<Rightarrow> string \<Rightarrow> store_config \<Rightarrow> store_file \<Rightarrow> store_config res \<times> store_file" where
  "open_store f clock path config file =
     (if path = [] then (Inl (Msg ''SQLite path is required''), file)
      else case (if needs_directory path then f 0 else None) of
        Some e \<Rightarrow> (Inl (Wrap ''create SQLite directory'' e), file)
      | None \<Rightarrow> case f 1 of
        Some e \<Rightarrow> (Inl (Wrap ''open SQLite'' e), file)
      | None \<Rightarrow>
        (case and_then (exec_all f 2 configure_statements file) (migrate f clock) of
           (Some e, n, file1) \<Rightarrow> (Inl e, file1)
         | (None, n, file1) \<Rightarrow> (Inr (open_config config), file1)))"

subsection \<open>The text of a time\<close>

text \<open>
  Go's \<open>RFC3339Nano\<close> in UTC, the layout of the times an older store may hold: the fraction of
  the second has no zeros at its end, and is left out if nothing is left of it.
\<close>

definition seconds_text :: "time \<Rightarrow> string" where
  "seconds_text t =
     (let r = nat (ms_of t mod day_ms) in
      date_string (ms_of t div day_ms) @ ''T'' @ pad 2 (r div 1000 div 60 div 60) @ '':''
        @ pad 2 (r div 1000 div 60 mod 60) @ '':'' @ pad 2 (r div 1000 mod 60))"

definition rfc3339_nano :: "time \<Rightarrow> string" where
  "rfc3339_nano t =
     (let fraction = trim_right (pad 9 (nat (t mod second))) CHR ''0'' in
      seconds_text t @ (if fraction = [] then [] else CHR ''.'' # fraction) @ ''Z'')"

lemma trim_right_split: "\<exists>k. s = trim_right s c @ replicate k c"
proof -
  have "rev s = takeWhile (\<lambda>x. x = c) (rev s) @ dropWhile (\<lambda>x. x = c) (rev s)" by simp
  moreover have "takeWhile (\<lambda>x. x = c) (rev s) = replicate (length (takeWhile (\<lambda>x. x = c) (rev s))) c"
    by (metis (mono_tags, lifting) replicate_length_same set_takeWhileD)
  ultimately have "s = trim_right s c @ replicate (length (takeWhile (\<lambda>x. x = c) (rev s))) c"
    unfolding trim_right_def by (metis rev_append rev_replicate rev_rev_ident)
  then show ?thesis by blast
qed

lemma trim_right_snoc [simp]: "trim_right (s @ [c]) d = (if c = d then trim_right s d else s @ [c])"
  by (simp add: trim_right_def)

lemma trim_right_notin: "c \<notin> set s \<Longrightarrow> trim_right s c = s"
  by (cases s rule: rev_cases) (auto simp: trim_right_def)

lemma set_trim_right: "set (trim_right s c) \<subseteq> set s"
  unfolding trim_right_def using set_dropWhileD by fastforce

lemma pad_digits: "x \<in> set (pad w n) \<Longrightarrow> 48 \<le> code x \<and> code x \<le> 57"
  by (induction w arbitrary: n) auto

lemma nat_string_codes: "x \<in> set (nat_string n) \<Longrightarrow> 48 \<le> code x \<and> code x \<le> 57"
proof (induction n rule: nat_string.induct)
  case (1 n)
  then show ?case by (cases "n < 10") (auto simp: nat_string.simps [of n])
qed

lemma year_string_codes: "x \<in> set (year_string y) \<Longrightarrow> x = CHR ''-'' \<or> 48 \<le> code x \<and> code x \<le> 57"
  using pad_digits nat_string_codes unfolding year_string_def Let_def by (auto split: if_splits)

lemma plain_codes: "\<not> (48 \<le> code CHR ''.'' \<and> code CHR ''.'' \<le> 57)" "\<not> (48 \<le> code CHR ''Z'' \<and> code CHR ''Z'' \<le> 57)"
  by (simp_all add: code_def)

lemma date_string_codes: "x \<in> set (date_string day) \<Longrightarrow> x = CHR ''-'' \<or> 48 \<le> code x \<and> code x \<le> 57"
  by (cases "ymd day") (auto simp: date_string_def dest: pad_digits year_string_codes)

lemma seconds_text_codes:
  assumes "x \<in> set (seconds_text t)"
  shows "x \<in> set ''-T:'' \<or> 48 \<le> code x \<and> code x \<le> 57"
  using assms unfolding seconds_text_def Let_def set_append Un_iff
  by (elim disjE) (drule date_string_codes pad_digits, auto)+

lemma seconds_text_plain: "CHR ''.'' \<notin> set (seconds_text t)" "CHR ''Z'' \<notin> set (seconds_text t)"
  using seconds_text_codes [of "CHR ''.''" t] seconds_text_codes [of "CHR ''Z''" t] plain_codes by auto

lemma pad_append: "pad (a + b) n = pad a (n div 10 ^ b) @ pad b n"
  by (induction b arbitrary: n) (simp_all add: div_mult2_eq)

lemma millis_of_second: "nat (ms_of t mod day_ms) mod 1000 = nat (t mod second) div 10 ^ 6"
proof -
  have "t mod (1000000 * 1000) = 1000000 * (t div 1000000 mod 1000) + t mod 1000000"
    by (rule zmod_zmult2_eq) simp
  then have div: "t mod 1000000000 div 1000000 = t div 1000000 mod 1000"
    by (simp add: div_mult_self4)
  have "int (nat (ms_of t mod day_ms) mod 1000) = ms_of t mod day_ms mod 1000"
    by (simp add: zmod_int day_ms_def)
  also have "\<dots> = ms_of t mod 1000"
    by (simp add: day_ms_def mod_mod_cancel)
  also have "\<dots> = t mod second div 1000000"
    by (simp add: ms_of_def millisecond_def second_def div)
  also have "\<dots> = int (nat (t mod second) div 10 ^ 6)"
    by (simp add: zdiv_int second_def)
  finally show ?thesis by (simp only: of_nat_eq_iff)
qed

lemma format_timestamp_seconds:
  "format_timestamp t = seconds_text t @ ''.'' @ pad 3 (nat (t mod second) div 10 ^ 6) @ ''Z''"
  unfolding format_timestamp_def clock_string_def seconds_text_def Let_def millis_of_second
  by (simp only: append_assoc)

lemma sql_instr_dot: "c \<notin> set p \<Longrightarrow> sql_instr (p @ c # q) c = Suc (length p)"
proof -
  assume "c \<notin> set p"
  then have "takeWhile (\<lambda>x. x \<noteq> c) (p @ c # q) = p" by (induction p) auto
  then show ?thesis by (simp add: sql_instr_def)
qed

lemma normalize_plain:
  assumes "CHR ''.'' \<notin> set p" "CHR ''Z'' \<notin> set p"
  shows "normalize_timestamp (p @ ''Z'') = p @ ''.000Z''"
proof -
  have "trim_right (p @ ''Z'') CHR ''Z'' = p" using trim_right_snoc [of p] assms(2) by (simp add: trim_right_notin)
  then show ?thesis using assms(1) by (simp add: normalize_timestamp_def normalized_text_def sql_instr_def)
qed

lemma normalize_fraction:
  assumes "CHR ''.'' \<notin> set p" "CHR ''Z'' \<notin> set q" "CHR ''Z'' \<notin> set p"
  shows "normalize_timestamp (p @ CHR ''.'' # q @ ''Z'') = p @ ''.'' @ take 3 (q @ ''000'') @ ''Z''"
proof -
  have "trim_right ((p @ CHR ''.'' # q) @ [CHR ''Z'']) CHR ''Z'' = p @ CHR ''.'' # q"
    by (simp only: trim_right_snoc if_True) (simp add: trim_right_notin assms)
  then have "trim_right (p @ CHR ''.'' # q @ ''Z'') CHR ''Z'' = p @ CHR ''.'' # q" by simp
  then show ?thesis
    using assms(1) by (simp add: normalize_timestamp_def normalized_text_def sql_instr_dot sql_substr_def)
qed

lemma take_trimmed:
  assumes "length s = 9"
  shows "take 3 (trim_right s CHR ''0'' @ ''000'') = take 3 s"
proof -
  let ?t = "trim_right s CHR ''0''"
  obtain k where k: "s = ?t @ replicate k CHR ''0''" using trim_right_split by blast
  then have len: "length ?t + k = 9" using assms by (metis length_append length_replicate)
  have "take 3 s = take 3 (?t @ replicate k CHR ''0'')" using k by simp
  also have "\<dots> = take 3 ?t @ replicate (min (3 - length ?t) k) CHR ''0''" by (simp only: take_append take_replicate)
  also have "min (3 - length ?t) k = min (3 - length ?t) 3" using len by simp
  also have "take 3 ?t @ replicate (min (3 - length ?t) 3) CHR ''0'' = take 3 (?t @ replicate 3 CHR ''0'')"
    by (simp only: take_append take_replicate)
  also have "replicate 3 CHR ''0'' = ''000''" by (simp add: numeral_3_eq_3)
  finally show ?thesis ..
qed

text \<open>C39: migrated times: a time of an older store, written with any number of digits of the second,
  becomes the very text the store writes for the instant, and a text of the store stays as it is.
\<close>

theorem migrated_times_are_store_times:
  "normalize_timestamp (rfc3339_nano t) = format_timestamp t
     \<and> normalize_timestamp (format_timestamp t) = format_timestamp t"
proof (rule conjI)
  let ?n = "nat (t mod second)" let ?q = "trim_right (pad 9 ?n) CHR ''0''"
  have Z: "CHR ''Z'' \<notin> set (pad w n)" for w n using pad_digits plain_codes by blast
  then have q: "CHR ''Z'' \<notin> set ?q" using set_trim_right by blast
  have ms: "take 3 (?q @ ''000'') = pad 3 (?n div 10 ^ 6)"
    using pad_append [of 3 6 ?n] take_trimmed [of "pad 9 ?n"] by simp
  show "normalize_timestamp (rfc3339_nano t) = format_timestamp t"
  proof (cases "?q = []")
    case True
    then show ?thesis
      using normalize_plain [OF seconds_text_plain] ms unfolding rfc3339_nano_def Let_def format_timestamp_seconds by simp
  next
    case False
    then show ?thesis
      using normalize_fraction [OF seconds_text_plain(1) q seconds_text_plain(2)] ms
      unfolding rfc3339_nano_def Let_def format_timestamp_seconds by simp
  qed
  show "normalize_timestamp (format_timestamp t) = format_timestamp t"
    using normalize_fraction [OF seconds_text_plain(1) Z seconds_text_plain(2)]
    unfolding format_timestamp_seconds by simp
qed

subsection \<open>What Open leaves in the file\<close>

text \<open>The migrated tables, row by row.\<close>

definition migrated_event :: "event_row \<Rightarrow> event_row" where
  "migrated_event r = r\<lparr>er_received_at := normalize_timestamp (er_received_at r),
     er_occurred_at := map_option normalize_timestamp (er_occurred_at r), er_created_at := normalize_timestamp (er_created_at r)\<rparr>"

definition migrated_delivery :: "delivery_row \<Rightarrow> delivery_row" where
  "migrated_delivery r = r\<lparr>dr_next_attempt_at := normalize_timestamp (dr_next_attempt_at r),
     dr_lease_until := map_option normalize_timestamp (dr_lease_until r), dr_created_at := normalize_timestamp (dr_created_at r),
     dr_updated_at := normalize_timestamp (dr_updated_at r), dr_delivered_at := map_option normalize_timestamp (dr_delivered_at r)\<rparr>"

definition migrated_db :: "store_file \<Rightarrow> db" where
  "migrated_db file =
     (let db = file_db file; t = normalize_timestamp in
      \<lparr>db_events = map migrated_event (db_events db),
       db_deliveries = map (\<lambda>r. migrated_delivery
         (if ''retryable'' \<in> set (columns_of (sf_deliveries file)) then r else r\<lparr>dr_retryable := True\<rparr>)) (db_deliveries db),
       db_identities = map (\<lambda>r. r\<lparr>ir_updated_at := t (ir_updated_at r)\<rparr>) (db_identities db),
       db_preferences = map (\<lambda>r.
         (if ''muted_until'' \<in> set (columns_of (sf_preferences file)) then r else r\<lparr>pf_muted_until := []\<rparr>)
           \<lparr>pf_updated_at := t (pf_updated_at r)\<rparr>) (db_preferences db),
       db_pipeline_states = map (\<lambda>r. r\<lparr>psr_updated_at := t (psr_updated_at r)\<rparr>) (db_pipeline_states db),
       db_unresolved = map (\<lambda>r. r\<lparr>un_first_seen := t (un_first_seen r), un_last_seen := t (un_last_seen r)\<rparr>) (db_unresolved db),
       db_interactions = map (\<lambda>r. r\<lparr>ix_created_at := t (ix_created_at r), ix_updated_at := t (ix_updated_at r)\<rparr>) (db_interactions db),
       db_next_identity_id = db_next_identity_id db\<rparr>)"

fun run_all :: "statement list \<Rightarrow> statement" where
  "run_all [] file = Inr file"
| "run_all (st # sts) file = (case st file of Inl e \<Rightarrow> Inl e | Inr file1 \<Rightarrow> run_all sts file1)"

lemma exec_all_done: "exec_all f n sts file = (None, m, file1) \<Longrightarrow> run_all (map snd sts) file = Inr file1"
  by (induction f n sts "file" rule: exec_all.induct) (auto split: option.splits sum.splits)

lemma run_all_total: "run_all (map (\<lambda>g file. Inr (g file)) gs) file = Inr (fold id gs file)"
  by (induction gs arbitrary: "file") auto

lemma and_then_done:
  "and_then r k = (None, n, file) \<longleftrightarrow> (\<exists>m file1. r = (None, m, file1) \<and> k m file1 = (None, n, file))"
  by (auto simp: and_then_def split: prod.splits option.splits)

lemma scan_columns_found: "scan_columns f n table column names = Inr (present, m) \<Longrightarrow> present = (column \<in> set names)"
  by (induction f n table column names rule: scan_columns.induct) (auto split: option.splits if_splits)

lemma ensure_column_done:
  "ensure_column f table column columns add n file = (None, m, file1)
     \<Longrightarrow> file1 = (if column \<in> set (columns file) then file else add file)"
  unfolding ensure_column_def
  by (auto split: option.splits sum.splits prod.splits if_splits dest!: scan_columns_found)

definition index_names :: "string list" where
  "index_names =
     [''deliveries_ready_idx'', ''identities_provider_id_idx'', ''identities_username_idx'', ''identities_email_idx'',
      ''interaction_events_created_idx'', ''deliveries_message_idx'']"

definition schema_file :: "store_file \<Rightarrow> store_file" where
  "schema_file file = file\<lparr>sf_versions := if_missing [] (sf_versions file), sf_events := if_missing [] (sf_events file),
     sf_deliveries := if_missing (delivery_columns, []) (sf_deliveries file), sf_identities := if_missing [] (sf_identities file),
     sf_preferences := if_missing (preference_columns, []) (sf_preferences file),
     sf_pipeline_states := if_missing [] (sf_pipeline_states file), sf_unresolved := if_missing [] (sf_unresolved file),
     sf_interactions := if_missing [] (sf_interactions file), sf_indexes := fold add_name index_names (sf_indexes file)\<rparr>"

lemma create_index_done:
  "create_index name ok file = Inr file1
     \<longleftrightarrow> (name \<in> set (sf_indexes file) \<or> ok file) \<and> file1 = file\<lparr>sf_indexes := add_name name (sf_indexes file)\<rparr>"
  by (auto simp: create_index_def)

lemma run_all_Cons_done: "run_all (st # sts) file = Inr file2 \<longleftrightarrow> (\<exists>file1. st file = Inr file1 \<and> run_all sts file1 = Inr file2)"
  by (auto split: sum.splits)

lemma set_add_name [simp]: "set (add_name x xs) = insert x (set xs)"
  by (auto simp: add_name_def)

lemma rows_of_if_missing [simp]: "rows_of (if_missing [] t) = rows_of t"
  by (cases t) auto

lemma schema_done:
  assumes "run_all schema_statements file = Inr file1"
  shows "file1 = schema_file file"
    and "''identities_provider_id_idx'' \<in> set (sf_indexes file) \<or> unique_on ir_provider_id (rows_of (sf_identities file))"
    and "''identities_username_idx'' \<in> set (sf_indexes file) \<or> unique_on ir_username (rows_of (sf_identities file))"
  using assms
  by (simp_all add: schema_statements_def run_all_Cons_done create_index_done schema_file_def index_names_def del: run_all.simps(2))

definition normalized_file :: "store_file \<Rightarrow> store_file" where
  "normalized_file file = (let t = normalize_timestamp in
     file\<lparr>sf_events := map_option (map migrated_event) (sf_events file),
       sf_deliveries := map_option (apsnd (map migrated_delivery)) (sf_deliveries file),
       sf_identities := map_option (map (ir_updated_at_update t)) (sf_identities file),
       sf_preferences := map_option (apsnd (map (pf_updated_at_update t))) (sf_preferences file),
       sf_pipeline_states := map_option (map (psr_updated_at_update t)) (sf_pipeline_states file),
       sf_unresolved := map_option (map (\<lambda>r. un_last_seen_update t (un_first_seen_update t r))) (sf_unresolved file),
       sf_interactions := map_option (map (\<lambda>r. ix_updated_at_update t (ix_created_at_update t r))) (sf_interactions file)\<rparr>)"

lemma map_option_map_map: "map_option (map g) (map_option (map h) t) = map_option (map (\<lambda>r. g (h r))) t"
  by (cases t) auto

lemma map_option_apsnd_map_map:
  "map_option (apsnd (map g)) (map_option (apsnd (map h)) t) = map_option (apsnd (map (\<lambda>r. g (h r)))) t"
  by (cases t) (auto simp: apsnd_def)

lemma normalized_done: "fold id (map snd timestamp_columns) file = normalized_file file"
proof -
  have e: "er_created_at_update t (er_occurred_at_update (map_option t) (er_received_at_update t r)) = migrated_event r"
    if "t = normalize_timestamp" for t r
    by (cases r) (simp add: migrated_event_def that)
  have d: "dr_delivered_at_update (map_option t) (dr_updated_at_update t (dr_created_at_update t
      (dr_lease_until_update (map_option t) (dr_next_attempt_at_update t r)))) = migrated_delivery r"
    if "t = normalize_timestamp" for t r
    by (cases r) (simp add: migrated_delivery_def that)
  show ?thesis
    unfolding timestamp_columns_def normalized_file_def Let_def
    by (simp add: on_events_def on_deliveries_def on_identities_def on_preferences_def on_pipeline_states_def
        on_unresolved_def on_interactions_def map_option_map_map map_option_apsnd_map_map e d)
qed

lemma normalize_statements_eq:
  "map snd normalize_statements = map (\<lambda>g file. Inr (g file)) (map snd timestamp_columns)"
  by (auto simp: normalize_statements_def)

definition versioned_file :: "(nat \<Rightarrow> time) \<Rightarrow> store_file \<Rightarrow> store_file" where
  "versioned_file clock file = file\<lparr>sf_versions := map_option (\<lambda>vs.
     fold (\<lambda>v vs. if v \<in> fst ` set vs then vs else vs @ [(v, format_timestamp (clock (v - 1)))]) [1, 2, 3, 4, 5] vs) (sf_versions file)\<rparr>"

lemma versions_done: "run_all (map snd (version_statements clock)) file = Inr (versioned_file clock file)"
  unfolding version_statements_def versioned_file_def insert_version_def
  by (cases "sf_versions file") (simp_all add: numeral_eq_Suc)

lemma configure_done: "run_all (map snd configure_statements) file = Inr file"
  by (simp add: configure_statements_def)

lemma open_store_done:
  assumes "open_store f clock path config file = (Inr c, file1)"
  obtains file2 file3 where
    "run_all schema_statements file = Inr (schema_file file)"
    "file2 = (if ''retryable'' \<in> set (columns_of (sf_deliveries (schema_file file))) then schema_file file
              else add_retryable (schema_file file))"
    "file3 = (if ''muted_until'' \<in> set (columns_of (sf_preferences file2)) then file2 else add_muted_until file2)"
    "file1 = versioned_file clock (normalized_file file3)" "c = open_config config"
proof -
  obtain n where *: "and_then (exec_all f 2 configure_statements file) (migrate f clock) = (None, n, file1)"
    and c: "c = open_config config"
    using assms unfolding open_store_def by (auto split: if_splits option.splits prod.splits)
  then obtain n1 n2 n3 n4 n5 f1 f2 f3 f4 f5 where
    1: "exec_all f 2 configure_statements file = (None, n1, f1)"
    and 2: "exec_all f n1 (map (Pair ''migrate SQLite'') schema_statements) f1 = (None, n2, f2)"
    and 3: "ensure_column f ''deliveries'' ''retryable'' (\<lambda>file. columns_of (sf_deliveries file)) add_retryable n2 f2 = (None, n3, f3)"
    and 4: "ensure_column f ''notification_preferences'' ''muted_until'' (\<lambda>file. columns_of (sf_preferences file))
              add_muted_until n3 f3 = (None, n4, f4)"
    and 5: "exec_all f n4 normalize_statements f4 = (None, n5, f5)"
    and 6: "exec_all f n5 (version_statements clock) f5 = (None, n, file1)"
    unfolding and_then_done migrate_def by blast
  have e1: "f1 = file" using exec_all_done [OF 1] configure_done [of "file"] by simp
  have s: "run_all schema_statements file = Inr f2" using exec_all_done [OF 2] e1 by (simp add: comp_def)
  have e2: "f2 = schema_file file" by (rule schema_done(1) [OF s])
  have e5: "f5 = normalized_file f4"
    using exec_all_done [OF 5] unfolding normalize_statements_eq run_all_total normalized_done by simp
  have e6: "file1 = versioned_file clock f5" using exec_all_done [OF 6] versions_done by simp
  show thesis
    by (rule that [OF s [unfolded e2] _ _ _ c, of f3 f4])
      (use ensure_column_done [OF 3] ensure_column_done [OF 4] e2 e5 e6 in simp_all)
qed

text \<open>What SQLite keeps of a file: the rows under a unique index are unique.\<close>

definition indexes_hold :: "store_file \<Rightarrow> bool" where
  "indexes_hold file \<longleftrightarrow>
     (''identities_provider_id_idx'' \<in> set (sf_indexes file) \<longrightarrow> unique_on ir_provider_id (rows_of (sf_identities file)))
     \<and> (''identities_username_idx'' \<in> set (sf_indexes file) \<longrightarrow> unique_on ir_username (rows_of (sf_identities file)))"

definition plain_time :: "string \<Rightarrow> bool" where
  "plain_time s \<longleftrightarrow> CHR ''Z'' \<notin> set (butlast s)"

definition file_times :: "store_file \<Rightarrow> string list" where
  "file_times file =
     (let db = file_db file; opt = (\<lambda>x. case x of None \<Rightarrow> [] | Some s \<Rightarrow> [s]) in
      concat (map (\<lambda>r. er_received_at r # opt (er_occurred_at r) @ [er_created_at r]) (db_events db))
      @ concat (map (\<lambda>r. dr_next_attempt_at r # opt (dr_lease_until r) @ [dr_created_at r, dr_updated_at r] @ opt (dr_delivered_at r))
          (db_deliveries db))
      @ map ir_updated_at (db_identities db) @ map pf_updated_at (db_preferences db)
      @ map psr_updated_at (db_pipeline_states db)
      @ concat (map (\<lambda>r. [un_first_seen r, un_last_seen r]) (db_unresolved db))
      @ concat (map (\<lambda>r. [ix_created_at r, ix_updated_at r]) (db_interactions db)))"

lemma rows_of_map_option [simp]: "rows_of (map_option (map g) t) = map g (rows_of t)"
  by (cases t) auto

lemma rows_of_table [simp]:
  "rows_of (map_option snd (map_option (apsnd (map g)) t)) = map g (rows_of (map_option snd t))"
  "rows_of (map_option snd (if_missing (names, []) t)) = rows_of (map_option snd t)"
  by (cases t; auto)+

lemma columns_of_simps [simp]:
  "columns_of None = []"
  "columns_of (map_option (apsnd g) t) = columns_of t"
  "columns_of (Some (names, rows)) = names"
  by (auto simp: columns_of_def split: option.split)

lemma rows_of_added [simp]:
  "rows_of (map_option snd (map_option (\<lambda>(names, rows). (names @ [x], map g rows)) t)) = map g (rows_of (map_option snd t))"
  by (cases t) auto

lemma column_after_schema:
  "c \<in> set names \<Longrightarrow> c \<in> set (columns_of (if_missing (names, []) t)) \<longleftrightarrow> t = None \<or> c \<in> set (columns_of t)"
  by (cases t) (auto simp: columns_of_def)

lemma file_db_versioned [simp]: "file_db (versioned_file clock file) = file_db file"
  by (simp add: file_db_def versioned_file_def)

lemma file_db_normalized:
  "file_db (normalized_file file) = (let db = file_db file; t = normalize_timestamp in
     \<lparr>db_events = map migrated_event (db_events db), db_deliveries = map migrated_delivery (db_deliveries db),
      db_identities = map (ir_updated_at_update t) (db_identities db),
      db_preferences = map (pf_updated_at_update t) (db_preferences db),
      db_pipeline_states = map (psr_updated_at_update t) (db_pipeline_states db),
      db_unresolved = map (\<lambda>r. un_last_seen_update t (un_first_seen_update t r)) (db_unresolved db),
      db_interactions = map (\<lambda>r. ix_updated_at_update t (ix_created_at_update t r)) (db_interactions db),
      db_next_identity_id = db_next_identity_id db\<rparr>)"
  by (simp add: file_db_def normalized_file_def Let_def)

lemma retryable_column: "''retryable'' \<in> set delivery_columns" "''muted_until'' \<in> set preference_columns"
  by (simp_all add: delivery_columns_def preference_columns_def)

lemma opened_rows:
  assumes "open_store f clock path config file = (Inr c, file1)"
  shows "file_db file1 = migrated_db file"
proof -
  obtain file2 file3 where
    2: "file2 = (if ''retryable'' \<in> set (columns_of (sf_deliveries (schema_file file))) then schema_file file
              else add_retryable (schema_file file))"
    and 3: "file3 = (if ''muted_until'' \<in> set (columns_of (sf_preferences file2)) then file2 else add_muted_until file2)"
    and 1: "file1 = versioned_file clock (normalized_file file3)"
    by (rule open_store_done [OF assms])
  have d: "db_deliveries (file_db file3) = map (\<lambda>r. if ''retryable'' \<in> set (columns_of (sf_deliveries file))
      then r else r\<lparr>dr_retryable := True\<rparr>) (db_deliveries (file_db file))"
    unfolding 3 2
    by (cases "sf_deliveries file") (auto simp: file_db_def add_muted_until_def add_retryable_def schema_file_def
        column_after_schema [OF retryable_column(1)])
  have p2: "sf_preferences file2 = if_missing (preference_columns, []) (sf_preferences file)"
    unfolding 2 by (simp add: add_retryable_def schema_file_def)
  have p: "db_preferences (file_db file3) = map (\<lambda>r. if ''muted_until'' \<in> set (columns_of (sf_preferences file))
      then r else r\<lparr>pf_muted_until := []\<rparr>) (db_preferences (file_db file))"
    unfolding 3 using p2 column_after_schema [OF retryable_column(2), of "sf_preferences file"]
    by (cases "sf_preferences file") (auto simp: file_db_def add_muted_until_def)
  have r: "db_events (file_db file3) = db_events (file_db file)" "db_identities (file_db file3) = db_identities (file_db file)"
    "db_pipeline_states (file_db file3) = db_pipeline_states (file_db file)"
    "db_unresolved (file_db file3) = db_unresolved (file_db file)"
    "db_interactions (file_db file3) = db_interactions (file_db file)"
    "db_next_identity_id (file_db file3) = db_next_identity_id (file_db file)"
    unfolding 3 2 by (simp_all add: file_db_def add_muted_until_def add_retryable_def schema_file_def)
  show ?thesis
    unfolding 1 file_db_versioned file_db_normalized Let_def d p r migrated_db_def
    by (auto simp: comp_def)
qed

lemma opened_unique:
  assumes "open_store f clock path config file = (Inr c, file1)" "indexes_hold file"
  shows "unique_identities (db_identities (file_db file1))"
proof -
  have s: "run_all schema_statements file = Inr (schema_file file)" by (rule open_store_done [OF assms(1)])
  have "unique_identities (rows_of (sf_identities file))"
    using schema_done(2,3) [OF s] assms(2) by (auto simp: indexes_hold_def unique_identities_def)
  then have "unique_identities (db_identities (file_db file))" by (simp add: file_db_def)
  then show ?thesis
    unfolding opened_rows [OF assms(1)] migrated_db_def Let_def
    by (simp add: unique_identities_def unique_on_def filter_map comp_def)
qed

subsection \<open>A file that needs nothing\<close>

definition schema_current :: "store_file \<Rightarrow> bool" where
  "schema_current file \<longleftrightarrow> schema_file file = file
     \<and> ''retryable'' \<in> set (columns_of (sf_deliveries file)) \<and> ''muted_until'' \<in> set (columns_of (sf_preferences file))"

definition versions_current :: "store_file \<Rightarrow> bool" where
  "versions_current file \<longleftrightarrow> (\<forall>v \<in> {1, 2, 3, 4, 5}. v \<in> fst ` set (the (sf_versions file)))"

definition times_current :: "store_file \<Rightarrow> bool" where
  "times_current file \<longleftrightarrow> (\<forall>s \<in> set (file_times file). normalize_timestamp s = s)"

lemma exec_all_fixed:
  assumes "\<And>what st. (what, st) \<in> set sts \<Longrightarrow> st file = Inr file"
  shows "snd (snd (exec_all f n sts file)) = file"
  using assms
proof (induction f n sts "file" rule: exec_all.induct)
  case (2 f n what st sts "file")
  have "st file = Inr file" by (rule "2.prems" [of what]) simp
  with 2 show ?case by (auto split: option.split)
qed simp

lemma ensure_column_fixed:
  assumes "column \<in> set (columns file)"
  shows "snd (snd (ensure_column f table column columns add n file)) = file"
  using assms unfolding ensure_column_def
  by (auto split: option.splits sum.splits prod.splits if_splits dest!: scan_columns_found)

lemma and_then_fixed:
  "snd (snd r) = file \<Longrightarrow> (\<And>n. snd (snd (k n file)) = file) \<Longrightarrow> snd (snd (and_then r k)) = file"
  by (auto simp: and_then_def split: prod.split option.split)

lemma if_missing_same: "if_missing d t = t \<longleftrightarrow> t \<noteq> None"
  by (cases t) auto

lemma if_missing_not_None: "if_missing d t = None \<longleftrightarrow> False"
  by (cases t) auto

lemma add_name_same: "add_name x xs = xs \<longleftrightarrow> x \<in> set xs"
  by (simp add: add_name_def)

lemma add_names_same: "fold add_name names xs = xs \<longleftrightarrow> set names \<subseteq> set xs"
proof (induction names arbitrary: xs)
  case (Cons x names)
  have len: "length xs \<le> length (fold add_name names xs)" for names and xs :: "'a list"
  proof (induction names arbitrary: xs)
    case (Cons a names)
    then have "length (add_name a xs) \<le> length (fold add_name names (add_name a xs))" .
    then show ?case by (simp add: add_name_def [of a xs] split: if_splits)
  qed simp
  show ?case
  proof (cases "x \<in> set xs")
    case True
    then show ?thesis using Cons by (simp add: add_name_def)
  next
    case False
    then have "length xs < length (fold add_name names (add_name x xs))"
      using len [of "add_name x xs" names] by (simp add: add_name_def)
    then have "fold add_name (x # names) xs \<noteq> xs" by (metis fold_simps(2) nat_neq_iff)
    then show ?thesis using False by simp
  qed
qed simp

lemma schema_file_same:
  "schema_file file = file \<longleftrightarrow>
     sf_versions file \<noteq> None \<and> sf_events file \<noteq> None \<and> sf_deliveries file \<noteq> None \<and> sf_identities file \<noteq> None
     \<and> sf_preferences file \<noteq> None \<and> sf_pipeline_states file \<noteq> None \<and> sf_unresolved file \<noteq> None
     \<and> sf_interactions file \<noteq> None \<and> set index_names \<subseteq> set (sf_indexes file)"
  unfolding schema_file_def by (cases "file") (simp add: if_missing_same add_names_same del: fold_simps)

lemma schema_fixed:
  assumes "schema_file file = file" "st \<in> set schema_statements"
  shows "st file = Inr file"
  using assms unfolding schema_file_same schema_statements_def index_names_def
  by (auto simp: create_index_def add_name_def)

lemma ball_file_times:
  "(\<forall>s \<in> set (file_times file). P s) \<longleftrightarrow>
     (\<forall>r \<in> set (rows_of (sf_events file)). P (er_received_at r) \<and> pred_option P (er_occurred_at r) \<and> P (er_created_at r))
     \<and> (\<forall>r \<in> set (rows_of (map_option snd (sf_deliveries file))).
          P (dr_next_attempt_at r) \<and> pred_option P (dr_lease_until r) \<and> P (dr_created_at r)
          \<and> P (dr_updated_at r) \<and> pred_option P (dr_delivered_at r))
     \<and> (\<forall>r \<in> set (rows_of (sf_identities file)). P (ir_updated_at r))
     \<and> (\<forall>r \<in> set (rows_of (map_option snd (sf_preferences file))). P (pf_updated_at r))
     \<and> (\<forall>r \<in> set (rows_of (sf_pipeline_states file)). P (psr_updated_at r))
     \<and> (\<forall>r \<in> set (rows_of (sf_unresolved file)). P (un_first_seen r) \<and> P (un_last_seen r))
     \<and> (\<forall>r \<in> set (rows_of (sf_interactions file)). P (ix_created_at r) \<and> P (ix_updated_at r))"
proof -
  have opt: "(\<forall>s \<in> set (case x of None \<Rightarrow> [] | Some s \<Rightarrow> [s]). P s) \<longleftrightarrow> pred_option P x" for x :: "string option"
    by (cases x) auto
  show ?thesis
    unfolding file_times_def Let_def file_db_def
    by (simp only: set_append set_concat set_map ball_Un ball_UN ball_simps list.set opt db.simps) auto
qed

lemma map_table_same:
  "(\<And>r. r \<in> set (rows_of t) \<Longrightarrow> g r = r) \<Longrightarrow> map_option (map g) t = t"
  "(\<And>r. r \<in> set (rows_of (map_option snd u)) \<Longrightarrow> g r = r) \<Longrightarrow> map_option (apsnd (map g)) u = u"
  by (cases t; simp add: map_idI) (cases u; auto simp: apsnd_def map_idI)

lemma map_option_same: "pred_option (\<lambda>s. g s = s) x \<Longrightarrow> map_option g x = x"
  by (cases x) auto

lemma normalize_fixed:
  assumes "times_current file" "(name, g) \<in> set timestamp_columns"
  shows "g file = file"
  using assms unfolding times_current_def ball_file_times timestamp_columns_def Let_def
  by (auto simp: on_events_def on_deliveries_def on_identities_def on_preferences_def on_pipeline_states_def
      on_unresolved_def on_interactions_def map_table_same map_option_same)

lemma insert_version_same: "v \<in> fst ` set (the (sf_versions file)) \<Longrightarrow> insert_version v now file = Inr file"
  by (cases "sf_versions file") (simp_all add: insert_version_def)

lemma current_fixed:
  assumes "schema_current file" "versions_current file" "times_current file"
  shows "snd (open_store f clock path config file) = file"
proof -
  have c: "snd (snd (exec_all f n configure_statements file)) = file" for n
    by (rule exec_all_fixed) (auto simp: configure_statements_def)
  have s: "snd (snd (exec_all f n (map (Pair ''migrate SQLite'') schema_statements) file)) = file" for n
    using assms(1) by (intro exec_all_fixed) (auto simp: schema_current_def intro: schema_fixed)
  have t: "snd (snd (exec_all f n normalize_statements file)) = file" for n
    by (rule exec_all_fixed) (auto simp: normalize_statements_def normalize_fixed [OF assms(3)])
  have v: "snd (snd (exec_all f n (version_statements clock) file)) = file" for n
    using assms(2) unfolding versions_current_def
    by (intro exec_all_fixed) (auto simp: version_statements_def intro!: insert_version_same)
  have "snd (snd (migrate f clock n file)) = file" for n
    unfolding migrate_def using assms(1)
    by (intro and_then_fixed s t v ensure_column_fixed) (simp_all add: schema_current_def)
  then have "snd (snd (and_then (exec_all f 2 configure_statements file) (migrate f clock))) = file"
    by (intro and_then_fixed c)
  then show ?thesis
    by (auto simp: open_store_def split: option.split prod.split)
qed

text \<open>A time with one \<open>Z\<close> at most, at its end, is normalized once and for all.\<close>

lemma plain_time_split: "plain_time s \<Longrightarrow> s \<noteq> [] \<Longrightarrow> last s = CHR ''Z'' \<Longrightarrow> \<exists>p. s = p @ ''Z'' \<and> CHR ''Z'' \<notin> set p"
  by (metis append_butlast_last_id plain_time_def)

lemma normalize_idem:
  assumes "plain_time s"
  shows "normalize_timestamp (normalize_timestamp s) = normalize_timestamp s"
proof (cases "s \<noteq> [] \<and> last s = CHR ''Z''")
  case True
  then obtain u where u: "s = u @ ''Z''" "CHR ''Z'' \<notin> set u" using plain_time_split [OF assms] by blast
  show ?thesis
  proof (cases "CHR ''.'' \<in> set u")
    case False
    then have "normalize_timestamp s = u @ CHR ''.'' # ''000'' @ ''Z''" using normalize_plain [OF False] u by simp
    then show ?thesis using normalize_fraction [OF False, of "''000''"] u by simp
  next
    case True
    then obtain p q where pq: "u = p @ CHR ''.'' # q" "CHR ''.'' \<notin> set p" using split_list_first by metis
    let ?f = "take 3 (q @ ''000'')"
    have Z: "CHR ''Z'' \<notin> set p" "CHR ''Z'' \<notin> set q" using u pq by auto
    then have f: "CHR ''Z'' \<notin> set ?f" using set_take_subset [of 3 "q @ ''000''"] by auto
    have n: "normalize_timestamp s = p @ CHR ''.'' # ?f @ ''Z''"
      using normalize_fraction [OF pq(2) Z(2,1)] u pq by simp
    have "length ?f = min (length q + 3) 3" by (simp only: length_take length_append) simp
    then have "length ?f = 3" by simp
    then have "take 3 (?f @ ''000'') = ?f" using append_eq_conv_conj [of ?f "''000''" "?f @ ''000''"] by simp
    then show ?thesis unfolding n using normalize_fraction [OF pq(2) f Z(1)] by simp
  qed
qed (auto simp: normalize_timestamp_def)

lemma ball_times_opened:
  assumes "open_store f clock path config file = (Inr c, file1)"
  shows "(\<forall>s \<in> set (file_times file1). P s) \<longleftrightarrow> (\<forall>s \<in> set (file_times file). P (normalize_timestamp s))"
proof -
  have opt: "pred_option P (map_option g x) \<longleftrightarrow> pred_option (\<lambda>s. P (g s)) x" for g x by (cases x) auto
  have "file_times file1 = file_times file1" ..
  have rows: "rows_of (sf_events x) = db_events (file_db x)" "rows_of (map_option snd (sf_deliveries x)) = db_deliveries (file_db x)"
    "rows_of (sf_identities x) = db_identities (file_db x)" "rows_of (map_option snd (sf_preferences x)) = db_preferences (file_db x)"
    "rows_of (sf_pipeline_states x) = db_pipeline_states (file_db x)" "rows_of (sf_unresolved x) = db_unresolved (file_db x)"
    "rows_of (sf_interactions x) = db_interactions (file_db x)" for x
    by (simp_all add: file_db_def)
  show ?thesis
    unfolding ball_file_times rows opened_rows [OF assms] migrated_db_def Let_def
    by (simp add: migrated_event_def migrated_delivery_def opt cong: if_cong)
qed

lemma versions_after: "v \<in> fst ` set (fold (\<lambda>v vs. if v \<in> fst ` set vs then vs else vs @ [(v, g v)]) ks vs)
    \<longleftrightarrow> v \<in> fst ` set vs \<or> v \<in> set ks"
proof (induction ks arbitrary: vs)
  case (Cons k ks)
  show ?case unfolding fold_simps Cons by auto
qed simp

lemma columns_of_added [simp]:
  "columns_of (map_option (\<lambda>(names, rows). (names @ [x], g rows)) t) = (case t of None \<Rightarrow> [] | Some u \<Rightarrow> columns_of t @ [x])"
  by (cases t) auto

lemma opened_schema:
  assumes "open_store f clock path config file = (Inr c, file1)"
  shows "schema_current file1" "versions_current file1"
proof -
  obtain file2 file3 where
    2: "file2 = (if ''retryable'' \<in> set (columns_of (sf_deliveries (schema_file file))) then schema_file file
              else add_retryable (schema_file file))"
    and 3: "file3 = (if ''muted_until'' \<in> set (columns_of (sf_preferences file2)) then file2 else add_muted_until file2)"
    and 1: "file1 = versioned_file clock (normalized_file file3)"
    by (rule open_store_done [OF assms])
  have s: "schema_file (schema_file file) = schema_file file"
    unfolding schema_file_same by (simp add: schema_file_def index_names_def if_missing_not_None del: not_None_eq)
  then have s3: "schema_file file3 = file3"
    unfolding 3 2 by (auto simp: schema_file_same add_retryable_def add_muted_until_def)
  have "''retryable'' \<in> set (columns_of (sf_deliveries file3))" "''muted_until'' \<in> set (columns_of (sf_preferences file3))"
    unfolding 3 2 using s by (auto simp: schema_file_same add_retryable_def add_muted_until_def split: option.split)
  then show "schema_current file1"
    using s3 unfolding schema_current_def schema_file_same 1 by (auto simp: versioned_file_def normalized_file_def Let_def)
  obtain vs where "sf_versions file3 = Some vs" using s3 by (auto simp: schema_file_same)
  then show "versions_current file1"
    unfolding versions_current_def 1 versioned_file_def normalized_file_def Let_def by (auto simp: versions_after)
qed

text \<open>C34: opening a database migrates it: after a success the settings are usable ones, the tables hold
  the rows they held, with only the times rewritten and the two later columns filled in, and the
  identities are unique as the store needs them. And it does so once: if no time of the old file
  has a \<open>Z\<close> but at its end, opening the result again, with whatever settings, clock and faults,
  changes nothing.
\<close>

theorem opening_migrates_once:
  assumes "open_store f clock path config file = (Inr c, file1)"
  shows "config_ok c \<and> file_db file1 = migrated_db file
    \<and> (indexes_hold file \<longrightarrow> unique_identities (db_identities (file_db file1)))
    \<and> (list_all plain_time (file_times file) \<longrightarrow> snd (open_store f' clock' path' config' file1) = file1)"
proof (intro conjI impI)
  show "config_ok c" using open_store_done [OF assms] by (metis config_ok_open)
  show "file_db file1 = migrated_db file" by (rule opened_rows [OF assms])
  show "unique_identities (db_identities (file_db file1))" if "indexes_hold file"
    by (rule opened_unique [OF assms that])
  show "snd (open_store f' clock' path' config' file1) = file1" if "list_all plain_time (file_times file)"
  proof (rule current_fixed [OF opened_schema [OF assms]])
    show "times_current file1"
      unfolding times_current_def ball_times_opened [OF assms] using that by (auto simp: list_all_iff normalize_idem)
  qed
qed

text \<open>It succeeds if nothing fails and the identities are unique.\<close>

lemma exec_all_ok:
  "\<forall>n. f n = None \<Longrightarrow> run_all (map snd sts) file = Inr file1 \<Longrightarrow> \<exists>m. exec_all f n sts file = (None, m, file1)"
  by (induction f n sts "file" rule: exec_all.induct) (auto split: sum.splits)

lemma scan_columns_ok: "\<forall>n. f n = None \<Longrightarrow> \<exists>m. scan_columns f n table column names = Inr (column \<in> set names, m)"
  by (induction f n table column names rule: scan_columns.induct) auto

lemma ensure_column_ok:
  assumes "\<forall>n. f n = None"
  shows "\<exists>m file1. ensure_column f table column columns add n file = (None, m, file1)"
proof -
  obtain m where "scan_columns f (Suc n) table column (columns file) = Inr (column \<in> set (columns file), m)"
    using scan_columns_ok [OF assms] by blast
  then show ?thesis using assms by (auto simp: ensure_column_def)
qed

lemma schema_ok:
  assumes "unique_identities (rows_of (sf_identities file))"
  shows "run_all schema_statements file = Inr (schema_file file)"
  using assms
  by (simp add: schema_statements_def run_all_Cons_done create_index_done schema_file_def index_names_def
      unique_identities_def del: run_all.simps(2))

lemma opening_succeeds:
  assumes "\<forall>n. f n = None" "path \<noteq> []" "unique_identities (rows_of (sf_identities file))"
  shows "\<exists>file1. open_store f clock path config file = (Inr (open_config config), file1)"
proof -
  obtain n1 where 1: "exec_all f 2 configure_statements file = (None, n1, file)"
    using exec_all_ok [OF assms(1) configure_done] by blast
  have "run_all (map snd (map (Pair ''migrate SQLite'') schema_statements)) file = Inr (schema_file file)"
    using schema_ok [OF assms(3)] by (simp add: comp_def)
  then obtain n2 where 2: "exec_all f n1 (map (Pair ''migrate SQLite'') schema_statements) file = (None, n2, schema_file file)"
    using exec_all_ok [OF assms(1)] by blast
  obtain n3 f3 where 3: "ensure_column f ''deliveries'' ''retryable'' (\<lambda>file. columns_of (sf_deliveries file)) add_retryable n2
      (schema_file file) = (None, n3, f3)"
    using ensure_column_ok [OF assms(1)] by blast
  obtain n4 f4 where 4: "ensure_column f ''notification_preferences'' ''muted_until'' (\<lambda>file. columns_of (sf_preferences file))
      add_muted_until n3 f3 = (None, n4, f4)"
    using ensure_column_ok [OF assms(1)] by blast
  obtain n5 where 5: "exec_all f n4 normalize_statements f4 = (None, n5, normalized_file f4)"
    using exec_all_ok [OF assms(1)] unfolding normalized_done [symmetric] by (metis normalize_statements_eq run_all_total)
  obtain n6 f6 where 6: "exec_all f n5 (version_statements clock) (normalized_file f4) = (None, n6, f6)"
    using exec_all_ok [OF assms(1) versions_done] by blast
  have "and_then (exec_all f 2 configure_statements file) (migrate f clock) = (None, n6, f6)"
    by (simp only: 1 2 3 4 5 6 and_then_def migrate_def prod.case option.case)
  then show ?thesis using assms(1,2) by (simp add: open_store_def)
qed

definition old_file :: store_file where
  "old_file = no_file\<lparr>sf_preferences := Some ([''email'', ''enabled'', ''updated_at''],
     [\<lparr>pf_email = ''dev@example.com'', pf_enabled = True, pf_ci_failed = True, pf_ci_recovered = True, pf_mr_review_requested = True,
       pf_mr_assigned = True, pf_mr_updated = True, pf_mr_approved = True, pf_mr_state_changed = True, pf_mr_comment = True,
       pf_mention = True, pf_issue_assigned = True, pf_issue_updated = False, pf_project_include = [], pf_project_exclude = [],
       pf_muted_until = ''none'', pf_updated_at = ''2024-05-01T10:00:00.5Z''\<rparr>])\<rparr>"

theorem opening_migrates_once_witness:
  "(let file1 = snd (open_store no_fault (\<lambda>_. 0) '':memory:'' default_config old_file);
        file2 = snd (open_store (\<lambda>n. Some NoRows) (\<lambda>_. 1) ''crowsnest.db'' default_config file1)
    in map pf_updated_at (db_preferences (file_db file1)) = [''2024-05-01T10:00:00.500Z''] \<and> file2 = file1)"
proof -
  have "unique_identities (rows_of (sf_identities old_file))" by (simp add: old_file_def no_file_def unique_identities_def unique_on_def)
  then obtain file1 where o: "open_store no_fault (\<lambda>_. 0) '':memory:'' default_config old_file = (Inr (open_config default_config), file1)"
    using opening_succeeds [of no_fault "'':memory:''" old_file] by (auto simp: no_fault_def)
  note m = opening_migrates_once [OF o, of "\<lambda>n. Some NoRows" "\<lambda>_. 1" "''crowsnest.db''" default_config]
  have "list_all plain_time (file_times old_file)" by code_simp
  moreover have "map pf_updated_at (db_preferences (migrated_db old_file)) = [''2024-05-01T10:00:00.500Z'']" by code_simp
  ultimately show ?thesis using m o by simp
qed

end
