(* ===== verification/Worker.thy ===== *)
theory Worker
  imports Outbox
begin

section \<open>The delivery worker\<close>

text \<open>
  application/worker.go. The worker works against two interfaces of ports: the outbox, here the
  functions of a record on a state of any type, and the messenger, a function of the number of
  the send and the notification. \<open>store n\<close> is the outbox at the n-th call of a pass, so that
  every call may read its own instant and meet its own fault; a send that fails gives the text
  of the error and the failure that \<open>errors.As\<close> finds in it, if any. What a pass sends is
  part of its result. The locale \<open>delivery_outbox\<close> states what the worker relies on; its
  lemmas hold for any such outbox, and the interpretation \<open>sqlite_worker\<close> shows them for
  SQLite.
\<close>

record worker_config =
  wk_worker_id :: string
  wk_batch_size :: int
  wk_poll_interval :: duration
  wk_policy :: "recipient_policy option"

record 's outbox_store =
  ob_claim :: "string \<Rightarrow> int \<Rightarrow> 's \<Rightarrow> delivery list res \<times> 's"
  ob_mark_delivered :: "string \<Rightarrow> delivery_receipt \<Rightarrow> 's \<Rightarrow> go_error option \<times> 's"
  ob_mark_failed :: "string \<Rightarrow> delivery_failure \<Rightarrow> 's \<Rightarrow> go_error option \<times> 's"

record send_error =
  se_text :: string
  se_failure :: "delivery_failure option"

type_synonym messenger = "nat \<Rightarrow> notification \<Rightarrow> send_error + delivery_receipt"

type_synonym sending = "delivery \<times> (send_error + delivery_receipt)"

definition new_delivery_worker :: "worker_config \<Rightarrow> worker_config" where
  "new_delivery_worker c =
     \<lparr>wk_worker_id = (if wk_worker_id c = [] then ''crowsnest-delivery'' else wk_worker_id c),
      wk_batch_size = (if wk_batch_size c \<le> 0 then 10 else wk_batch_size c),
      wk_poll_interval = (if wk_poll_interval c \<le> 0 then 2 * second else wk_poll_interval c),
      wk_policy = (case wk_policy c of None \<Rightarrow> Some (new_recipient_policy []) | Some p \<Rightarrow> Some p)\<rparr>"

subsection \<open>One pass\<close>

definition policy_blocked :: delivery_failure where
  "policy_blocked = \<lparr>f_class = ''policy_blocked'', f_retryable = False,
     f_message = ''recipient is outside the configured allowlist''\<rparr>"

definition failure_of :: "send_error \<Rightarrow> delivery_failure" where
  "failure_of e =
     (case se_failure e of
        Some failure \<Rightarrow> failure
      | None \<Rightarrow> \<lparr>f_class = ''unknown'', f_retryable = True, f_message = se_text e\<rparr>)"

definition marked :: "string \<Rightarrow> string \<Rightarrow> string \<Rightarrow> go_error option \<Rightarrow> go_error option" where
  "marked before key after e = map_option (Wrap (before @ key @ after)) e"

fun process_loop ::
  "(nat \<Rightarrow> 's outbox_store) \<Rightarrow> messenger \<Rightarrow> recipient_policy option \<Rightarrow> nat \<Rightarrow> delivery list \<Rightarrow> 's
     \<Rightarrow> go_error option \<times> sending list \<times> 's" where
  "process_loop store send policy n [] s = (None, [], s)"
| "process_loop store send policy n (d # ds) s =
     (let key = d_key d in
      if \<not> allows policy (n_recipient (d_notification d)) then
        (case ob_mark_failed (store n) key policy_blocked s of
           (Some e, s') \<Rightarrow> (Some (Wrap (''mark blocked delivery '' @ key @ '' failed'') e), [], s')
         | (None, s') \<Rightarrow> process_loop store send policy (Suc n) ds s')
      else
        let result = send n (d_notification d) in
        case (case result of
            Inr receipt \<Rightarrow> apfst (marked ''mark delivery '' key '' delivered'') (ob_mark_delivered (store n) key receipt s)
          | Inl e \<Rightarrow> apfst (marked ''mark delivery '' key '' failed'') (ob_mark_failed (store n) key (failure_of e) s)) of
          (Some e, s') \<Rightarrow> (Some e, [(d, result)], s')
        | (None, s') \<Rightarrow>
          (case process_loop store send policy (Suc n) ds s' of
             (e, sent, s'') \<Rightarrow> (e, (d, result) # sent, s'')))"

definition process ::
  "(nat \<Rightarrow> 's outbox_store) \<Rightarrow> messenger \<Rightarrow> worker_config \<Rightarrow> 's \<Rightarrow> go_error option \<times> sending list \<times> 's" where
  "process store send c s =
     (case ob_claim (store 0) (wk_worker_id c) (wk_batch_size c) s of
        (Inl e, s') \<Rightarrow> (Some e, [], s')
      | (Inr ds, s') \<Rightarrow> process_loop store send (wk_policy c) 1 ds s')"

subsection \<open>Run\<close>

text \<open>
  \<open>Run\<close> makes one pass and then one for every tick until the context is done; an error of a
  pass is only logged. The model takes the number of ticks before the cancellation.
\<close>

fun passes ::
  "(nat \<Rightarrow> nat \<Rightarrow> 's outbox_store) \<Rightarrow> (nat \<Rightarrow> messenger) \<Rightarrow> worker_config \<Rightarrow> nat \<Rightarrow> nat \<Rightarrow> 's \<Rightarrow> sending list \<times> 's" where
  "passes store send c p 0 s = ([], s)"
| "passes store send c p (Suc n) s =
     (let (e, sent, s1) = process (store p) (send p) c s;
          (sent', s2) = passes store send c (Suc p) n s1
      in (sent @ sent', s2))"

definition run_worker ::
  "(nat \<Rightarrow> nat \<Rightarrow> 's outbox_store) option \<Rightarrow> (nat \<Rightarrow> messenger) option \<Rightarrow> worker_config \<Rightarrow> nat \<Rightarrow> 's
     \<Rightarrow> go_error \<times> sending list \<times> 's" where
  "run_worker store send c ticks s =
     (case (store, send) of
        (Some st, Some m) \<Rightarrow> (Canceled, passes st m c 0 (Suc ticks) s)
      | _ \<Rightarrow> (Msg ''delivery worker dependencies are missing'', [], s))"

text \<open>\<open>DryRunMessenger.Send\<close> logs and succeeds.\<close>

definition dry_run_send :: messenger where
  "dry_run_send n notification = Inr \<lparr>rc_provider_message_id = ''dry-run''\<rparr>"

subsection \<open>What the worker relies on\<close>

definition sent_keys :: "sending list \<Rightarrow> string list" where
  "sent_keys sent = map (d_key \<circ> fst) sent"

lemma sent_keys_simps [simp]:
  "sent_keys [] = []" "sent_keys (x # sent) = d_key (fst x) # sent_keys sent"
  "sent_keys (xs @ ys) = sent_keys xs @ sent_keys ys"
  by (simp_all add: sent_keys_def)

lemma subseq_set: "subseq xs ys \<Longrightarrow> set xs \<subseteq> set ys"
  by (induction rule: list_emb.induct) auto

lemma subseq_distinct: "subseq xs ys \<Longrightarrow> distinct ys \<Longrightarrow> distinct xs"
proof (induction rule: list_emb.induct)
  case (list_emb_Cons2 x y xs ys)
  then show ?case using subseq_set by auto
qed auto

locale delivery_outbox =
  fixes store :: "nat \<Rightarrow> 's outbox_store" and inv :: "'s \<Rightarrow> bool" and delivered :: "'s \<Rightarrow> string set"
    and attempts :: "'s \<Rightarrow> string \<Rightarrow> int"
  assumes claim_ok: "inv s \<Longrightarrow> ob_claim (store n) w limit s = (Inr ds, s') \<Longrightarrow>
      inv s' \<and> distinct (map d_key ds) \<and> set (map d_key ds) \<inter> delivered s = {} \<and> delivered s' = delivered s
      \<and> (\<forall>k. attempts s' k = attempts s k + (if k \<in> set (map d_key ds) then 1 else 0))"
    and claim_error: "ob_claim (store n) w limit s = (Inl err, s') \<Longrightarrow> s' = s"
    and delivered_ok: "inv s \<Longrightarrow> ob_mark_delivered (store n) k receipt s = (e, s') \<Longrightarrow>
      inv s' \<and> attempts s' = attempts s \<and> delivered s \<subseteq> delivered s' \<and> delivered s' \<subseteq> insert k (delivered s)
      \<and> (e = None \<longrightarrow> k \<in> delivered s')"
    and failed_ok: "inv s \<Longrightarrow> ob_mark_failed (store n) k failure s = (e, s') \<Longrightarrow>
      inv s' \<and> attempts s' = attempts s \<and> delivered s - {k} \<subseteq> delivered s' \<and> delivered s' \<subseteq> delivered s"
begin

lemma loop_ok:
  assumes "process_loop store send policy n ds s = (e, sent, s')" "inv s" "distinct (map d_key ds)"
    "set (map d_key ds) \<inter> delivered s = {}"
  shows "inv s'" "attempts s' = attempts s" "delivered s \<subseteq> delivered s'" "subseq (map fst sent) ds"
    "\<forall>x \<in> set sent. allows policy (n_recipient (d_notification (fst x)))"
    "delivered s' \<subseteq> delivered s \<union> set (sent_keys (filter (\<lambda>x. \<not> isl (snd x)) sent))"
    "e = None \<Longrightarrow> set (sent_keys (filter (\<lambda>x. \<not> isl (snd x)) sent)) \<subseteq> delivered s'
      \<and> map fst sent = filter (\<lambda>d. allows policy (n_recipient (d_notification d))) ds"
proof -
  let ?ok = "\<lambda>ds s e sent s'. inv s' \<and> attempts s' = attempts s \<and> delivered s \<subseteq> delivered s' \<and> subseq (map fst sent) ds
    \<and> (\<forall>x \<in> set sent. allows policy (n_recipient (d_notification (fst x))))
    \<and> delivered s' \<subseteq> delivered s \<union> set (sent_keys (filter (\<lambda>x. \<not> isl (snd x)) sent))
    \<and> (e = None \<longrightarrow> set (sent_keys (filter (\<lambda>x. \<not> isl (snd x)) sent)) \<subseteq> delivered s'
      \<and> map fst sent = filter (\<lambda>d. allows policy (n_recipient (d_notification d))) ds)"
  from assms have "?ok ds s e sent s'"
  proof (induction ds arbitrary: n s e sent s')
    case (Cons d ds)
    let ?a = "allows policy (n_recipient (d_notification d))"
    have k: "d_key d \<notin> delivered s" using Cons.prems(4) by simp
    define result where "result = send n (d_notification d)"
    obtain e1 s1 where step: "(if \<not> ?a then ob_mark_failed (store n) (d_key d) policy_blocked s
        else case result of Inr receipt \<Rightarrow> ob_mark_delivered (store n) (d_key d) receipt s
          | Inl err \<Rightarrow> ob_mark_failed (store n) (d_key d) (failure_of err) s) = (e1, s1)" by fastforce
    have s1: "inv s1" "attempts s1 = attempts s" "delivered s \<subseteq> delivered s1"
      "delivered s1 \<subseteq> delivered s \<union> (if ?a \<and> \<not> isl result then {d_key d} else {})"
      "e1 = None \<Longrightarrow> ?a \<and> \<not> isl result \<Longrightarrow> d_key d \<in> delivered s1"
      using step failed_ok [OF Cons.prems(2), of n "d_key d"] delivered_ok [OF Cons.prems(2), of n "d_key d"] k
      by (auto split: if_splits sum.splits)
    show ?case
    proof (cases e1)
      case (Some err)
      have "(\<exists>err. e = Some err) \<and> s' = s1 \<and> sent = (if ?a then [(d, result)] else [])"
        using Cons.prems(1) step Some
        by (auto simp: Let_def marked_def result_def [symmetric] split: if_splits sum.splits)
      then show ?thesis using s1 by (auto split: if_splits)
    next
      case None
      obtain e2 sent2 s2 where rest: "process_loop store send policy (Suc n) ds s1 = (e2, sent2, s2)"
        using prod_cases3 by blast
      have eq: "e = e2 \<and> s' = s2 \<and> sent = (if ?a then (d, result) # sent2 else sent2)"
        using Cons.prems(1) step None rest
        by (auto simp: Let_def marked_def result_def [symmetric] split: if_splits sum.splits)
      have "d_key d \<notin> set (map d_key ds)" "set (map d_key ds) \<inter> delivered s = {}"
        using Cons.prems(3,4) by auto
      moreover have "delivered s1 \<subseteq> insert (d_key d) (delivered s)" using s1(4) by (auto split: if_splits)
      ultimately have "set (map d_key ds) \<inter> delivered s1 = {}" by blast
      with Cons.IH [OF rest s1(1)] Cons.prems(3)
      have r: "?ok ds s1 e2 sent2 s2" by simp
      then show ?thesis
        using eq s1 None by (auto split: if_splits)
    qed
  qed simp
  then show "inv s'" "attempts s' = attempts s" "delivered s \<subseteq> delivered s'" "subseq (map fst sent) ds"
    "\<forall>x \<in> set sent. allows policy (n_recipient (d_notification (fst x)))"
    "delivered s' \<subseteq> delivered s \<union> set (sent_keys (filter (\<lambda>x. \<not> isl (snd x)) sent))"
    "e = None \<Longrightarrow> set (sent_keys (filter (\<lambda>x. \<not> isl (snd x)) sent)) \<subseteq> delivered s'
      \<and> map fst sent = filter (\<lambda>d. allows policy (n_recipient (d_notification d))) ds"
    by blast+
qed

lemma pass_ok:
  assumes "process store send c s = (e, sent, s')" "inv s"
  shows "inv s'" "delivered s \<subseteq> delivered s'" "distinct (sent_keys sent)" "set (sent_keys sent) \<inter> delivered s = {}"
    "attempts s k + (if k \<in> set (sent_keys sent) then 1 else 0) \<le> attempts s' k"
    "\<forall>x \<in> set sent. allows (wk_policy c) (n_recipient (d_notification (fst x)))"
    "e = None \<Longrightarrow> set (sent_keys (filter (\<lambda>x. \<not> isl (snd x)) sent)) \<subseteq> delivered s'"
proof -
  obtain r s1 where cl: "ob_claim (store 0) (wk_worker_id c) (wk_batch_size c) s = (r, s1)" by fastforce
  have "inv s' \<and> delivered s \<subseteq> delivered s' \<and> distinct (sent_keys sent) \<and> set (sent_keys sent) \<inter> delivered s = {}
    \<and> attempts s k + (if k \<in> set (sent_keys sent) then 1 else 0) \<le> attempts s' k
    \<and> (\<forall>x \<in> set sent. allows (wk_policy c) (n_recipient (d_notification (fst x))))
    \<and> (e = None \<longrightarrow> set (sent_keys (filter (\<lambda>x. \<not> isl (snd x)) sent)) \<subseteq> delivered s')"
  proof (cases r)
    case (Inl err)
    with assms cl claim_error [OF cl [unfolded Inl]] show ?thesis by (simp add: process_def)
  next
    case (Inr ds)
    note ok = claim_ok [OF assms(2) cl [unfolded Inr]]
    have l: "process_loop store send (wk_policy c) 1 ds s1 = (e, sent, s')"
      using assms(1) cl Inr by (simp add: process_def)
    have d: "distinct (map d_key ds)" "set (map d_key ds) \<inter> delivered s1 = {}" "inv s1" using ok by auto
    note lo = loop_ok [OF l d(3,1,2)]
    have sub: "subseq (sent_keys sent) (map d_key ds)"
      using subseq_map [OF lo(4), of d_key] by (simp add: sent_keys_def)
    then have "set (sent_keys sent) \<subseteq> set (map d_key ds)" by (rule subseq_set)
    then show ?thesis
      using ok lo subseq_distinct [OF sub d(1)] by auto
  qed
  then show "inv s'" "delivered s \<subseteq> delivered s'" "distinct (sent_keys sent)" "set (sent_keys sent) \<inter> delivered s = {}"
    "attempts s k + (if k \<in> set (sent_keys sent) then 1 else 0) \<le> attempts s' k"
    "\<forall>x \<in> set sent. allows (wk_policy c) (n_recipient (d_notification (fst x)))"
    "e = None \<Longrightarrow> set (sent_keys (filter (\<lambda>x. \<not> isl (snd x)) sent)) \<subseteq> delivered s'"
    by blast+
qed

end

text \<open>The same outbox in every pass, each call at its own instant and with its own fault.\<close>

locale delivery_outbox_runs =
  fixes store :: "nat \<Rightarrow> nat \<Rightarrow> 's outbox_store" and inv :: "'s \<Rightarrow> bool" and delivered :: "'s \<Rightarrow> string set"
    and attempts :: "'s \<Rightarrow> string \<Rightarrow> int"
  assumes each_pass: "delivery_outbox (store p) inv delivered attempts"

sublocale delivery_outbox_runs \<subseteq> pass: delivery_outbox "store p" inv delivered attempts for p
  by (rule each_pass)

lemma count_list_distinct: "distinct xs \<Longrightarrow> count_list xs x = (if x \<in> set xs then 1 else 0)"
  by (induction xs) auto

context delivery_outbox_runs
begin

lemma passes_ok:
  assumes "passes store send c p n s = (sent, s')" "inv s"
  shows "inv s' \<and> delivered s \<subseteq> delivered s' \<and> set (sent_keys sent) \<inter> delivered s = {}
    \<and> attempts s k + int (count_list (sent_keys sent) k) \<le> attempts s' k
    \<and> (\<forall>x \<in> set sent. allows (wk_policy c) (n_recipient (d_notification (fst x))))"
  using assms
proof (induction n arbitrary: p s sent s')
  case (Suc n)
  obtain e sent1 s1 where one: "process (store p) (send p) c s = (e, sent1, s1)" using prod_cases3 by blast
  obtain sent2 s2 where rest: "passes store send c (Suc p) n s1 = (sent2, s2)" by fastforce
  have eq: "sent = sent1 @ sent2" "s' = s2" using Suc.prems(1) one rest by auto
  note po = pass.pass_ok [OF one Suc.prems(2)]
  have "count_list (sent_keys sent1) k = (if k \<in> set (sent_keys sent1) then 1 else 0)"
    using po(3) by (simp add: count_list_distinct)
  moreover note po(5) [of k]
  moreover note ih = Suc.IH [OF rest po(1)]
  ultimately have "attempts s k + int (count_list (sent_keys sent) k) \<le> attempts s' k"
    unfolding eq by (auto split: if_splits)
  then show ?case using ih po(2,4,6) unfolding eq by auto
qed simp

end

subsection \<open>The worker on the SQLite store\<close>

definition sqlite_outbox :: "store_config \<Rightarrow> (nat \<Rightarrow> fault) \<Rightarrow> (nat \<Rightarrow> time) \<Rightarrow> nat \<Rightarrow> db outbox_store" where
  "sqlite_outbox c f clock n =
     \<lparr>ob_claim = claim c (f n) (clock n), ob_mark_delivered = mark_delivered (f n) (clock n),
      ob_mark_failed = mark_failed c (f n) (clock n)\<rparr>"

lemma sqlite_outbox_simps [simp]:
  "ob_claim (sqlite_outbox c f clock n) = claim c (f n) (clock n)"
  "ob_mark_delivered (sqlite_outbox c f clock n) = mark_delivered (f n) (clock n)"
  "ob_mark_failed (sqlite_outbox c f clock n) = mark_failed c (f n) (clock n)"
  by (simp_all add: sqlite_outbox_def)

definition delivered_keys :: "db \<Rightarrow> string set" where
  "delivered_keys db = {k. \<exists>r. delivery_at db k = Some r \<and> dr_status r = Delivered}"

definition attempts_of :: "db \<Rightarrow> string \<Rightarrow> int" where
  "attempts_of db k = (case delivery_at db k of None \<Rightarrow> 0 | Some r \<Rightarrow> dr_attempts r)"

lemma attempts_bounded: "outbox_inv c db \<Longrightarrow> attempts_of db k \<le> cfg_max_attempts c"
  using delivery_at_ok [of c db k]
  by (auto simp: attempts_of_def row_ok_def outbox_inv_def config_ok_def split: option.split)

lemma not_ready_delivered: "ready c now r \<Longrightarrow> dr_status r \<noteq> Delivered"
  by (auto simp: ready_def)

interpretation sqlite_worker: delivery_outbox "sqlite_outbox c f clock" "outbox_inv c" delivered_keys attempts_of
  for c f clock
proof unfold_locales
  fix s n w limit ds s'
  assume inv: "outbox_inv c s" and "ob_claim (sqlite_outbox c f clock n) w limit s = (Inr ds, s')"
  then have cl: "claim c (f n) (clock n) w limit s = (Inr ds, s')" by simp
  note at = claim_delivery_at [OF inv cl]
  have was: "\<exists>r. delivery_at s k = Some r \<and> ready c (format_timestamp (clock n)) r" if "k \<in> d_key ` set ds" for k
    using claim_was_ready [OF inv cl that] by blast
  have "k \<notin> delivered_keys s" if "k \<in> d_key ` set ds" for k
    using was [OF that] not_ready_delivered by (auto simp: delivered_keys_def)
  then have "set (map d_key ds) \<inter> delivered_keys s = {}" by auto
  moreover have "delivered_keys s' = delivered_keys s"
  proof (rule set_eqI)
    fix k show "k \<in> delivered_keys s' \<longleftrightarrow> k \<in> delivered_keys s"
    proof (cases "k \<in> d_key ` set ds")
      case True
      from was [OF this] obtain r where r: "delivery_at s k = Some r" "ready c (format_timestamp (clock n)) r" by blast
      with True not_ready_delivered [OF r(2)] show ?thesis by (simp add: delivered_keys_def at)
    qed (simp add: delivered_keys_def at)
  qed
  moreover have "attempts_of s' k = attempts_of s k + (if k \<in> set (map d_key ds) then 1 else 0)" for k
    using was [of k] by (auto simp: attempts_of_def at split: option.split)
  ultimately show "outbox_inv c s' \<and> distinct (map d_key ds) \<and> set (map d_key ds) \<inter> delivered_keys s = {}
      \<and> delivered_keys s' = delivered_keys s
      \<and> (\<forall>k. attempts_of s' k = attempts_of s k + (if k \<in> set (map d_key ds) then 1 else 0))"
    using claim_inv [OF inv cl] claim_distinct [OF inv cl] by blast
next
  fix n w limit s err s'
  assume "ob_claim (sqlite_outbox c f clock n) w limit s = (Inl err, s')"
  then have "claim c (f n) (clock n) w limit s = (Inl err, s')" by simp
  then show "s' = s" by (cases rule: claim_cases) auto
next
  fix s n k receipt e s'
  assume inv: "outbox_inv c s" and "ob_mark_delivered (sqlite_outbox c f clock n) k receipt s = (e, s')"
  then have m: "mark_delivered (f n) (clock n) k receipt s = (e, s')" by simp
  show "outbox_inv c s' \<and> attempts_of s' = attempts_of s \<and> delivered_keys s \<subseteq> delivered_keys s'
      \<and> delivered_keys s' \<subseteq> insert k (delivered_keys s) \<and> (e = None \<longrightarrow> k \<in> delivered_keys s')"
  proof (cases e)
    case None
    have "k \<in> dr_key ` set (db_deliveries s)" using m by (cases rule: mark_delivered_cases) (use None in auto)
    then obtain r where "delivery_at s k = Some r"
      using find_key_None [of k] by (auto simp: delivery_at_def)
    then show ?thesis
      using mark_delivered_at [OF m [unfolded None]] mark_delivered_inv [OF inv m]
      by (auto simp: attempts_of_def delivered_keys_def fun_eq_iff split: option.split if_splits)
  next
    case (Some err)
    with m have "s' = s" by (cases rule: mark_delivered_cases) auto
    with inv Some show ?thesis by auto
  qed
next
  fix s n k failure e s'
  assume inv: "outbox_inv c s" and "ob_mark_failed (sqlite_outbox c f clock n) k failure s = (e, s')"
  then have m: "mark_failed c (f n) (clock n) k failure s = (e, s')" by simp
  show "outbox_inv c s' \<and> attempts_of s' = attempts_of s \<and> delivered_keys s - {k} \<subseteq> delivered_keys s'
      \<and> delivered_keys s' \<subseteq> delivered_keys s"
  proof (cases e)
    case None
    from m [unfolded None] obtain row where "delivery_at s k = Some row"
      "\<forall>k'. delivery_at s' k' = (if k' = k then Some (failed_row c (clock n) failure (dr_attempts row) row)
        else delivery_at s k')" by (rule mark_failed_at)
    then show ?thesis
      using mark_failed_inv [OF inv m]
      by (auto simp: attempts_of_def delivered_keys_def fun_eq_iff failed_row_def Let_def split: option.split if_splits)
  next
    case (Some err)
    with m have "s' = s" by (cases rule: mark_failed_cases) auto
    with inv Some show ?thesis by auto
  qed
qed

interpretation sqlite_runs: delivery_outbox_runs "\<lambda>p. sqlite_outbox c (f p) (clock p)" "outbox_inv c" delivered_keys attempts_of
  for c f clock
  by unfold_locales

subsection \<open>What becomes of a claimed delivery\<close>

definition settled ::
  "store_config \<Rightarrow> recipient_policy option \<Rightarrow> sending list \<Rightarrow> delivery \<Rightarrow> delivery_row \<Rightarrow> delivery_row \<Rightarrow> bool" where
  "settled c policy sent d row row' \<longleftrightarrow>
     (\<exists>t. if \<not> allows policy (n_recipient (d_notification d))
          then row' = failed_row c t policy_blocked (dr_attempts row) row
          else (\<exists>receipt. (d, Inr receipt) \<in> set sent \<and> row' = delivered_row t receipt row)
             \<or> (\<exists>err. (d, Inl err) \<in> set sent \<and> row' = failed_row c t (failure_of err) (dr_attempts row) row))"

lemma settled_mono: "settled c policy sent d row row' \<Longrightarrow> set sent \<subseteq> set sent' \<Longrightarrow> settled c policy sent' d row row'"
  unfolding settled_def by (meson subsetD)

lemma failed_row_status: "dr_status (failed_row c t failure n r) \<noteq> Processing"
  by (simp add: failed_row_def Let_def)

lemma settled_status: "settled c policy sent d row row' \<Longrightarrow> dr_status row' \<noteq> Processing"
  unfolding settled_def using failed_row_status by (metis delivery_status.distinct(7) row_simps(9))

lemma mark_delivered_row:
  assumes "mark_delivered f now key receipt db = (None, db')"
  obtains row where "delivery_at db key = Some row"
    "\<forall>k. delivery_at db' k = (if k = key then Some (delivered_row now receipt row) else delivery_at db k)"
proof -
  have "key \<in> dr_key ` set (db_deliveries db)" using assms by (cases rule: mark_delivered_cases) auto
  then obtain row where row: "delivery_at db key = Some row"
    using find_key_None [of key] by (auto simp: delivery_at_def)
  show ?thesis by (rule that [OF row]) (simp add: mark_delivered_at [OF assms] row)
qed

lemma loop_settles:
  assumes "process_loop (sqlite_outbox c f clock) send policy n ds db = (None, sent, db')" "distinct (map d_key ds)"
  shows "(\<forall>d \<in> set ds. \<exists>row row'. delivery_at db (d_key d) = Some row \<and> delivery_at db' (d_key d) = Some row'
        \<and> settled c policy sent d row row')
    \<and> (\<forall>k. k \<notin> set (map d_key ds) \<longrightarrow> delivery_at db' k = delivery_at db k)"
  using assms
proof (induction ds arbitrary: n db sent)
  case (Cons d ds)
  let ?a = "allows policy (n_recipient (d_notification d))"
  define result where "result = send n (d_notification d)"
  obtain e1 db1 where step: "(if \<not> ?a then mark_failed c (f n) (clock n) (d_key d) policy_blocked db
      else case result of Inr receipt \<Rightarrow> mark_delivered (f n) (clock n) (d_key d) receipt db
        | Inl err \<Rightarrow> mark_failed c (f n) (clock n) (d_key d) (failure_of err) db) = (e1, db1)" by fastforce
  have "e1 = None"
    using Cons.prems(1) step by (cases e1) (auto simp: Let_def marked_def result_def [symmetric] split: if_splits sum.splits prod.splits)
  note step = step [unfolded this]
  obtain sent2 where rest: "process_loop (sqlite_outbox c f clock) send policy (Suc n) ds db1 = (None, sent2, db')"
    and sent: "sent = (if ?a then (d, result) # sent2 else sent2)"
    using Cons.prems(1) step
    by (auto simp: Let_def marked_def result_def [symmetric] split: if_splits sum.splits prod.splits)
  obtain row row' where row: "delivery_at db (d_key d) = Some row" "settled c policy [(d, result)] d row row'"
    "\<forall>k. delivery_at db1 k = (if k = d_key d then Some row' else delivery_at db k)"
  proof (cases ?a)
    case False
    with step have "mark_failed c (f n) (clock n) (d_key d) policy_blocked db = (None, db1)" by simp
    then show ?thesis by (rule mark_failed_at) (rule that, assumption, use False in \<open>auto simp: settled_def\<close>)
  next
    case True
    show ?thesis
    proof (cases result)
      case (Inl err)
      with True step have "mark_failed c (f n) (clock n) (d_key d) (failure_of err) db = (None, db1)" by simp
      then show ?thesis by (rule mark_failed_at) (rule that, assumption, use True Inl in \<open>auto simp: settled_def\<close>)
    next
      case (Inr receipt)
      with True step have "mark_delivered (f n) (clock n) (d_key d) receipt db = (None, db1)" by simp
      then show ?thesis by (rule mark_delivered_row) (rule that, assumption, use True Inr in \<open>auto simp: settled_def\<close>)
    qed
  qed
  have other: "d_key x \<noteq> d_key d" if "x \<in> set ds" for x
    using Cons.prems(2) imageI [OF that, of d_key] by auto
  have ih: "\<forall>x \<in> set ds. \<exists>row row'. delivery_at db1 (d_key x) = Some row \<and> delivery_at db' (d_key x) = Some row'
        \<and> settled c policy sent2 x row row'"
    "\<forall>k. k \<notin> set (map d_key ds) \<longrightarrow> delivery_at db' k = delivery_at db1 k"
    using Cons.IH [OF rest] Cons.prems(2) by auto
  have sub: "set sent2 \<subseteq> set sent" unfolding sent by auto
  have "\<exists>row row'. delivery_at db (d_key x) = Some row \<and> delivery_at db' (d_key x) = Some row'
      \<and> settled c policy sent x row row'" if "x \<in> set (d # ds)" for x
  proof (cases "x = d")
    case True
    have "delivery_at db' (d_key d) = Some row'"
      using ih(2) row(3) Cons.prems(2) by simp
    moreover have "settled c policy sent d row row'"
    proof (cases ?a)
      case True
      show ?thesis by (rule settled_mono [OF row(2)]) (simp add: sent True)
    next
      case False
      with row(2) show ?thesis by (simp add: settled_def)
    qed
    ultimately show ?thesis using row(1) True by blast
  next
    case False
    with that have x: "x \<in> set ds" by simp
    with ih(1) row(3) other [OF x] settled_mono [OF _ sub] show ?thesis by fastforce
  qed
  moreover have "\<forall>k. k \<notin> set (map d_key (d # ds)) \<longrightarrow> delivery_at db' k = delivery_at db k"
    using ih(2) row(3) by simp
  ultimately show ?case by blast
qed simp

subsection \<open>Properties\<close>

definition steady_worker :: worker_config where
  "steady_worker = new_delivery_worker \<lparr>wk_worker_id = [], wk_batch_size = 0, wk_poll_interval = 0, wk_policy = None\<rparr>"

definition always_sent :: messenger where
  "always_sent n notification = Inr \<lparr>rc_provider_message_id = ''om-'' @ nat_string n\<rparr>"

definition never_sent :: messenger where
  "never_sent n notification = Inl \<lparr>se_text = ''timeout'', se_failure = None\<rparr>"

definition first_pass :: "go_error option \<times> sending list \<times> db" where
  "first_pass = process (sqlite_outbox default_config (\<lambda>_. no_fault) (\<lambda>_. second)) always_sent steady_worker queued"

text \<open>The worker settles what it claims: after a pass without an error every claimed delivery is
  blocked for good if the policy refuses its recipient, and otherwise was sent and is delivered
  with the receipt, or failed as the error says; all other rows are as they were.\<close>

theorem pass_settles_claims:
  assumes "outbox_inv c db" "process (sqlite_outbox c f clock) send w db = (None, sent, db')"
  shows "\<exists>ds db1. claim c (f 0) (clock 0) (wk_worker_id w) (wk_batch_size w) db = (Inr ds, db1)
    \<and> map fst sent = filter (\<lambda>d. allows (wk_policy w) (n_recipient (d_notification d))) ds
    \<and> (\<forall>d \<in> set ds. \<exists>row row'. delivery_at db1 (d_key d) = Some row \<and> delivery_at db' (d_key d) = Some row'
        \<and> dr_status row' \<noteq> Processing \<and> settled c (wk_policy w) sent d row row')
    \<and> (\<forall>k. k \<notin> set (map d_key ds) \<longrightarrow> delivery_at db' k = delivery_at db k)"
proof -
  obtain r db1 where cl: "claim c (f 0) (clock 0) (wk_worker_id w) (wk_batch_size w) db = (r, db1)" by fastforce
  then obtain ds where r: "r = Inr ds" using assms(2) by (auto simp: process_def split: sum.splits)
  note cl = cl [unfolded r]
  have l: "process_loop (sqlite_outbox c f clock) send (wk_policy w) 1 ds db1 = (None, sent, db')"
    using assms(2) cl by (simp add: process_def)
  note d = claim_distinct [OF assms(1) cl]
  have "ob_claim (sqlite_outbox c f clock 0) (wk_worker_id w) (wk_batch_size w) db = (Inr ds, db1)" using cl by simp
  from sqlite_worker.claim_ok [OF assms(1) this] have "set (map d_key ds) \<inter> delivered_keys db1 = {}" by simp
  from sqlite_worker.loop_ok(7) [OF l claim_inv [OF assms(1) cl] d this refl]
  have sent: "map fst sent = filter (\<lambda>d. allows (wk_policy w) (n_recipient (d_notification d))) ds" ..
  note ls = loop_settles [OF l d]
  have each: "\<forall>d \<in> set ds. \<exists>row row'. delivery_at db1 (d_key d) = Some row \<and> delivery_at db' (d_key d) = Some row'
        \<and> dr_status row' \<noteq> Processing \<and> settled c (wk_policy w) sent d row row'"
    using ls settled_status by blast
  have "\<forall>k. k \<notin> set (map d_key ds) \<longrightarrow> delivery_at db' k = delivery_at db k"
    using ls by (simp add: claim_delivery_at [OF assms(1) cl] option.map_ident)
  with cl sent each show ?thesis by blast
qed

theorem pass_settles_claims_witness:
  "map_option dr_status (delivery_at (snd (snd first_pass)) ''k-a'') \<noteq> Some Processing
   \<and> length (fst (snd first_pass)) = 2"
proof -
  have n: "fst first_pass = None" by code_simp
  then have p: "process (sqlite_outbox default_config (\<lambda>_. no_fault) (\<lambda>_. second)) always_sent steady_worker queued
      = (None, fst (snd first_pass), snd (snd first_pass))"
    by (simp add: first_pass_def prod_eq_iff)
  have l: "length (fst (snd first_pass)) = 2" "map (d_key \<circ> fst) (fst (snd first_pass)) = [''k-a'', ''k-b'']" by code_simp+
  obtain ds db1 where ds: "map fst (fst (snd first_pass)) = filter (\<lambda>d. allows (wk_policy steady_worker) (n_recipient (d_notification d))) ds"
    "\<forall>d \<in> set ds. \<exists>row row'. delivery_at db1 (d_key d) = Some row \<and> delivery_at (snd (snd first_pass)) (d_key d) = Some row'
        \<and> dr_status row' \<noteq> Processing \<and> settled default_config (wk_policy steady_worker) (fst (snd first_pass)) d row row'"
    using pass_settles_claims [OF queued_inv p] by blast
  have "set (map fst (fst (snd first_pass))) \<subseteq> set ds" unfolding ds(1) by auto
  moreover have "''k-a'' \<in> d_key ` set (map fst (fst (snd first_pass)))"
    using arg_cong [OF l(2), of set] by (force simp: image_comp)
  ultimately obtain d where "d \<in> set ds" "d_key d = ''k-a''" by auto
  with ds(2) l(1) show ?thesis by fastforce
qed

text \<open>However long the worker runs, whatever fails and however the passes are timed, no delivery is
  sent more often than the configured number of attempts, none that is delivered is sent again,
  none that was delivered is reopened, and nobody outside the policy is sent anything.\<close>

theorem run_bounds_sends:
  assumes "outbox_inv c db"
    "run_worker (Some (\<lambda>p. sqlite_outbox c (f p) (clock p))) (Some send) w ticks db = (e, sent, db')"
  shows "int (count_list (sent_keys sent) k) \<le> cfg_max_attempts c - attempts_of db k
    \<and> set (sent_keys sent) \<inter> delivered_keys db = {} \<and> delivered_keys db \<subseteq> delivered_keys db'
    \<and> (\<forall>x \<in> set sent. allows (wk_policy w) (n_recipient (d_notification (fst x))))"
proof -
  have p: "passes (\<lambda>p. sqlite_outbox c (f p) (clock p)) send w 0 (Suc ticks) db = (sent, db')"
    using assms(2) by (simp add: run_worker_def del: passes.simps)
  have ok: "outbox_inv c db' \<and> delivered_keys db \<subseteq> delivered_keys db' \<and> set (sent_keys sent) \<inter> delivered_keys db = {}
      \<and> attempts_of db k + int (count_list (sent_keys sent) k) \<le> attempts_of db' k
      \<and> (\<forall>x \<in> set sent. allows (wk_policy w) (n_recipient (d_notification (fst x))))"
    by (rule sqlite_runs.passes_ok [OF p assms(1)])
  then show ?thesis using attempts_bounded [of c db' k] by auto
qed

theorem run_bounds_sends_witness:
  "count_list (sent_keys (fst (snd (run_worker (Some (\<lambda>p. sqlite_outbox default_config (\<lambda>_. no_fault) (\<lambda>_. int (Suc p) * hour)))
      (Some (\<lambda>_. never_sent)) steady_worker 7 queued)))) ''k-a'' = 5
   \<and> cfg_max_attempts default_config = 5"
proof -
  define run where "run = run_worker (Some (\<lambda>p. sqlite_outbox default_config (\<lambda>_. no_fault) (\<lambda>_. int (Suc p) * hour)))
      (Some (\<lambda>_. never_sent)) steady_worker 7 queued"
  have "int (count_list (sent_keys (fst (snd run))) ''k-a'') \<le> cfg_max_attempts default_config - attempts_of queued ''k-a''"
    using run_bounds_sends [OF queued_inv, of "\<lambda>_ _. no_fault" "\<lambda>p _. int (Suc p) * hour"] unfolding run_def
    by (metis prod.collapse)
  moreover have "attempts_of queued ''k-a'' = 0" "cfg_max_attempts default_config = 5" by code_simp+
  moreover have "5 \<le> count_list (sent_keys (fst (snd run))) ''k-a''" unfolding run_def by code_simp
  ultimately show ?thesis unfolding run_def by simp
qed

end
