(* ===== verification/GitLabApi.thy ===== *)
theory GitLabApi
  imports GoHttp
begin

section \<open>The GitLab API\<close>

text \<open>
  The requests of adapter/git/gitlab/v17_6/hooks.go: \<open>requestJSON\<close> with its attempts and its
  waits, \<open>requestJSONOnce\<close>, and the errors. A request returns the next page or a failure, what
  the output variable holds, and the trace of what was sent.
\<close>

record hook_config =
  hc_base_url :: string
  hc_api_token :: string
  hc_webhook_url :: string
  hc_webhook_token :: string
  hc_hook_name :: string
  hc_ssl :: bool

datatype api_failure = ApiError (api_status: nat) string (api_retry_after: int) | Failure go_error

definition api_error_text :: "nat \<Rightarrow> string \<Rightarrow> string" where
  "api_error_text status message =
     ''GitLab API request failed (status='' @ nat_string status @ ''): '' @ message"

definition failure_error :: "api_failure \<Rightarrow> go_error" where
  "failure_error f = (case f of ApiError st m ra \<Rightarrow> Msg (api_error_text st m) | Failure e \<Rightarrow> e)"

definition new_hook_controller :: "hook_config \<Rightarrow> hook_config res" where
  "new_hook_controller c =
     (if trim_space (hc_base_url c) = [] then Inl (Msg ''GitLab API base URL is required'')
      else if trim_space (hc_api_token c) = [] then Inl (Msg ''GitLab API token is required'')
      else if trim_space (hc_webhook_url c) = [] then Inl (Msg ''GitLab webhook URL is required'')
      else if trim_space (hc_webhook_token c) = [] then Inl (Msg ''GitLab webhook token is required'')
      else Inr (c\<lparr>hc_hook_name := (if hc_hook_name c = [] then ''Crowsnest'' else hc_hook_name c),
        hc_base_url := trim_right (hc_base_url c) CHR ''/''\<rparr>))"

subsection \<open>One request\<close>

definition max_response_bytes :: nat where
  "max_response_bytes = 2 * 2 ^ 20"

definition retry_after :: "string \<Rightarrow> int" where
  "retry_after value =
     (case atoi (trim_space value) of
        None \<Rightarrow> 0
      | Some seconds \<Rightarrow> if seconds \<le> 0 then 0 else wrap64 (seconds * 1000000000))"

definition api_url :: "hook_config \<Rightarrow> string \<Rightarrow> string" where
  "api_url c path =
     (if suffix ''/api/v4'' (hc_base_url c) then hc_base_url c @ path else hc_base_url c @ ''/api/v4'' @ path)"

definition truncate_api_message :: "string \<Rightarrow> string" where
  "truncate_api_message value =
     (let rs = runes (trim_space value) in
      if length rs \<le> 500 then string_of_runes rs else string_of_runes (take 500 rs) @ ellipsis)"

record message_body =
  mb_message :: json
  mb_error :: string

definition message_fields :: "message_body fields" where
  "message_fields = [field ''message'' into_any mb_message (\<lambda>x. mb_message_update (\<lambda>_. x)),
     field ''error'' into_string mb_error (\<lambda>x. mb_error_update (\<lambda>_. x))]"

definition response_message :: "string \<Rightarrow> string" where
  "response_message body =
     (case unmarshal_into (into_struct message_fields) body \<lparr>mb_message = JNull, mb_error = []\<rparr> of (r, ok) \<Rightarrow>
        if ok \<and> mb_message r \<noteq> JNull then truncate_api_message (sprint (mb_message r))
        else if ok \<and> mb_error r \<noteq> [] then truncate_api_message (mb_error r)
        else ''unavailable'')"

definition request_of :: "hook_config \<Rightarrow> string \<Rightarrow> string \<Rightarrow> json option \<Rightarrow> http_request" where
  "request_of c method path payload =
     \<lparr>hr_method = method, hr_url = api_url c path,
      hr_headers = [(''PRIVATE-TOKEN'', hc_api_token c), (''Accept'', ''application/json'')]
        @ (if payload = None then [] else [(''Content-Type'', ''application/json'')]),
      hr_body = map_option marshal payload\<rparr>"

definition read_response :: "http_response \<Rightarrow> 'o into option \<Rightarrow> 'o \<Rightarrow> (api_failure + string) \<times> 'o" where
  "read_response r output o0 =
     (case hs_body r of
        Inl e \<Rightarrow> (Inl (Failure (Wrap ''read GitLab API response'' e)), o0)
      | Inr whole \<Rightarrow>
        let body = take max_response_bytes whole in
        if hs_status r < 200 \<or> 300 \<le> hs_status r then
          (Inl (ApiError (hs_status r) (response_message body) (retry_after (hs_header r ''Retry-After''))), o0)
        else if output \<noteq> None \<and> body \<noteq> [] then
          (case unmarshal_into (the output) body o0 of (o1, ok) \<Rightarrow>
             if ok then (Inr (hs_header r ''X-Next-Page''), o1)
             else (Inl (Failure (Wrap ''decode GitLab API response'' (Msg ''invalid JSON''))), o1))
        else (Inr (hs_header r ''X-Next-Page''), o0))"

definition request_json_once ::
  "world \<Rightarrow> hook_config \<Rightarrow> string \<Rightarrow> string \<Rightarrow> json option \<Rightarrow> 'o into option \<Rightarrow> 'o \<Rightarrow> net_event list
     \<Rightarrow> (api_failure + string) \<times> 'o \<times> net_event list" where
  "request_json_once w c method path payload output o0 tr =
     (if parse_url (api_url c path) = None
      then (Inl (Failure (Wrap ''create GitLab API request'' (Msg ''invalid URL''))), o0, tr)
      else
        let request = request_of c method path payload; tr1 = tr @ [Sent request] in
        case w_answer w tr request of
          Inl e \<Rightarrow> (Inl (Failure (Wrap ''GitLab API transport'' e)), o0, tr1)
        | Inr r \<Rightarrow> (case read_response r output o0 of (res, o1) \<Rightarrow> (res, o1, tr1)))"

subsection \<open>Attempts\<close>

definition final_failure :: "api_failure \<Rightarrow> bool" where
  "final_failure e = (case e of ApiError st m ra \<Rightarrow> st \<noteq> 429 \<and> st < 500 | Failure _ \<Rightarrow> False)"

definition wait_before :: "nat \<Rightarrow> api_failure \<Rightarrow> int" where
  "wait_before attempt e =
     (case e of
        ApiError st m ra \<Rightarrow> if 0 < ra then ra else int (attempt + 1) * 250000000
      | Failure _ \<Rightarrow> int (attempt + 1) * 250000000)"

text \<open>\<open>left\<close> attempts may follow the one of number \<open>attempt\<close>.\<close>

fun request_attempts ::
  "world \<Rightarrow> hook_config \<Rightarrow> string \<Rightarrow> string \<Rightarrow> json option \<Rightarrow> 'o into option \<Rightarrow> nat \<Rightarrow> nat \<Rightarrow> 'o \<Rightarrow> net_event list
     \<Rightarrow> (api_failure + string) \<times> 'o \<times> net_event list" where
  "request_attempts w c method path payload output 0 attempt o0 tr =
     request_json_once w c method path payload output o0 tr"
| "request_attempts w c method path payload output (Suc left) attempt o0 tr =
     (case request_json_once w c method path payload output o0 tr of
        (Inr next, o1, tr1) \<Rightarrow> (Inr next, o1, tr1)
      | (Inl e, o1, tr1) \<Rightarrow>
        if final_failure e then (Inl e, o1, tr1)
        else
          let tr2 = tr1 @ [Waited (wait_before attempt e)] in
          if w_done w tr2 then (Inl (Failure Canceled), o1, tr2)
          else request_attempts w c method path payload output left (Suc attempt) o1 tr2)"

definition attempts_for :: "string \<Rightarrow> nat" where
  "attempts_for method = (if method = ''GET'' \<or> method = ''PUT'' then 3 else 1)"

definition request_json ::
  "world \<Rightarrow> hook_config \<Rightarrow> string \<Rightarrow> string \<Rightarrow> json option \<Rightarrow> 'o into option \<Rightarrow> 'o \<Rightarrow> net_event list
     \<Rightarrow> (api_failure + string) \<times> 'o \<times> net_event list" where
  "request_json w c method path payload output o0 tr =
     request_attempts w c method path payload output (attempts_for method - 1) 0 o0 tr"

subsection \<open>What a request sends\<close>

text \<open>What a call adds to the trace: \<open>sends P n tr tr'\<close> is at most \<open>n\<close> requests, all of which are \<open>P\<close>.\<close>

definition adds :: "(http_request \<Rightarrow> bool) \<Rightarrow> nat \<Rightarrow> net_event list \<Rightarrow> net_event list \<Rightarrow> bool" where
  "adds P n tr tr' \<longleftrightarrow> (\<exists>new. tr' = tr @ new \<and> length (sent new) \<le> n \<and> list_all P (sent new))"

lemma adds_refl [simp, intro]: "adds P n tr tr"
  by (simp add: adds_def)

lemma adds_trans:
  assumes "adds P m tr tr1" "adds P n tr1 tr2"
  shows "adds P (m + n) tr tr2"
proof -
  obtain x y where "tr1 = tr @ x" "length (sent x) \<le> m" "list_all P (sent x)"
    "tr2 = tr1 @ y" "length (sent y) \<le> n" "list_all P (sent y)"
    using assms unfolding adds_def by blast
  then show ?thesis unfolding adds_def by (intro exI [of _ "x @ y"]) simp
qed

lemma adds_mono: "adds P m tr tr' \<Longrightarrow> m \<le> n \<Longrightarrow> (\<And>r. P r \<Longrightarrow> Q r) \<Longrightarrow> adds Q n tr tr'"
  unfolding adds_def list_all_iff by (elim exE conjE) (rule_tac x = new in exI, auto)

lemma adds_request: "P r \<Longrightarrow> 1 \<le> n \<Longrightarrow> adds P n tr (tr @ [Sent r])"
  by (simp add: adds_def)

lemma adds_wait: "adds P n tr tr' \<Longrightarrow> adds P n tr (tr' @ [Waited d])"
  by (auto simp: adds_def)

lemma request_once_adds:
  assumes "request_json_once w c method path payload output o0 tr = (res, o1, tr1)"
  shows "adds (\<lambda>r. r = request_of c method path payload) 1 tr tr1"
  using assms
  by (auto simp: request_json_once_def Let_def intro!: adds_request split: if_splits sum.splits prod.splits)

lemma request_attempts_adds:
  assumes "request_attempts w c method path payload output left attempt o0 tr = (res, o1, tr1)"
  shows "adds (\<lambda>r. r = request_of c method path payload) (Suc left) tr tr1"
  using assms
proof (induction left arbitrary: attempt o0 tr)
  case 0
  then show ?case using request_once_adds by fastforce
next
  case (Suc left)
  obtain res2 o2 tr2 where once: "request_json_once w c method path payload output o0 tr = (res2, o2, tr2)"
    by (metis prod_cases3)
  note first = request_once_adds [OF once]
  show ?case
  proof (cases "\<exists>e. res2 = Inl e \<and> \<not> final_failure e \<and> \<not> w_done w (tr2 @ [Waited (wait_before attempt e)])")
    case True
    then obtain e where e: "res2 = Inl e" "\<not> final_failure e" "\<not> w_done w (tr2 @ [Waited (wait_before attempt e)])" by blast
    then have "request_attempts w c method path payload output left (Suc attempt) o2 (tr2 @ [Waited (wait_before attempt e)])
        = (res, o1, tr1)"
      using Suc.prems once by (simp add: Let_def)
    from adds_trans [OF adds_wait [OF first] Suc.IH [OF this]] show ?thesis by simp
  next
    case False
    then have "tr1 = tr2 \<or> (\<exists>d. tr1 = tr2 @ [Waited d])"
      using Suc.prems once by (auto simp: Let_def split: sum.splits if_splits)
    then show ?thesis using first by (auto intro: adds_mono adds_mono [OF adds_wait])
  qed
qed

lemma request_json_adds:
  assumes "request_json w c method path payload output o0 tr = (res, o1, tr1)"
  shows "adds (\<lambda>r. r = request_of c method path payload) (attempts_for method) tr tr1"
proof -
  have "Suc (attempts_for method - 1) = attempts_for method" by (simp add: attempts_for_def)
  then show ?thesis using request_attempts_adds assms unfolding request_json_def by metis
qed

text \<open>Without a count: \<open>only P tr tr'\<close>.\<close>

definition only :: "(http_request \<Rightarrow> bool) \<Rightarrow> net_event list \<Rightarrow> net_event list \<Rightarrow> bool" where
  "only P tr tr' \<longleftrightarrow> (\<exists>new. tr' = tr @ new \<and> list_all P (sent new))"

lemma only_refl [simp, intro]: "only P tr tr"
  by (simp add: only_def)

lemma only_trans:
  assumes "only P tr tr1" "only P tr1 tr2"
  shows "only P tr tr2"
proof -
  obtain x y where "tr1 = tr @ x" "list_all P (sent x)" "tr2 = tr1 @ y" "list_all P (sent y)"
    using assms unfolding only_def by blast
  then show ?thesis unfolding only_def by (intro exI [of _ "x @ y"]) simp
qed

lemma adds_only: "adds Q n tr tr' \<Longrightarrow> (\<And>r. Q r \<Longrightarrow> P r) \<Longrightarrow> only P tr tr'"
  unfolding adds_def only_def list_all_iff by (elim exE conjE) (rule_tac x = new in exI, auto)

lemma request_json_only:
  assumes "request_json w c method path payload output o0 tr = (res, o1, tr1)" "P (request_of c method path payload)"
  shows "only P tr tr1"
  using adds_only [OF request_json_adds [OF assms(1)]] assms(2) by blast

text \<open>Every request goes to the configured base and carries the configured token.\<close>

definition addressed :: "hook_config \<Rightarrow> http_request \<Rightarrow> bool" where
  "addressed c r \<longleftrightarrow> prefix (hc_base_url c) (hr_url r) \<and> map_of (hr_headers r) ''PRIVATE-TOKEN'' = Some (hc_api_token c)"

lemma addressed_request [simp]: "addressed c (request_of c method path payload)"
  by (auto simp: addressed_def request_of_def api_url_def)

end
