(* ===== verification/GitLabHooks.thy ===== *)
theory GitLabHooks
  imports GitLabApi
begin

section \<open>The hook reconciler\<close>

text \<open>
  \<open>Reconcile\<close> of hooks.go: the system hook, then the hook of every project that GitLab lists.
  Both kinds of hook are ensured the same way, so \<open>ensure_hook\<close> is written once and has the
  structure's decoder, its test and its request as arguments. The loop over the pages ends when
  GitLab says so and is a partial function.
\<close>

record hook_report =
  rp_dry_run :: bool
  rp_system_action :: string
  rp_scanned :: nat
  rp_created :: nat
  rp_updated :: nat
  rp_unchanged :: nat
  rp_failed :: nat

record project_summary =
  pj_id :: int

record system_hook =
  sh_id :: int
  sh_name :: string
  sh_url :: string
  sh_push :: bool
  sh_tag_push :: bool
  sh_merge_requests :: bool
  sh_repository_update :: bool
  sh_ssl :: bool

record project_hook =
  ph_id :: int
  ph_name :: string
  ph_url :: string
  ph_push :: bool
  ph_tag_push :: bool
  ph_merge_requests :: bool
  ph_issues :: bool
  ph_confidential_issues :: bool
  ph_note :: bool
  ph_confidential_note :: bool
  ph_pipeline :: bool
  ph_ssl :: bool

definition project_fields :: "project_summary fields" where
  "project_fields = [field ''id'' into_int pj_id (\<lambda>x. pj_id_update (\<lambda>_. x))]"

definition system_hook_fields :: "system_hook fields" where
  "system_hook_fields =
     [field ''id'' into_int sh_id (\<lambda>x. sh_id_update (\<lambda>_. x)),
      field ''name'' into_string sh_name (\<lambda>x. sh_name_update (\<lambda>_. x)),
      field ''url'' into_string sh_url (\<lambda>x. sh_url_update (\<lambda>_. x)),
      field ''push_events'' into_bool sh_push (\<lambda>x. sh_push_update (\<lambda>_. x)),
      field ''tag_push_events'' into_bool sh_tag_push (\<lambda>x. sh_tag_push_update (\<lambda>_. x)),
      field ''merge_requests_events'' into_bool sh_merge_requests (\<lambda>x. sh_merge_requests_update (\<lambda>_. x)),
      field ''repository_update_events'' into_bool sh_repository_update (\<lambda>x. sh_repository_update_update (\<lambda>_. x)),
      field ''enable_ssl_verification'' into_bool sh_ssl (\<lambda>x. sh_ssl_update (\<lambda>_. x))]"

definition project_hook_fields :: "project_hook fields" where
  "project_hook_fields =
     [field ''id'' into_int ph_id (\<lambda>x. ph_id_update (\<lambda>_. x)),
      field ''name'' into_string ph_name (\<lambda>x. ph_name_update (\<lambda>_. x)),
      field ''url'' into_string ph_url (\<lambda>x. ph_url_update (\<lambda>_. x)),
      field ''push_events'' into_bool ph_push (\<lambda>x. ph_push_update (\<lambda>_. x)),
      field ''tag_push_events'' into_bool ph_tag_push (\<lambda>x. ph_tag_push_update (\<lambda>_. x)),
      field ''merge_requests_events'' into_bool ph_merge_requests (\<lambda>x. ph_merge_requests_update (\<lambda>_. x)),
      field ''issues_events'' into_bool ph_issues (\<lambda>x. ph_issues_update (\<lambda>_. x)),
      field ''confidential_issues_events'' into_bool ph_confidential_issues (\<lambda>x. ph_confidential_issues_update (\<lambda>_. x)),
      field ''note_events'' into_bool ph_note (\<lambda>x. ph_note_update (\<lambda>_. x)),
      field ''confidential_note_events'' into_bool ph_confidential_note (\<lambda>x. ph_confidential_note_update (\<lambda>_. x)),
      field ''pipeline_events'' into_bool ph_pipeline (\<lambda>x. ph_pipeline_update (\<lambda>_. x)),
      field ''enable_ssl_verification'' into_bool ph_ssl (\<lambda>x. ph_ssl_update (\<lambda>_. x))]"

definition no_system_hook :: system_hook where
  "no_system_hook = \<lparr>sh_id = 0, sh_name = [], sh_url = [], sh_push = False, sh_tag_push = False,
     sh_merge_requests = False, sh_repository_update = False, sh_ssl = False\<rparr>"

definition no_project_hook :: project_hook where
  "no_project_hook = \<lparr>ph_id = 0, ph_name = [], ph_url = [], ph_push = False, ph_tag_push = False,
     ph_merge_requests = False, ph_issues = False, ph_confidential_issues = False, ph_note = False,
     ph_confidential_note = False, ph_pipeline = False, ph_ssl = False\<rparr>"

subsection \<open>What a hook should be\<close>

definition system_hook_request :: "hook_config \<Rightarrow> json" where
  "system_hook_request c = JObj
     [(''name'', JStr (hc_hook_name c)), (''description'', JStr ''Managed by Crowsnest''),
      (''url'', JStr (hc_webhook_url c)), (''token'', JStr (hc_webhook_token c)),
      (''push_events'', JBool False), (''tag_push_events'', JBool False),
      (''merge_requests_events'', JBool True), (''repository_update_events'', JBool False),
      (''enable_ssl_verification'', JBool (hc_ssl c))]"

definition system_hook_matches :: "system_hook \<Rightarrow> hook_config \<Rightarrow> bool" where
  "system_hook_matches h c \<longleftrightarrow> sh_url h = hc_webhook_url c \<and> \<not> sh_push h \<and> \<not> sh_tag_push h
     \<and> sh_merge_requests h \<and> \<not> sh_repository_update h \<and> sh_ssl h = hc_ssl c"

definition project_hook_request :: "hook_config \<Rightarrow> json" where
  "project_hook_request c = JObj
     [(''name'', JStr (hc_hook_name c)), (''url'', JStr (hc_webhook_url c)), (''token'', JStr (hc_webhook_token c)),
      (''push_events'', JBool False), (''tag_push_events'', JBool False), (''merge_requests_events'', JBool False),
      (''issues_events'', JBool True), (''note_events'', JBool True), (''pipeline_events'', JBool True),
      (''confidential_issues_events'', JBool False), (''confidential_note_events'', JBool False),
      (''enable_ssl_verification'', JBool (hc_ssl c))]"

definition project_hook_matches :: "project_hook \<Rightarrow> hook_config \<Rightarrow> bool" where
  "project_hook_matches h c \<longleftrightarrow> ph_url h = hc_webhook_url c \<and> \<not> ph_push h \<and> \<not> ph_tag_push h
     \<and> \<not> ph_merge_requests h \<and> ph_issues h \<and> \<not> ph_confidential_issues h \<and> ph_note h
     \<and> \<not> ph_confidential_note h \<and> ph_pipeline h \<and> ph_ssl h = hc_ssl c"

subsection \<open>Ensuring a hook\<close>

record 'h hook_kind =
  hk_into :: "'h into"
  hk_zero :: 'h
  hk_name :: "'h \<Rightarrow> string"
  hk_id :: "'h \<Rightarrow> int"
  hk_matches :: "'h \<Rightarrow> hook_config \<Rightarrow> bool"
  hk_request :: "hook_config \<Rightarrow> json"

definition write_hook ::
  "world \<Rightarrow> hook_config \<Rightarrow> string \<Rightarrow> string \<Rightarrow> json \<Rightarrow> string \<Rightarrow> net_event list \<Rightarrow> (api_failure + string) \<times> net_event list" where
  "write_hook w c method path payload action tr =
     (case request_json w c method path (Some payload) (None :: unit into option) () tr of
        (Inl e, _, tr1) \<Rightarrow> (Inl e, tr1)
      | (Inr next, _, tr1) \<Rightarrow> (Inr action, tr1))"

definition own_hook :: "hook_config \<Rightarrow> 'h hook_kind \<Rightarrow> 'h slice \<Rightarrow> 'h option" where
  "own_hook c k hooks = find (\<lambda>h. hk_name k h = hc_hook_name c) (elements hooks)"

definition ensure_hook ::
  "world \<Rightarrow> hook_config \<Rightarrow> 'h hook_kind \<Rightarrow> string \<Rightarrow> bool \<Rightarrow> net_event list \<Rightarrow> (api_failure + string) \<times> net_event list" where
  "ensure_hook w c k path dry_run tr =
     (case request_json w c ''GET'' path None (Some (into_slice (hk_into k) (hk_zero k))) nil_slice tr of
        (Inl e, _, tr1) \<Rightarrow> (Inl e, tr1)
      | (Inr next, hooks, tr1) \<Rightarrow>
        (case own_hook c k hooks of
           Some h \<Rightarrow>
             if hk_matches k h c then (Inr ''unchanged'', tr1)
             else if dry_run then (Inr ''would_update'', tr1)
             else write_hook w c ''PUT'' (path @ ''/'' @ int_string (hk_id k h)) (hk_request k c) ''update'' tr1
         | None \<Rightarrow>
             if dry_run then (Inr ''would_create'', tr1)
             else write_hook w c ''POST'' path (hk_request k c) ''create'' tr1))"

definition system_hook_kind :: "system_hook hook_kind" where
  "system_hook_kind = \<lparr>hk_into = into_struct system_hook_fields, hk_zero = no_system_hook, hk_name = sh_name,
     hk_id = sh_id, hk_matches = system_hook_matches, hk_request = system_hook_request\<rparr>"

definition project_hook_kind :: "project_hook hook_kind" where
  "project_hook_kind = \<lparr>hk_into = into_struct project_hook_fields, hk_zero = no_project_hook, hk_name = ph_name,
     hk_id = ph_id, hk_matches = project_hook_matches, hk_request = project_hook_request\<rparr>"

definition ensure_system_hook :: "world \<Rightarrow> hook_config \<Rightarrow> bool \<Rightarrow> net_event list \<Rightarrow> (api_failure + string) \<times> net_event list" where
  "ensure_system_hook w c dry_run tr = ensure_hook w c system_hook_kind ''/hooks'' dry_run tr"

definition ensure_project_hook ::
  "world \<Rightarrow> hook_config \<Rightarrow> int \<Rightarrow> bool \<Rightarrow> net_event list \<Rightarrow> (api_failure + string) \<times> net_event list" where
  "ensure_project_hook w c project_id dry_run tr =
     ensure_hook w c project_hook_kind (''/projects/'' @ int_string project_id @ ''/hooks'') dry_run tr"

subsection \<open>The projects\<close>

definition projects_path :: "nat \<Rightarrow> string" where
  "projects_path page = ''/projects?archived=false&per_page=100&page='' @ nat_string page @ ''&simple=true''"

definition projects_page ::
  "world \<Rightarrow> hook_config \<Rightarrow> nat \<Rightarrow> net_event list \<Rightarrow> (api_failure + string) \<times> project_summary slice \<times> net_event list" where
  "projects_page w c page tr =
     request_json w c ''GET'' (projects_path page) None (Some (into_slice (into_struct project_fields) \<lparr>pj_id = 0\<rparr>)) nil_slice tr"

partial_function (option) list_projects_from ::
  "world \<Rightarrow> hook_config \<Rightarrow> nat \<Rightarrow> project_summary list \<Rightarrow> net_event list
     \<Rightarrow> ((api_failure + project_summary list) \<times> net_event list) option" where
  "list_projects_from w c page projects tr =
     (case projects_page w c page tr of
        (Inl e, ps, tr1) \<Rightarrow> Some (Inl e, tr1)
      | (Inr next, ps, tr1) \<Rightarrow>
        if next = [] \<or> elements ps = [] then Some (Inr (projects @ elements ps), tr1)
        else list_projects_from w c (Suc page) (projects @ elements ps) tr1)"

declare list_projects_from.simps [code]

definition list_projects ::
  "world \<Rightarrow> hook_config \<Rightarrow> net_event list \<Rightarrow> ((api_failure + project_summary list) \<times> net_event list) option" where
  "list_projects w c tr = list_projects_from w c 1 [] tr"

subsection \<open>Reconcile\<close>

definition count_action :: "string \<Rightarrow> hook_report \<Rightarrow> hook_report" where
  "count_action action r =
     (if action = ''create'' \<or> action = ''would_create'' then r\<lparr>rp_created := rp_created r + 1\<rparr>
      else if action = ''update'' \<or> action = ''would_update'' then r\<lparr>rp_updated := rp_updated r + 1\<rparr>
      else if action = ''unchanged'' then r\<lparr>rp_unchanged := rp_unchanged r + 1\<rparr> else r)"

fun reconcile_projects ::
  "world \<Rightarrow> hook_config \<Rightarrow> bool \<Rightarrow> project_summary list \<Rightarrow> hook_report \<Rightarrow> go_error list \<Rightarrow> net_event list
     \<Rightarrow> hook_report \<times> go_error list \<times> net_event list" where
  "reconcile_projects w c dry_run [] r errs tr = (r, errs, tr)"
| "reconcile_projects w c dry_run (p # ps) r errs tr =
     (let r1 = r\<lparr>rp_scanned := rp_scanned r + 1\<rparr> in
      case ensure_project_hook w c (pj_id p) dry_run tr of
        (Inl e, tr1) \<Rightarrow>
          reconcile_projects w c dry_run ps (r1\<lparr>rp_failed := rp_failed r1 + 1\<rparr>)
            (errs @ [Wrap (''project '' @ int_string (pj_id p)) (failure_error e)]) tr1
      | (Inr action, tr1) \<Rightarrow> reconcile_projects w c dry_run ps (count_action action r1) errs tr1)"

definition new_hook_report :: "bool \<Rightarrow> hook_report" where
  "new_hook_report dry_run = \<lparr>rp_dry_run = dry_run, rp_system_action = [], rp_scanned = 0, rp_created = 0,
     rp_updated = 0, rp_unchanged = 0, rp_failed = 0\<rparr>"

definition reconcile ::
  "world \<Rightarrow> hook_config \<Rightarrow> bool \<Rightarrow> net_event list \<Rightarrow> (hook_report \<times> go_error list \<times> net_event list) option" where
  "reconcile w c dry_run tr =
     (let report = new_hook_report dry_run in
      case ensure_system_hook w c dry_run tr of
        (Inl e, tr1) \<Rightarrow> Some (report, [failure_error e], tr1)
      | (Inr action, tr1) \<Rightarrow>
        let report1 = report\<lparr>rp_system_action := action\<rparr> in
        case list_projects w c tr1 of
          None \<Rightarrow> None
        | Some (Inl e, tr2) \<Rightarrow> Some (report1, [failure_error e], tr2)
        | Some (Inr projects, tr2) \<Rightarrow> Some (reconcile_projects w c dry_run projects report1 [] tr2))"

subsection \<open>What reconciling sends\<close>

definition hook_request :: "hook_config \<Rightarrow> bool \<Rightarrow> http_request \<Rightarrow> bool" where
  "hook_request c dry_run r \<longleftrightarrow> addressed c r \<and>
     (hr_method r = ''GET'' \<and> hr_body r = None \<or>
      \<not> dry_run \<and> hr_method r \<in> set [''PUT'', ''POST'']
        \<and> hr_body r \<in> set (map (\<lambda>p. Some (marshal p)) [system_hook_request c, project_hook_request c]))"

lemma hook_request_get: "hook_request c dry_run (request_of c ''GET'' path None)"
  by (simp add: hook_request_def) (simp add: request_of_def)

lemma hook_request_write:
  "method \<in> set [''PUT'', ''POST''] \<Longrightarrow> payload \<in> set [system_hook_request c, project_hook_request c] \<Longrightarrow>
   hook_request c False (request_of c method path (Some payload))"
  by (auto simp: hook_request_def) (auto simp: request_of_def)

lemma write_hook_only:
  assumes "write_hook w c method path payload action tr = (res, tr1)" "P (request_of c method path (Some payload))"
  shows "only P tr tr1"
  using assms request_json_only
  by (auto simp: write_hook_def split: prod.splits sum.splits)

lemma ensure_hook_only:
  assumes "ensure_hook w c k path dry_run tr = (res, tr1)" "hk_request k c \<in> set [system_hook_request c, project_hook_request c]"
  shows "only (hook_request c dry_run) tr tr1"
proof -
  obtain res0 hooks tr0 where g: "request_json w c ''GET'' path None (Some (into_slice (hk_into k) (hk_zero k))) nil_slice tr
      = (res0, hooks, tr0)" by (metis prod_cases3)
  have first: "only (hook_request c dry_run) tr tr0"
    using request_json_only [OF g] hook_request_get by blast
  consider "tr1 = tr0"
    | verb path' action where "\<not> dry_run" "verb \<in> set [''PUT'', ''POST'']"
        "write_hook w c verb path' (hk_request k c) action tr0 = (res, tr1)"
    using assms(1) g by (auto simp: ensure_hook_def split: sum.splits option.splits if_splits)
  then show ?thesis
  proof cases
    case 1
    then show ?thesis using first by simp
  next
    case 2
    have "only (hook_request c dry_run) tr0 tr1"
      using write_hook_only [OF 2(3)] hook_request_write [OF 2(2) assms(2)] 2(1) by simp
    then show ?thesis by (rule only_trans [OF first])
  qed
qed

lemma hook_kinds [simp]: "hk_request project_hook_kind = project_hook_request" "hk_request system_hook_kind = system_hook_request"
  by (simp_all add: project_hook_kind_def system_hook_kind_def)

lemma ensure_project_hook_only:
  "ensure_project_hook w c i dry_run tr = (res, tr1) \<Longrightarrow> only (hook_request c dry_run) tr tr1"
  unfolding ensure_project_hook_def by (erule ensure_hook_only) simp

lemma ensure_system_hook_only:
  "ensure_system_hook w c dry_run tr = (res, tr1) \<Longrightarrow> only (hook_request c dry_run) tr tr1"
  unfolding ensure_system_hook_def by (erule ensure_hook_only) simp

lemma projects_page_only:
  "projects_page w c page tr = (res, ps, tr1) \<Longrightarrow> only (hook_request c dry_run) tr tr1"
  unfolding projects_page_def by (erule request_json_only) (rule hook_request_get)

lemma list_projects_from_only:
  assumes "list_projects_from w c page ps tr = Some y"
  shows "only (hook_request c dry_run) tr (snd y)"
  using assms
proof (rule list_projects_from.raw_induct [rotated, where P = "\<lambda>w c page ps tr y. only (hook_request c dry_run) tr (snd y)"])
  fix f w c page ps tr y
  assume 1: "\<And>w c page ps tr y. f w c page ps tr = Some y \<Longrightarrow> only (hook_request c dry_run) tr (snd y)"
    "(case projects_page w c page tr of (Inl e, ps, tr1) \<Rightarrow> Some (Inl e, tr1)
      | (Inr next, qs, tr1) \<Rightarrow> if next = [] \<or> elements qs = [] then Some (Inr (ps @ elements qs), tr1)
        else f w c (Suc page) (ps @ elements qs) tr1) = Some y"
  obtain res qs tr1 where p: "projects_page w c page tr = (res, qs, tr1)" by (metis prod_cases3)
  have first: "only (hook_request c dry_run) tr tr1" by (rule projects_page_only [OF p])
  consider "snd y = tr1" | "f w c (Suc page) (ps @ elements qs) tr1 = Some y"
    using 1(2) p by (auto split: sum.splits if_splits)
  then show "only (hook_request c dry_run) tr (snd y)"
  proof cases
    case 1
    with first show ?thesis by simp
  next
    case 2
    from 1(1) [OF 2] show ?thesis by (rule only_trans [OF first])
  qed
qed

lemma reconcile_projects_only:
  assumes "reconcile_projects w c dry_run ps r errs tr = (r', errs', tr')"
  shows "only (hook_request c dry_run) tr tr'"
  using assms
proof (induction ps arbitrary: r errs tr)
  case (Cons p ps)
  obtain res tr1 where e: "ensure_project_hook w c (pj_id p) dry_run tr = (res, tr1)" by fastforce
  from Cons.prems e have "\<exists>r1 errs1. reconcile_projects w c dry_run ps r1 errs1 tr1 = (r', errs', tr')"
    by (auto simp: Let_def split: sum.splits)
  then show ?case using Cons.IH only_trans [OF ensure_project_hook_only [OF e]] by blast
qed simp

lemma reconcile_only:
  assumes "reconcile w c dry_run tr = Some (report, errs, tr')"
  shows "only (hook_request c dry_run) tr tr'"
proof -
  obtain res tr1 where s: "ensure_system_hook w c dry_run tr = (res, tr1)" by fastforce
  note first = ensure_system_hook_only [OF s]
  consider "tr' = tr1"
    | ps where "list_projects w c tr1 = Some (ps, tr')"
    | ps tr2 r where "list_projects w c tr1 = Some (Inr ps, tr2)"
        "reconcile_projects w c dry_run ps r [] tr2 = (report, errs, tr')"
    using assms s by (auto simp: reconcile_def Let_def split: sum.splits option.splits)
  then show ?thesis
  proof cases
    case 2
    then show ?thesis
      using only_trans [OF first] list_projects_from_only unfolding list_projects_def by fastforce
  next
    case 3
    then have "only (hook_request c dry_run) tr1 tr2"
      using list_projects_from_only unfolding list_projects_def by fastforce
    then show ?thesis using only_trans [OF first] only_trans reconcile_projects_only [OF 3(2)] by blast
  qed (use first in simp)
qed


subsection \<open>Whose hooks are written\<close>

lemma write_hook_adds:
  assumes "write_hook w c method path payload action tr = (res, tr1)"
  shows "adds (\<lambda>r. r = request_of c method path (Some payload)) (attempts_for method) tr tr1"
proof -
  obtain res0 u tr0 where "request_json w c method path (Some payload) (None :: unit into option) () tr = (res0, u, tr0)"
    by (metis prod_cases3)
  with assms request_json_adds [OF this] show ?thesis by (auto simp: write_hook_def split: sum.splits)
qed

lemma request_of_fields [simp]: "hr_method (request_of c m p b) = m" "hr_url (request_of c m p b) = api_url c p"
  by (simp_all add: request_of_def)

text \<open>
  After the hooks of a project are listed, the first of the configured name is updated if it is
  not as it should be, and by nothing but updates of that hook; if there is none, one request at
  most creates it. A hook of another name is never written, and no create is sent twice.
\<close>

theorem only_the_own_hook_is_written:
  assumes "request_json w c ''GET'' path None (Some (into_slice (hk_into k) (hk_zero k))) nil_slice tr = (Inr next, hooks, tr1)"
    "ensure_hook w c k path dry_run tr = (res, tr')"
  shows "case own_hook c k hooks of
      Some h \<Rightarrow> hk_name k h = hc_hook_name c \<and>
        adds (\<lambda>r. \<not> hk_matches k h c \<and> hr_method r = ''PUT'' \<and> hr_url r = api_url c (path @ ''/'' @ int_string (hk_id k h))) 3 tr1 tr'
    | None \<Rightarrow> adds (\<lambda>r. hr_method r = ''POST'' \<and> hr_url r = api_url c path) 1 tr1 tr'"
proof (cases "own_hook c k hooks")
  case None
  have "tr' = tr1 \<or> write_hook w c ''POST'' path (hk_request k c) ''create'' tr1 = (res, tr')"
    using assms None by (auto simp: ensure_hook_def split: if_splits)
  then have "adds (\<lambda>r. hr_method r = ''POST'' \<and> hr_url r = api_url c path) 1 tr1 tr'"
  proof
    assume "write_hook w c ''POST'' path (hk_request k c) ''create'' tr1 = (res, tr')"
    from write_hook_adds [OF this] show ?thesis by (rule adds_mono) (simp_all add: attempts_for_def)
  qed simp
  then show ?thesis using None by simp
next
  case (Some h)
  have "tr' = tr1 \<or> \<not> hk_matches k h c \<and>
      write_hook w c ''PUT'' (path @ ''/'' @ int_string (hk_id k h)) (hk_request k c) ''update'' tr1 = (res, tr')"
    using assms Some by (auto simp: ensure_hook_def split: if_splits)
  moreover have "hk_name k h = hc_hook_name c"
    using Some by (auto simp: own_hook_def find_Some_iff)
  moreover have "adds (\<lambda>r. \<not> hk_matches k h c \<and> hr_method r = ''PUT''
      \<and> hr_url r = api_url c (path @ ''/'' @ int_string (hk_id k h))) 3 tr1 tr'"
    using calculation(1)
  proof (elim disjE conjE)
    assume m: "\<not> hk_matches k h c"
      and wr: "write_hook w c ''PUT'' (path @ ''/'' @ int_string (hk_id k h)) (hk_request k c) ''update'' tr1 = (res, tr')"
    from write_hook_adds [OF wr] show ?thesis by (rule adds_mono) (simp_all add: attempts_for_def m)
  qed simp
  ultimately show ?thesis using Some by simp
qed

text \<open>
  What the reconciler asks for is what it accepts: a hook that holds the values of the request,
  as GitLab would return them, is left alone by the next reconciliation.
\<close>

theorem own_request_matches:
  "project_hook_matches (fst (into_struct project_hook_fields (project_hook_request c) no_project_hook)) c
    \<and> ph_name (fst (into_struct project_hook_fields (project_hook_request c) no_project_hook)) = hc_hook_name c
    \<and> system_hook_matches (fst (into_struct system_hook_fields (system_hook_request c) no_system_hook)) c
    \<and> sh_name (fst (into_struct system_hook_fields (system_hook_request c) no_system_hook)) = hc_hook_name c"
  by (simp add: into_struct_def project_hook_request_def system_hook_request_def project_hook_fields_def
      system_hook_fields_def field_def field_of_def into_string_def into_bool_def project_hook_matches_def
      system_hook_matches_def no_project_hook_def no_system_hook_def equal_fold_def to_lower_def)

subsection \<open>The report\<close>

lemma ensure_hook_actions:
  assumes "ensure_hook w c k path dry_run tr = (Inr action, tr1)"
  shows "action \<in> set [''create'', ''would_create'', ''update'', ''would_update'', ''unchanged'']"
proof -
  have writes: "a = action" if "write_hook w c m p b a t = (Inr action, t1)" for m p b a t t1
    using that by (auto simp: write_hook_def split: prod.splits sum.splits)
  obtain res0 hooks tr0 where "request_json w c ''GET'' path None (Some (into_slice (hk_into k) (hk_zero k))) nil_slice tr
      = (res0, hooks, tr0)" by (metis prod_cases3)
  with assms writes show ?thesis
    unfolding ensure_hook_def by (cases res0; cases "own_hook c k hooks") (fastforce split: if_splits)+
qed

lemma count_action_total:
  assumes "action \<in> set [''create'', ''would_create'', ''update'', ''would_update'', ''unchanged'']"
  shows "rp_created (count_action action r) + rp_updated (count_action action r) + rp_unchanged (count_action action r)
      = Suc (rp_created r + rp_updated r + rp_unchanged r)"
    "rp_failed (count_action action r) = rp_failed r" "rp_scanned (count_action action r) = rp_scanned r"
  using assms by (auto simp: count_action_def)

definition settled :: "hook_report \<Rightarrow> nat" where
  "settled r = rp_created r + rp_updated r + rp_unchanged r + rp_failed r"

lemma reconcile_projects_counts:
  assumes "reconcile_projects w c dry_run ps r errs tr = (r', errs', tr')"
  shows "rp_scanned r' = rp_scanned r + length ps \<and> settled r' = settled r + length ps
    \<and> rp_failed r' + length errs = rp_failed r + length errs'"
  using assms
proof (induction ps arbitrary: r errs tr)
  case (Cons p ps)
  obtain res tr1 where e: "ensure_project_hook w c (pj_id p) dry_run tr = (res, tr1)" by fastforce
  show ?case
  proof (cases res)
    case (Inl x)
    with Cons.prems e Cons.IH show ?thesis by (fastforce simp: settled_def)
  next
    case (Inr action)
    define r1 where "r1 = count_action action (r\<lparr>rp_scanned := rp_scanned r + 1\<rparr>)"
    have "reconcile_projects w c dry_run ps r1 errs tr1 = (r', errs', tr')"
      using Cons.prems e Inr by (simp add: r1_def)
    note IH = Cons.IH [OF this]
    have "action \<in> set [''create'', ''would_create'', ''update'', ''would_update'', ''unchanged'']"
      using ensure_hook_actions e Inr unfolding ensure_project_hook_def by blast
    from count_action_total [OF this, of "r\<lparr>rp_scanned := rp_scanned r + 1\<rparr>"]
    have "settled r1 = Suc (settled r)" "rp_scanned r1 = Suc (rp_scanned r)" "rp_failed r1 = rp_failed r"
      by (simp_all add: r1_def settled_def)
    with IH show ?thesis by simp
  qed
qed simp

lemma reconcile_cases:
  assumes "reconcile w c dry_run tr = Some (report, errs, tr')"
  obtains e where "report = new_hook_report dry_run" "errs = [e]"
  | e action where "report = (new_hook_report dry_run)\<lparr>rp_system_action := action\<rparr>" "errs = [e]"
  | action ps tr2 where
      "reconcile_projects w c dry_run ps ((new_hook_report dry_run)\<lparr>rp_system_action := action\<rparr>) [] tr2 = (report, errs, tr')"
  using assms by (auto simp: reconcile_def Let_def split: prod.splits sum.splits option.splits)

text \<open>
  Every project counted is settled in exactly one way, created, updated, unchanged or failed, and
  there is one error per failed project; if no project failed, an error has stopped the run before
  the first.
\<close>

theorem reconcile_report_adds_up:
  assumes "reconcile w c dry_run tr = Some (report, errs, tr')"
  shows "rp_created report + rp_updated report + rp_unchanged report + rp_failed report = rp_scanned report
    \<and> (length errs = rp_failed report \<or> length errs = 1 \<and> rp_scanned report = 0)"
  using assms
proof (cases rule: reconcile_cases)
  case (3 action ps tr2)
  from reconcile_projects_counts [OF 3] show ?thesis by (simp add: settled_def new_hook_report_def)
qed (simp_all add: new_hook_report_def)

subsection \<open>Ending\<close>

definition page_ends :: "world \<Rightarrow> hook_config \<Rightarrow> nat \<Rightarrow> net_event list \<Rightarrow> bool" where
  "page_ends w c page tr =
     (case projects_page w c page tr of (Inl e, ps, tr1) \<Rightarrow> True | (Inr next, ps, tr1) \<Rightarrow> next = [] \<or> elements ps = [])"

lemma list_projects_from_ends:
  assumes "\<And>tr. page_ends w c (page + n) tr"
  shows "list_projects_from w c page ps tr \<noteq> None"
  using assms
proof (induction n arbitrary: page ps tr)
  case 0
  from 0 [of tr] show ?case
    by (subst list_projects_from.simps) (auto simp: page_ends_def split: prod.splits sum.splits)
next
  case (Suc n)
  have "list_projects_from w c (Suc page) qs tr1 \<noteq> None" for qs tr1
    by (rule Suc.IH) (use Suc.prems in simp)
  then show ?case
    by (subst list_projects_from.simps) (simp split: prod.splits sum.splits)
qed


subsection \<open>An example\<close>

text \<open>A GitLab with one project, whose hook still has an old address.\<close>

definition sample_hook_config :: hook_config where
  "sample_hook_config = \<lparr>hc_base_url = ''https://gl'', hc_api_token = ''t'', hc_webhook_url = ''https://c/hook'',
     hc_webhook_token = ''w'', hc_hook_name = ''Crowsnest'', hc_ssl = True\<rparr>"

definition sample_answer :: "http_request \<Rightarrow> string" where
  \<open>sample_answer r =
     (if hr_method r \<noteq> ''GET'' then []
      else if hr_url r = ''https://gl/api/v4/projects?archived=false&per_page=100&page=1&simple=true'' then ''[{"id":4}]''
      else if hr_url r = ''https://gl/api/v4/projects/4/hooks'' then ''[{"id":9,"name":"Crowsnest","url":"old"}]''
      else ''[]'')\<close>

definition sample_world :: world where
  "sample_world = \<lparr>w_answer = \<lambda>tr r. Inr \<lparr>hs_status = 200, hs_header = \<lambda>_. [], hs_body = Inr (sample_answer r)\<rparr>,
     w_done = \<lambda>_. False\<rparr>"

lemma sample_reconciled: "\<exists>report errs tr'. reconcile sample_world sample_hook_config dry_run [] = Some (report, errs, tr')"
proof -
  have "reconcile sample_world sample_hook_config True [] \<noteq> None" by code_simp
  moreover have "reconcile sample_world sample_hook_config False [] \<noteq> None" by code_simp
  ultimately show ?thesis by (cases dry_run) auto
qed


theorem reconcile_report_adds_up_witness:
  "\<exists>report errs tr'. reconcile sample_world sample_hook_config False [] = Some (report, errs, tr')
    \<and> rp_created report + rp_updated report + rp_unchanged report + rp_failed report = rp_scanned report"
  using sample_reconciled [of False] reconcile_report_adds_up by blast

theorem only_the_own_hook_is_written_witness:
  "\<exists>(h :: project_hook) tr1 tr'. ph_name h = ''Crowsnest''
    \<and> adds (\<lambda>r. hr_method r = ''PUT'' \<and> hr_url r = api_url sample_hook_config (''/projects/4/hooks/'' @ int_string (ph_id h))) 3 tr1 tr'"
proof -
  let ?k = project_hook_kind and ?p = "''/projects/4/hooks''"
  define get where "get = request_json sample_world sample_hook_config ''GET'' ?p None
    (Some (into_slice (hk_into ?k) (hk_zero ?k))) nil_slice []"
  have "\<not> isl (fst get) \<and> own_hook sample_hook_config ?k (fst (snd get)) \<noteq> None"
    unfolding get_def by code_simp
  then obtain np hooks tr1 h where g: "get = (Inr np, hooks, tr1)" "own_hook sample_hook_config ?k hooks = Some h"
    by (metis (no_types, lifting) eq_fst_iff not_None_eq prod.collapse snd_conv sum.collapse(2))
  obtain res tr' where e: "ensure_hook sample_world sample_hook_config ?k ?p False [] = (res, tr')" by fastforce
  from only_the_own_hook_is_written [OF g(1) [unfolded get_def] e] g(2)
  have "hk_name ?k h = hc_hook_name sample_hook_config"
    "adds (\<lambda>r. \<not> hk_matches ?k h sample_hook_config \<and> hr_method r = ''PUT''
      \<and> hr_url r = api_url sample_hook_config (?p @ ''/'' @ int_string (hk_id ?k h))) 3 tr1 tr'" by simp_all
  then show ?thesis
    by (intro exI [of _ h] exI [of _ tr1] exI [of _ tr'])
      (auto simp: project_hook_kind_def sample_hook_config_def elim: adds_mono)
qed


end
