(* ===== verification/IdentitySync.thy ===== *)
theory IdentitySync
  imports StoreFrames Routing
begin

section \<open>Synchronizing the identities\<close>

text \<open>
  application/identity_sync.go: the users of GitLab become identity mappings, enabled if the
  user is active and, where a directory verifies it, the address is known there; every other
  mapping is disabled. The two directories are other systems: their answers are arguments.
  \<open>errors.Join\<close> gives the list of the errors it joins. The locale \<open>sync_store\<close> states what
  the service relies on, and \<open>sqlite_sync\<close> shows it for the SQLite store.
\<close>

record user_record =
  ur_identity :: identity
  ur_active :: bool

record directory_user =
  du_email :: string
  du_id :: string

record sync_report =
  sr_dry_run :: bool
  sr_email_verification :: string
  sr_gitlab_users :: nat
  sr_eligible_users :: nat
  sr_feishu_users_found :: nat
  sr_mappings_considered :: nat
  sr_mappings_upserted :: nat
  sr_mappings_enabled :: nat
  sr_mappings_disabled :: int
  sr_skipped_no_email :: nat
  sr_skipped_domain :: nat
  sr_skipped_inactive :: nat

record 's sync_service =
  ss_users :: "(user_record list res) option"
  ss_directory :: "(string list \<Rightarrow> (string, directory_user) gomap res) option"
  ss_upsert :: "nat \<Rightarrow> provider \<Rightarrow> identity \<Rightarrow> bool \<Rightarrow> 's \<Rightarrow> go_error option \<times> 's"
  ss_disable_except :: "provider \<Rightarrow> string list \<Rightarrow> 's \<Rightarrow> int res \<times> 's"
  ss_domains :: "(string, unit) gomap"

definition normalize_sync_email :: "string \<Rightarrow> string" where
  "normalize_sync_email value =
     (let v = trim_space value in
      if \<not> addr_spec v \<or> contains (to_lower v) ''noreply'' then [] else to_lower v)"

definition sync_allowed :: "(string, unit) gomap \<Rightarrow> string \<Rightarrow> bool" where
  "sync_allowed domains email =
     (if domains = [] then True
      else case split2 email CHR ''@'' of
        None \<Rightarrow> False
      | Some (l, d) \<Rightarrow> map_of domains (to_lower d) \<noteq> None)"

definition new_report :: "bool \<Rightarrow> sync_report" where
  "new_report dry_run = \<lparr>sr_dry_run = dry_run, sr_email_verification = [], sr_gitlab_users = 0,
     sr_eligible_users = 0, sr_feishu_users_found = 0, sr_mappings_considered = 0,
     sr_mappings_upserted = 0, sr_mappings_enabled = 0, sr_mappings_disabled = 0,
     sr_skipped_no_email = 0, sr_skipped_domain = 0, sr_skipped_inactive = 0\<rparr>"

subsection \<open>The candidates\<close>

text \<open>A candidate carries its identity, whose address is the normalised one, and whether it is active.\<close>

record sync_candidate =
  sc_identity :: identity
  sc_active :: bool
  sc_email :: string

fun collect ::
  "(string, unit) gomap \<Rightarrow> user_record list \<Rightarrow> sync_report \<Rightarrow> sync_report \<times> sync_candidate list \<times> string list" where
  "collect domains [] report = (report, [], [])"
| "collect domains (u # us) report =
     (let email = normalize_sync_email (i_email (ur_identity u)) in
      if email = [] then collect domains us (report\<lparr>sr_skipped_no_email := sr_skipped_no_email report + 1\<rparr>)
      else if \<not> sync_allowed domains email then
        collect domains us (report\<lparr>sr_skipped_domain := sr_skipped_domain report + 1\<rparr>)
      else
        let report1 = report\<lparr>sr_eligible_users := sr_eligible_users report + 1\<rparr>;
            item = \<lparr>sc_identity = (ur_identity u)\<lparr>i_provider := ProviderGitLab, i_email := email\<rparr>,
                    sc_active = ur_active u, sc_email = email\<rparr>
        in if ur_active u then
             (case collect domains us report1 of (r, cs, es) \<Rightarrow> (r, item # cs, email # es))
           else
             (case collect domains us (report1\<lparr>sr_skipped_inactive := sr_skipped_inactive report1 + 1\<rparr>) of
                (r, cs, es) \<Rightarrow> (r, item # cs, es)))"

subsection \<open>Sync\<close>

text \<open>\<open>found\<close> without a directory: the addresses of the active candidates.\<close>

definition found_active :: "sync_candidate list \<Rightarrow> (string, directory_user) gomap" where
  "found_active cs = fold (\<lambda>c. AList.update (sc_email c) \<lparr>du_email = sc_email c, du_id = []\<rparr>) (filter sc_active cs) []"

fun sync_loop ::
  "'s sync_service \<Rightarrow> bool \<Rightarrow> (string, directory_user) gomap \<Rightarrow> nat \<Rightarrow> sync_candidate list \<Rightarrow> sync_report \<Rightarrow> 's
     \<Rightarrow> sync_report \<times> string list \<times> go_error list \<times> 's" where
  "sync_loop svc dry_run found n [] report s = (report, [], [], s)"
| "sync_loop svc dry_run found n (c # cs) report s =
     (let feishu_found = (map_of found (sc_email c) \<noteq> None);
          enabled = (sc_active c \<and> feishu_found);
          report1 = report
            \<lparr>sr_feishu_users_found := sr_feishu_users_found report
               + (if sc_active c \<and> feishu_found \<and> ss_directory svc \<noteq> None then 1 else 0),
             sr_mappings_considered := sr_mappings_considered report + 1\<rparr>
      in if dry_run then sync_loop svc dry_run found n cs report1 s
         else case ss_upsert svc n ProviderGitLab (sc_identity c) enabled s of
           (Some e, s1) \<Rightarrow>
             (case sync_loop svc dry_run found (Suc n) cs report1 s1 of
                (r, ids, errs, s2) \<Rightarrow>
                  (r, ids, Wrap (''upsert GitLab identity '' @ i_provider_id (sc_identity c)) e # errs, s2))
         | (None, s1) \<Rightarrow>
             (case sync_loop svc dry_run found (Suc n) cs
                 (report1\<lparr>sr_mappings_upserted := sr_mappings_upserted report1 + 1,
                          sr_mappings_enabled := sr_mappings_enabled report1 + (if enabled then 1 else 0)\<rparr>) s1 of
                (r, ids, errs, s2) \<Rightarrow>
                  (r, (if enabled \<and> i_provider_id (sc_identity c) \<noteq> [] then [i_provider_id (sc_identity c)] else []) @ ids,
                   errs, s2)))"

definition found_addresses ::
  "'s sync_service \<Rightarrow> sync_candidate list \<Rightarrow> string list \<Rightarrow> (string, directory_user) gomap res" where
  "found_addresses svc cs emails =
     (case ss_directory svc of None \<Rightarrow> Inr (found_active cs) | Some lookup \<Rightarrow> lookup emails)"

definition sync :: "'s sync_service option \<Rightarrow> bool \<Rightarrow> 's \<Rightarrow> sync_report \<times> go_error list \<times> 's" where
  "sync service dry_run s =
     (let report = new_report dry_run in
      case service of None \<Rightarrow> (report, [Msg ''identity sync is not configured''], s)
      | Some svc \<Rightarrow>
      case ss_users svc of None \<Rightarrow> (report, [Msg ''identity sync is not configured''], s)
      | Some listing \<Rightarrow>
        let report1 = report\<lparr>sr_email_verification := (if ss_directory svc = None then ''gitlab'' else ''feishu'')\<rparr> in
        case listing of Inl e \<Rightarrow> (report1, [Wrap ''list GitLab users'' e], s)
      | Inr users \<Rightarrow>
        let (report2, cs, emails) = collect (ss_domains svc) users (report1\<lparr>sr_gitlab_users := length users\<rparr>) in
        case found_addresses svc cs emails of
          Inl e \<Rightarrow> (report2, [Wrap ''lookup Feishu users by email'' e], s)
        | Inr found \<Rightarrow>
          (case sync_loop svc dry_run found 0 cs report2 s of
             (report3, ids, errs, s1) \<Rightarrow>
               if dry_run then (report3, errs, s1)
               else case ss_disable_except svc ProviderGitLab ids s1 of
                 (Inl e, s2) \<Rightarrow> (report3, errs @ [e], s2)
               | (Inr n, s2) \<Rightarrow> (report3\<lparr>sr_mappings_disabled := n\<rparr>, errs, s2)))"

text \<open>The constructor keeps the trimmed, lower-case domains that are not empty.\<close>

definition allowed_domains :: "string list \<Rightarrow> (string, unit) gomap" where
  "allowed_domains names =
     fold (\<lambda>name m. let d = to_lower (trim_space name) in if d \<noteq> [] then AList.update d () m else m) names []"

definition new_identity_sync_service ::
  "(user_record list res) option \<Rightarrow> (string list \<Rightarrow> (string, directory_user) gomap res) option
     \<Rightarrow> (nat \<Rightarrow> provider \<Rightarrow> identity \<Rightarrow> bool \<Rightarrow> 's \<Rightarrow> go_error option \<times> 's)
     \<Rightarrow> (provider \<Rightarrow> string list \<Rightarrow> 's \<Rightarrow> int res \<times> 's) \<Rightarrow> string list \<Rightarrow> 's sync_service" where
  "new_identity_sync_service users directory upsert_op disable_op names =
     \<lparr>ss_users = users, ss_directory = directory, ss_upsert = upsert_op,
      ss_disable_except = disable_op, ss_domains = allowed_domains names\<rparr>"

lemma allowed_domains_keys:
  "fst ` set (allowed_domains names) = (\<lambda>n. to_lower (trim_space n)) ` set names - {[]}"
proof -
  have "fst ` set (fold (\<lambda>name m. let d = to_lower (trim_space name)
      in if d \<noteq> [] then AList.update d () m else m) names m)
    = fst ` set m \<union> ((\<lambda>n. to_lower (trim_space n)) ` set names - {[]})" for m
    by (induction names arbitrary: m) (auto simp: Let_def dom_update)
  from this [of "[]"] show ?thesis by (simp add: allowed_domains_def)
qed

subsection \<open>Collecting the candidates\<close>

text \<open>The candidates are the users with a usable address in an allowed domain, in order.\<close>

definition user_email :: "user_record \<Rightarrow> string" where
  "user_email u = normalize_sync_email (i_email (ur_identity u))"

definition eligible :: "(string, unit) gomap \<Rightarrow> user_record \<Rightarrow> bool" where
  "eligible domains u \<longleftrightarrow> user_email u \<noteq> [] \<and> sync_allowed domains (user_email u)"

definition candidate_of :: "user_record \<Rightarrow> sync_candidate" where
  "candidate_of u = \<lparr>sc_identity = (ur_identity u)\<lparr>i_provider := ProviderGitLab, i_email := user_email u\<rparr>,
     sc_active = ur_active u, sc_email = user_email u\<rparr>"

lemma candidate_of_simps [simp]:
  "sc_email (candidate_of u) = user_email u" "sc_active (candidate_of u) = ur_active u"
  "i_provider_id (sc_identity (candidate_of u)) = i_provider_id (ur_identity u)"
  by (simp_all add: candidate_of_def)

lemma collect_candidates:
  "collect domains us report = (r, cs, es) \<Longrightarrow>
   cs = map candidate_of (filter (eligible domains) us) \<and> es = map sc_email (filter sc_active cs)"
  by (induction domains us report arbitrary: r cs es rule: collect.induct)
    (auto simp: eligible_def candidate_of_def user_email_def Let_def split: if_splits prod.splits)

lemma collect_counts:
  "collect domains us report = (r, cs, es) \<Longrightarrow>
   sr_eligible_users r = sr_eligible_users report + length cs
   \<and> length us + sr_eligible_users report + sr_skipped_no_email report + sr_skipped_domain report
       = sr_eligible_users r + sr_skipped_no_email r + sr_skipped_domain r
   \<and> sr_skipped_inactive r = sr_skipped_inactive report + length (filter (\<lambda>c. \<not> sc_active c) cs)
   \<and> sr_gitlab_users r = sr_gitlab_users report \<and> sr_mappings_considered r = sr_mappings_considered report
   \<and> sr_mappings_upserted r = sr_mappings_upserted report \<and> sr_mappings_enabled r = sr_mappings_enabled report"
proof (induction domains us report arbitrary: r cs es rule: collect.induct)
  case (2 domains u us report)
  let ?e = "normalize_sync_email (i_email (ur_identity u))"
  consider "?e = []" | "?e \<noteq> []" "\<not> sync_allowed domains ?e"
    | "?e \<noteq> []" "sync_allowed domains ?e" "ur_active u" | "?e \<noteq> []" "sync_allowed domains ?e" "\<not> ur_active u"
    by blast
  then show ?case
  proof cases
    case 1
    from 2(5) 1 2(1) [OF refl 1] show ?thesis by simp
  next
    case c: 2
    from 2(5) c 2(2) [OF refl c] show ?thesis by simp
  next
    case c: 3
    obtain r' cs' es' where t: "collect domains us (report\<lparr>sr_eligible_users := sr_eligible_users report + 1\<rparr>)
        = (r', cs', es')"
      using prod_cases3 by blast
    from 2(5) c t 2(3) [OF refl c(1) _ refl refl c(3) t] show ?thesis by (auto simp: Let_def)
  next
    case c: 4
    obtain r' cs' es' where t: "collect domains us (report\<lparr>sr_eligible_users := sr_eligible_users report + 1,
        sr_skipped_inactive := sr_skipped_inactive report + 1\<rparr>) = (r', cs', es')"
      using prod_cases3 by blast
    from 2(5) c t 2(4) [OF refl c(1) _ refl refl c(3), of r' cs' es'] show ?thesis by (auto simp: Let_def)
  qed
qed simp

subsection \<open>The loop over the candidates\<close>

definition enables :: "(string, directory_user) gomap \<Rightarrow> sync_candidate \<Rightarrow> bool" where
  "enables found c \<longleftrightarrow> sc_active c \<and> map_of found (sc_email c) \<noteq> None"

abbreviation pid :: "sync_candidate \<Rightarrow> string" where
  "pid c \<equiv> i_provider_id (sc_identity c)"

text \<open>Every candidate is counted once; each that is not upserted leaves an error.\<close>

lemma sync_loop_counts:
  "sync_loop svc dry_run found n cs report s = (r, ids, errs, s') \<Longrightarrow>
   sr_mappings_considered r = sr_mappings_considered report + length cs
   \<and> sr_mappings_upserted r + length errs
       = sr_mappings_upserted report + (if dry_run then 0 else length cs)
   \<and> sr_mappings_enabled r + sr_mappings_upserted report \<le> sr_mappings_upserted r + sr_mappings_enabled report
   \<and> sr_feishu_users_found r = sr_feishu_users_found report
       + (if ss_directory svc = None then 0 else length (filter (enables found) cs))
   \<and> sr_eligible_users r = sr_eligible_users report \<and> sr_gitlab_users r = sr_gitlab_users report
   \<and> sr_skipped_no_email r = sr_skipped_no_email report \<and> sr_skipped_domain r = sr_skipped_domain report
   \<and> sr_skipped_inactive r = sr_skipped_inactive report
   \<and> set ids \<subseteq> pid ` set (filter (enables found) cs) - {[]}
   \<and> (dry_run \<longrightarrow> s' = s \<and> errs = [])"
proof (induction cs arbitrary: n report s r ids errs s')
  case (Cons c cs)
  show ?case
  proof (cases dry_run)
    case True
    with Cons.prems have "sync_loop svc dry_run found n cs (report
            \<lparr>sr_feishu_users_found := sr_feishu_users_found report
               + (if sc_active c \<and> map_of found (sc_email c) \<noteq> None \<and> ss_directory svc \<noteq> None then 1 else 0),
             sr_mappings_considered := sr_mappings_considered report + 1\<rparr>) s = (r, ids, errs, s')"
      by (simp add: Let_def)
    from Cons.IH [OF this] True show ?thesis by (auto simp: enables_def)
  next
    case False
    obtain e s1 where u: "ss_upsert svc n ProviderGitLab (sc_identity c) (enables found c) s = (e, s1)"
      by fastforce
    show ?thesis
    proof (cases e)
      case None
      let ?rep = "report
            \<lparr>sr_feishu_users_found := sr_feishu_users_found report
               + (if sc_active c \<and> map_of found (sc_email c) \<noteq> None \<and> ss_directory svc \<noteq> None then 1 else 0),
             sr_mappings_considered := sr_mappings_considered report + 1,
             sr_mappings_upserted := sr_mappings_upserted report + 1,
             sr_mappings_enabled := sr_mappings_enabled report + (if enables found c then 1 else 0)\<rparr>"
      obtain ids' where t: "sync_loop svc dry_run found (Suc n) cs ?rep s1 = (r, ids', errs, s')"
        "ids = (if enables found c \<and> pid c \<noteq> [] then [pid c] else []) @ ids'"
        using Cons.prems False u None by (auto simp: Let_def enables_def split: prod.splits)
      show ?thesis
        using Cons.IH [OF t(1)] False unfolding t(2) by (auto simp: enables_def)
    next
      case (Some err)
      let ?rep = "report
            \<lparr>sr_feishu_users_found := sr_feishu_users_found report
               + (if sc_active c \<and> map_of found (sc_email c) \<noteq> None \<and> ss_directory svc \<noteq> None then 1 else 0),
             sr_mappings_considered := sr_mappings_considered report + 1\<rparr>"
      obtain errs' where t: "sync_loop svc dry_run found (Suc n) cs ?rep s1 = (r, ids, errs', s')"
        "length errs = Suc (length errs')"
        using Cons.prems False u Some by (auto simp: Let_def enables_def split: prod.splits)
      show ?thesis
        using Cons.IH [OF t(1)] False unfolding t(2) by (auto simp: enables_def)
    qed
  qed
qed simp

subsection \<open>The run as a whole\<close>

text \<open>What the directory answers for the users of one listing, and the users it verifies.\<close>

definition sync_found :: "'s sync_service \<Rightarrow> user_record list \<Rightarrow> (string, directory_user) gomap res" where
  "sync_found svc us =
     (let cs = map candidate_of (filter (eligible (ss_domains svc)) us)
      in found_addresses svc cs (map sc_email (filter sc_active cs)))"

definition wanted :: "'s sync_service \<Rightarrow> (string, directory_user) gomap \<Rightarrow> user_record list \<Rightarrow> string set" where
  "wanted svc found us = (\<lambda>u. i_provider_id (ur_identity u)) `
     set (filter (\<lambda>u. eligible (ss_domains svc) u \<and> ur_active u \<and> map_of found (user_email u) \<noteq> None) us) - {[]}"

lemma wanted_candidates:
  "pid ` set (filter (enables found) (map candidate_of (filter (eligible (ss_domains svc)) us))) - {[]}
   = wanted svc found us"
  by (simp add: wanted_def enables_def filter_map comp_def image_image conj_ac)

text \<open>Without a directory every active candidate counts as found.\<close>

lemma found_active_iff:
  "map_of (found_active cs) e \<noteq> None \<longleftrightarrow> e \<in> sc_email ` set (filter sc_active cs)"
proof -
  have "map_of (fold (\<lambda>c. AList.update (sc_email c) \<lparr>du_email = sc_email c, du_id = []\<rparr>) xs m) e \<noteq> None
    \<longleftrightarrow> map_of m e \<noteq> None \<or> e \<in> sc_email ` set xs" for xs m
    by (induction xs arbitrary: m) (auto simp: update_conv)
  from this [of "filter sc_active cs" "[]"] show ?thesis by (simp add: found_active_def)
qed

text \<open>
  The run is the loop over the candidates of the listing, followed by \<open>DisableExcept\<close> unless
  it is a dry run; a missing answer of either system ends it before it writes.
\<close>

lemma sync_cases:
  assumes "sync (Some svc) dry_run s = (report, errs, s')"
  obtains (unanswered) "s' = s" "errs \<noteq> []" "sr_mappings_considered report = 0" "sr_mappings_upserted report = 0"
      "sr_mappings_enabled report = 0" "sr_skipped_inactive report \<le> sr_eligible_users report"
      "sr_gitlab_users report = sr_eligible_users report + sr_skipped_no_email report + sr_skipped_domain report"
      "ss_users svc = None \<or> (\<exists>e. ss_users svc = Some (Inl e)) \<or> (\<exists>us e. ss_users svc = Some (Inr us) \<and> sync_found svc us = Inl e)"
  | (ran) us found report0 report1 ids errs1 s1 where "ss_users svc = Some (Inr us)" "sync_found svc us = Inr found"
      "collect (ss_domains svc) us ((new_report dry_run)\<lparr>sr_email_verification :=
          (if ss_directory svc = None then ''gitlab'' else ''feishu''), sr_gitlab_users := length us\<rparr>)
        = (report0, map candidate_of (filter (eligible (ss_domains svc)) us),
           map sc_email (filter sc_active (map candidate_of (filter (eligible (ss_domains svc)) us))))"
      "sync_loop svc dry_run found 0 (map candidate_of (filter (eligible (ss_domains svc)) us)) report0 s
        = (report1, ids, errs1, s1)"
      "if dry_run then report = report1 \<and> errs = errs1 \<and> s' = s1
       else \<exists>result. ss_disable_except svc ProviderGitLab ids s1 = (result, s')
         \<and> (case result of Inl e \<Rightarrow> errs = errs1 @ [e] \<and> report = report1
            | Inr n \<Rightarrow> errs = errs1 \<and> report = report1\<lparr>sr_mappings_disabled := n\<rparr>)"
proof (cases "ss_users svc")
  case None
  with assms show ?thesis by (intro unanswered) (auto simp: sync_def new_report_def)
next
  case (Some listing)
  show ?thesis
  proof (cases listing)
    case (Inl e)
    with assms Some show ?thesis by (intro unanswered) (auto simp: sync_def new_report_def)
  next
    case (Inr us)
    let ?rep = "(new_report dry_run)\<lparr>sr_email_verification :=
          (if ss_directory svc = None then ''gitlab'' else ''feishu''), sr_gitlab_users := length us\<rparr>"
    obtain report0 cs es where c: "collect (ss_domains svc) us ?rep = (report0, cs, es)"
      using prod_cases3 by blast
    note cs = collect_candidates [OF c] and counts = collect_counts [OF c]
    have found: "sync_found svc us = found_addresses svc cs es"
      using cs by (simp add: sync_found_def Let_def)
    show ?thesis
    proof (cases "found_addresses svc cs es")
      case (Inl e)
      with assms Some Inr c counts found show ?thesis
        by (intro unanswered) (auto simp: sync_def new_report_def)
    next
      case f: (Inr m)
      obtain report1 ids errs1 s1 where l: "sync_loop svc dry_run m 0 cs report0 s = (report1, ids, errs1, s1)"
        using prod_cases4 by blast
      from assms Some Inr c f l have "if dry_run then report = report1 \<and> errs = errs1 \<and> s' = s1
         else \<exists>result. ss_disable_except svc ProviderGitLab ids s1 = (result, s')
           \<and> (case result of Inl e \<Rightarrow> errs = errs1 @ [e] \<and> report = report1
              | Inr n \<Rightarrow> errs = errs1 \<and> report = report1\<lparr>sr_mappings_disabled := n\<rparr>)"
        by (auto simp: sync_def split: prod.splits sum.splits)
      with ran [of us m report0 report1 ids errs1 s1] Some Inr f c l found cs show ?thesis by metis
    qed
  qed
qed

subsection \<open>The store behind the service\<close>

text \<open>
  What the service relies on: \<open>active\<close> are the provider ids of the enabled mappings; an
  upsert sets whether its own id is among them and no other, \<open>DisableExcept\<close> keeps the listed.
\<close>

locale sync_store =
  fixes svc :: "'s sync_service" and inv :: "'s \<Rightarrow> bool" and active :: "'s \<Rightarrow> string set"
  assumes upsert_keeps: "inv s \<Longrightarrow> ss_upsert svc n ProviderGitLab i en s = (e, s') \<Longrightarrow> inv s'"
    and upsert_sets: "inv s \<Longrightarrow> i_provider_id i \<noteq> [] \<Longrightarrow> ss_upsert svc n ProviderGitLab i en s = (None, s')
      \<Longrightarrow> active s' = (active s - {i_provider_id i}) \<union> (if en then {i_provider_id i} else {})"
    and disable_keeps: "inv s \<Longrightarrow> ss_disable_except svc ProviderGitLab ids s = (result, s') \<Longrightarrow> inv s'"
    and disable_sets: "inv s \<Longrightarrow> ss_disable_except svc ProviderGitLab ids s = (Inr disabled, s')
      \<Longrightarrow> active s' = active s \<inter> set ids"
begin

lemma loop_inv:
  "inv s \<Longrightarrow> sync_loop svc dry_run found n cs report s = (r, ids, errs, s') \<Longrightarrow> inv s'"
  by (induction cs arbitrary: n report s r ids errs)
    (fastforce simp: Let_def split: if_splits prod.splits option.splits dest: upsert_keeps)+

lemma loop_active:
  "inv s \<Longrightarrow> list_all (\<lambda>c. pid c \<noteq> []) cs \<Longrightarrow> distinct (map pid cs) \<Longrightarrow>
   sync_loop svc False found n cs report s = (r, ids, [], s') \<Longrightarrow>
   set ids = pid ` set (filter (enables found) cs) \<and> active s' = (active s - pid ` set cs) \<union> set ids"
proof (induction cs arbitrary: n report s r ids)
  case (Cons c cs)
  obtain e s1 where u: "ss_upsert svc n ProviderGitLab (sc_identity c) (enables found c) s = (e, s1)"
    by fastforce
  from Cons.prems(4) u have e: "e = None"
    by (auto simp: Let_def enables_def split: prod.splits option.splits)
  obtain report1 ids' where t: "sync_loop svc False found (Suc n) cs report1 s1 = (r, ids', [], s')"
    "ids = (if enables found c \<and> pid c \<noteq> [] then [pid c] else []) @ ids'"
    using Cons.prems(4) u e by (auto simp: Let_def enables_def split: prod.splits)
  have s1: "inv s1" "active s1 = (active s - {pid c}) \<union> (if enables found c then {pid c} else {})"
    using upsert_keeps [OF Cons.prems(1) u] upsert_sets [OF Cons.prems(1) _ u [unfolded e]] Cons.prems(2) by auto
  from Cons.IH [OF s1(1) _ _ t(1)] Cons.prems(2,3)
  have IH: "set ids' = pid ` set (filter (enables found) cs)" "active s' = (active s1 - pid ` set cs) \<union> set ids'"
    by auto
  have "pid c \<noteq> []" "pid c \<notin> pid ` set cs" using Cons.prems(2,3) by auto
  then show ?case unfolding t(2) IH(2) s1(2) using IH(1) by auto
qed simp

text \<open>A run keeps the invariant; after one without an error only wanted users are enabled.\<close>

lemma sync_keeps: "inv s \<Longrightarrow> sync (Some svc) dry_run s = (report, errs, s') \<Longrightarrow> inv s'"
proof -
  assume inv: "inv s" and run: "sync (Some svc) dry_run s = (report, errs, s')"
  from run show "inv s'"
  proof (cases rule: sync_cases)
    case (ran us found report0 report1 ids errs1 s1)
    note s1 = loop_inv [OF inv ran(4)]
    show ?thesis
    proof (cases dry_run)
      case False
      then obtain result where "ss_disable_except svc ProviderGitLab ids s1 = (result, s')" using ran(5) by auto
      then show ?thesis by (rule disable_keeps [OF s1])
    qed (use ran(5) s1 in simp)
  qed (use inv in simp)
qed

lemma sync_active:
  assumes "inv s" "sync (Some svc) False s = (report, [], s')"
  obtains us found where "ss_users svc = Some (Inr us)" "sync_found svc us = Inr found" "active s' \<subseteq> wanted svc found us"
    "list_all (\<lambda>u. i_provider_id (ur_identity u) \<noteq> []) us \<Longrightarrow> distinct (map (\<lambda>u. i_provider_id (ur_identity u)) us)
      \<Longrightarrow> active s' = wanted svc found us"
  using assms(2)
proof (cases rule: sync_cases)
  case (ran us found report0 report1 ids errs1 s1)
  let ?cs = "map candidate_of (filter (eligible (ss_domains svc)) us)"
  note s1 = loop_inv [OF assms(1) ran(4)]
  obtain result where result: "ss_disable_except svc ProviderGitLab ids s1 = (result, s')"
    "case result of Inl e \<Rightarrow> [] = errs1 @ [e] \<and> report = report1
     | Inr n \<Rightarrow> [] = errs1 \<and> report = report1\<lparr>sr_mappings_disabled := n\<rparr>"
    using ran(5) by auto
  obtain k where d: "ss_disable_except svc ProviderGitLab ids s1 = (Inr k, s')" and errs1: "errs1 = []"
    using result by (cases result) auto
  have act: "active s' = active s1 \<inter> set ids" by (rule disable_sets [OF s1 d])
  have "set ids \<subseteq> pid ` set (filter (enables found) ?cs) - {[]}"
    using sync_loop_counts [OF ran(4)] by blast
  then have sub: "set ids \<subseteq> wanted svc found us" unfolding wanted_candidates .
  show ?thesis
  proof (rule that [OF ran(1,2)])
    show "active s' \<subseteq> wanted svc found us" using act sub by blast
    assume ok: "list_all (\<lambda>u. i_provider_id (ur_identity u) \<noteq> []) us"
      and d: "distinct (map (\<lambda>u. i_provider_id (ur_identity u)) us)"
    have m: "map pid ?cs = map (\<lambda>u. i_provider_id (ur_identity u)) (filter (eligible (ss_domains svc)) us)"
      by simp
    have "list_all (\<lambda>c. pid c \<noteq> []) ?cs" "distinct (map pid ?cs)"
      using ok d unfolding m by (auto simp: list_all_iff intro: distinct_map_filter)
    from loop_active [OF assms(1) this ran(4) [unfolded errs1]]
    have "set ids = pid ` set (filter (enables found) ?cs)" "active s1 = (active s - pid ` set ?cs) \<union> set ids"
      by auto
    moreover have "pid ` set (filter (enables found) ?cs) - {[]} = pid ` set (filter (enables found) ?cs)"
      using ok by (auto simp: list_all_iff)
    ultimately show "active s' = wanted svc found us"
      using act wanted_candidates [of found svc us] by auto
  qed
qed simp

end

text \<open>The SQLite store behind the service; every call of it has its own faults.\<close>

definition sqlite_sync ::
  "(nat \<Rightarrow> fault) \<Rightarrow> fault \<Rightarrow> time \<Rightarrow> (user_record list res) option
     \<Rightarrow> (string list \<Rightarrow> (string, directory_user) gomap res) option \<Rightarrow> string list \<Rightarrow> db sync_service" where
  "sqlite_sync faults g now users directory names =
     new_identity_sync_service users directory (\<lambda>n. upsert (faults n) now) (disable_except g now) names"

lemma sqlite_sync_simps [simp]:
  "ss_users (sqlite_sync faults g now users directory names) = users"
  "ss_directory (sqlite_sync faults g now users directory names) = directory"
  "ss_upsert (sqlite_sync faults g now users directory names) = (\<lambda>n. upsert (faults n) now)"
  "ss_disable_except (sqlite_sync faults g now users directory names) = disable_except g now"
  "ss_domains (sqlite_sync faults g now users directory names) = allowed_domains names"
  by (simp_all add: sqlite_sync_def new_identity_sync_service_def)

text \<open>The provider ids of the enabled mappings.\<close>

definition active_ids :: "db \<Rightarrow> string set" where
  "active_ids db = ir_provider_id ` set (filter (\<lambda>r. ir_enabled r \<and> ir_provider r = ProviderGitLab)
     (db_identities db)) - {[]}"

lemma in_active_ids:
  "a \<in> active_ids db \<longleftrightarrow> a \<noteq> [] \<and> (\<exists>r \<in> set (db_identities db).
     ir_enabled r \<and> ir_provider r = ProviderGitLab \<and> ir_provider_id r = a)"
  by (auto simp: active_ids_def)

lemma only_row_of_id:
  assumes "identity_inv db" "r \<in> set (db_identities db)" "q \<in> set (db_identities db)"
    "ir_provider r = ir_provider q" "ir_provider_id r = ir_provider_id q" "ir_provider_id q \<noteq> []"
  shows "ir_id r = ir_id q"
proof -
  have "\<forall>r \<in> set (db_identities db). \<forall>s \<in> set (db_identities db). same_key ir_provider_id r s \<longrightarrow> ir_id r = ir_id s"
    using assms(1) unique_on_iff [of "db_identities db" ir_provider_id]
    by (simp add: identity_inv_def unique_identities_def)
  moreover have "same_key ir_provider_id r q" using assms(4-6) by (simp add: same_key_def)
  ultimately show ?thesis using assms(2,3) by blast
qed

lemma updated_rows:
  assumes "distinct (map ir_id rows)" "r \<in> set rows"
  shows "q \<in> set (map (\<lambda>x. if ir_id x = ir_id r then g x else x) rows) \<longleftrightarrow> q = g r \<or> q \<in> set rows \<and> ir_id q \<noteq> ir_id r"
proof
  assume "q \<in> set (map (\<lambda>x. if ir_id x = ir_id r then g x else x) rows)"
  then obtain x where x: "x \<in> set rows" "q = (if ir_id x = ir_id r then g x else x)" by auto
  have "x = r" if "ir_id x = ir_id r"
    using map_fst_eq_same [OF assms(1) x(1) assms(2) that] .
  with x show "q = g r \<or> q \<in> set rows \<and> ir_id q \<noteq> ir_id r" by auto
next
  assume "q = g r \<or> q \<in> set rows \<and> ir_id q \<noteq> ir_id r"
  then show "q \<in> set (map (\<lambda>x. if ir_id x = ir_id r then g x else x) rows)"
  proof
    assume "q = g r"
    then show ?thesis using assms(2) by (auto intro!: image_eqI [of _ _ r])
  next
    assume "q \<in> set rows \<and> ir_id q \<noteq> ir_id r"
    then show ?thesis by (auto intro!: image_eqI [of _ _ q])
  qed
qed

text \<open>
  Of the rows of a table, one is rewritten to carry a provider id, which no other row has then:
  the enabled ids change at this id only.
\<close>

lemma active_ids_write:
  assumes rows: "\<And>q. q \<in> set (db_identities db') \<longleftrightarrow> q = new \<or> q \<in> set (db_identities db) \<and> ir_id q \<noteq> ir_id new"
    and old: "\<And>q. q \<in> set (db_identities db) \<Longrightarrow> ir_id q = ir_id new \<Longrightarrow> ir_provider_id q \<in> {[], ir_provider_id new}"
    and inv: "identity_inv db'" and new: "ir_provider new = ProviderGitLab" "ir_provider_id new \<noteq> []"
  shows "active_ids db' = (active_ids db - {ir_provider_id new}) \<union> (if ir_enabled new then {ir_provider_id new} else {})"
proof (rule set_eqI)
  fix a
  let ?p = "ir_provider_id new"
  let ?on = "\<lambda>q. ir_enabled q \<and> ir_provider q = ProviderGitLab \<and> ir_provider_id q = a"
  have other: "ir_provider_id q \<noteq> ?p"
    if q: "q \<in> set (db_identities db)" "ir_id q \<noteq> ir_id new" "ir_provider q = ProviderGitLab" for q
  proof
    assume "ir_provider_id q = ?p"
    then have "ir_id q = ir_id new"
      using only_row_of_id [OF inv, of q new] rows q new by metis
    with q(2) show False by simp
  qed
  have "a \<in> active_ids db' \<longleftrightarrow> a \<noteq> [] \<and> (ir_enabled new \<and> a = ?p \<or> (\<exists>q \<in> set (db_identities db). ir_id q \<noteq> ir_id new \<and> ?on q))"
    unfolding in_active_ids Bex_def rows using new(1) by auto
  also have "\<dots> \<longleftrightarrow> a \<noteq> [] \<and> (ir_enabled new \<and> a = ?p \<or> a \<noteq> ?p \<and> (\<exists>q \<in> set (db_identities db). ?on q))"
    using old other by blast
  also have "\<dots> \<longleftrightarrow> a \<in> (active_ids db - {?p}) \<union> (if ir_enabled new then {?p} else {})"
    using new(2) by (auto simp: in_active_ids)
  finally show "a \<in> active_ids db' \<longleftrightarrow> a \<in> (active_ids db - {?p}) \<union> (if ir_enabled new then {?p} else {})" .
qed

lemma upsert_active:
  assumes inv: "identity_inv db" and id: "i_provider_id i \<noteq> []"
    and up: "upsert f now ProviderGitLab i en db = (None, db')"
  shows "active_ids db' = (active_ids db - {i_provider_id i}) \<union> (if en then {i_provider_id i} else {})"
proof -
  have p: "i_provider_id (normalized_identity i) = i_provider_id i" by (simp add: normalized_identity_def)
  have d: "distinct (map ir_id (db_identities db))" using inv by (simp add: identity_inv_def)
  from up show ?thesis
  proof (cases rule: upsert_write [OF inv up refl])
    case (2 r)
    let ?new = "set_identity (normalized_identity i) en (format_timestamp now) r"
    have new: "ir_provider ?new = ProviderGitLab" "ir_provider_id ?new = i_provider_id i" "ir_enabled ?new = en" "ir_id ?new = ir_id r"
      using 2(4) p by (simp_all add: set_identity_row_for row_for_def)
    have rows: "q \<in> set (db_identities db') \<longleftrightarrow> q = ?new \<or> q \<in> set (db_identities db) \<and> ir_id q \<noteq> ir_id ?new" for q
      using updated_rows [OF d 2(3), of q] unfolding 2(5) new(4) by simp
    have old: "ir_provider_id q \<in> {[], ir_provider_id ?new}" if "q \<in> set (db_identities db)" "ir_id q = ir_id ?new" for q
      using 2(7) id p map_fst_eq_same [OF d that(1) 2(3)] that(2) new by simp
    show ?thesis using active_ids_write [OF rows old 2(6) new(1)] id unfolding new(2,3) by blast
  next
    case 3
    let ?new = "row_for (db_next_identity_id db) ProviderGitLab (normalized_identity i) en (format_timestamp now)"
    have new: "ir_provider ?new = ProviderGitLab" "ir_provider_id ?new = i_provider_id i" "ir_enabled ?new = en"
      "ir_id ?new = db_next_identity_id db"
      using p by (simp_all add: row_for_def)
    have fresh: "ir_id q \<noteq> ir_id ?new" if "q \<in> set (db_identities db)" for q
      using inv that unfolding new(4) by (auto simp: identity_inv_def identity_row_ok_def)
    have rows: "q \<in> set (db_identities db') \<longleftrightarrow> q = ?new \<or> q \<in> set (db_identities db) \<and> ir_id q \<noteq> ir_id ?new" for q
      using fresh unfolding 3(3) by auto
    have old: "ir_provider_id q \<in> {[], ir_provider_id ?new}" if "q \<in> set (db_identities db)" "ir_id q = ir_id ?new" for q
      using fresh that by blast
    show ?thesis using active_ids_write [OF rows old 3(4) new(1)] id unfolding new(2,3) by blast
  qed simp
qed

lemma disable_except_rows:
  assumes "disable_except f now p ids db = (result, db')"
  shows "db' = db \<or> db' = db\<lparr>db_identities := map (\<lambda>r. if ir_provider r = p \<and> ir_provider_id r \<notin> set ids
    then r\<lparr>ir_enabled := False, ir_updated_at := format_timestamp now\<rparr> else r) (db_identities db)\<rparr>"
    "result = Inr n \<Longrightarrow> db_identities db' = map (\<lambda>r. if ir_provider r = p \<and> ir_provider_id r \<notin> set ids
    then r\<lparr>ir_enabled := False, ir_updated_at := format_timestamp now\<rparr> else r) (db_identities db)"
  using assms unfolding disable_except_def Let_def
  by (cases "f 0"; cases "f 1"; auto)+

lemma identity_inv_map:
  assumes "identity_inv db" "\<And>r. ir_id (g r) = ir_id r" "\<And>r. ir_provider (g r) = ir_provider r"
    "\<And>r. ir_provider_id (g r) = ir_provider_id r" "\<And>r. ir_username (g r) = ir_username r"
    "\<And>r. ir_email (g r) = ir_email r"
  shows "identity_inv (db\<lparr>db_identities := map g (db_identities db)\<rparr>)"
  using assms(1) unfolding identity_inv_def unique_identities_def unique_on_def identity_row_ok_def
  by (simp add: comp_def filter_map assms(2-6))

lemma disable_except_inv:
  assumes "identity_inv db" "disable_except f now p ids db = (result, db')"
  shows "identity_inv db'"
  using disable_except_rows(1) [OF assms(2)] assms(1) identity_inv_map [OF assms(1),
      of "\<lambda>r. if ir_provider r = p \<and> ir_provider_id r \<notin> set ids
        then r\<lparr>ir_enabled := False, ir_updated_at := format_timestamp now\<rparr> else r"]
  by fastforce

lemma disable_except_active:
  assumes "disable_except f now ProviderGitLab ids db = (Inr n, db')"
  shows "active_ids db' = active_ids db \<inter> set ids"
proof -
  let ?m = "\<lambda>r. if ir_provider r = ProviderGitLab \<and> ir_provider_id r \<notin> set ids
    then r\<lparr>ir_enabled := False, ir_updated_at := format_timestamp now\<rparr> else r"
  have m: "ir_enabled (?m r) \<and> ir_provider (?m r) = ProviderGitLab \<and> ir_provider_id (?m r) = a
    \<longleftrightarrow> (ir_enabled r \<and> ir_provider r = ProviderGitLab \<and> ir_provider_id r = a) \<and> a \<in> set ids" for r a
    by auto
  have "db_identities db' = map ?m (db_identities db)"
    by (rule disable_except_rows(2) [OF assms refl])
  then have ex: "(\<exists>r \<in> set (db_identities db'). P r) \<longleftrightarrow> (\<exists>r \<in> set (db_identities db). P (?m r))" for P
    by (simp only: set_map Bex_def image_iff) blast
  show ?thesis
  proof (rule set_eqI)
    fix a
    show "a \<in> active_ids db' \<longleftrightarrow> a \<in> active_ids db \<inter> set ids"
      unfolding in_active_ids Int_iff ex m by blast
  qed
qed

interpretation sqlite_ids: sync_store "sqlite_sync faults g now users directory names" identity_inv active_ids
  apply unfold_locales
  unfolding sqlite_sync_simps
  apply (erule (1) upsert_inv)
  apply (erule (2) upsert_active)
  apply (erule (1) disable_except_inv)
  apply (erule disable_except_active)
  done

subsection \<open>Properties\<close>

lemma sync_counts:
  assumes "sync (Some svc) dry_run s = (report, errs, s')"
  shows "sr_gitlab_users report = sr_eligible_users report + sr_skipped_no_email report + sr_skipped_domain report
    \<and> sr_skipped_inactive report \<le> sr_eligible_users report
    \<and> sr_mappings_considered report \<in> {0, sr_eligible_users report}
    \<and> sr_mappings_enabled report \<le> sr_mappings_upserted report
    \<and> (if dry_run then s' = s \<and> sr_mappings_upserted report = 0
       else sr_mappings_upserted report \<le> sr_mappings_considered report
         \<and> sr_mappings_considered report \<le> sr_mappings_upserted report + length errs)"
  using assms
proof (cases rule: sync_cases)
  case (ran us found report0 report1 ids errs1 s1)
  note c = collect_counts [OF ran(3)] and l = sync_loop_counts [OF ran(4)]
  have inactive: "sr_skipped_inactive report0 \<le> sr_eligible_users report0"
    using c length_filter_le [of "\<lambda>c. \<not> sc_active c" "map candidate_of (filter (eligible (ss_domains svc)) us)"]
    by (simp add: new_report_def)
  show ?thesis
  proof (cases dry_run)
    case True
    then show ?thesis using c l ran(5) inactive by (simp add: new_report_def)
  next
    case False
    then obtain result where "case result of Inl e \<Rightarrow> errs = errs1 @ [e] \<and> report = report1
        | Inr n \<Rightarrow> errs = errs1 \<and> report = report1\<lparr>sr_mappings_disabled := n\<rparr>"
      using ran(5) by auto
    then have "length errs1 \<le> length errs \<and> (\<exists>n. report = report1\<lparr>sr_mappings_disabled := n\<rparr>)"
      by (cases result) (auto intro: exI [of _ "sr_mappings_disabled report1"])
    then obtain n where r: "report = report1\<lparr>sr_mappings_disabled := n\<rparr>" "length errs1 \<le> length errs" by blast
    show ?thesis unfolding r(1) using c l r(2) False inactive by (simp add: new_report_def)
  qed
qed auto

definition colleague :: "string \<Rightarrow> string \<Rightarrow> bool \<Rightarrow> user_record" where
  "colleague user_id email active = \<lparr>ur_identity = \<lparr>i_provider = [], i_provider_id = user_id,
     i_username = user_id, i_email = email, i_name = []\<rparr>, ur_active = active\<rparr>"

definition staff :: "user_record list" where
  "staff = [colleague ''1'' ''Ann@example.com'' True, colleague ''2'' ''bob@example.com'' False,
     colleague ''3'' ''noreply@example.com'' True, colleague ''4'' ''dan@other.org'' True]"

definition staff_directory :: "string list \<Rightarrow> (string, directory_user) gomap res" where
  "staff_directory emails = Inr (map (\<lambda>e. (e, \<lparr>du_email = e, du_id = ''ou_'' @ e\<rparr>)) emails)"

definition staff_sync :: "db sync_service" where
  "staff_sync = sqlite_sync (\<lambda>_. no_fault) no_fault 0 (Some (Inr staff)) (Some staff_directory) [''Example.com'']"

text \<open>C20: after a synchronisation that reports no error the enabled GitLab mappings are exactly the
  active users with a usable address in an allowed domain that the directory confirms,
  provided the listing gives every user an id of its own; whoever left is disabled.\<close>

theorem sync_mirrors_directory:
  assumes "identity_inv db" "list_all (\<lambda>u. i_provider_id (ur_identity u) \<noteq> []) us"
    "distinct (map (\<lambda>u. i_provider_id (ur_identity u)) us)"
    "sync (Some (sqlite_sync faults g now (Some (Inr us)) directory names)) False db = (report, [], db')"
  shows "\<exists>found. sync_found (sqlite_sync faults g now (Some (Inr us)) directory names) us = Inr found
    \<and> active_ids db' = wanted (sqlite_sync faults g now (Some (Inr us)) directory names) found us"
proof -
  obtain us' found where "ss_users (sqlite_sync faults g now (Some (Inr us)) directory names) = Some (Inr us')"
    and f: "sync_found (sqlite_sync faults g now (Some (Inr us)) directory names) us' = Inr found"
    and w: "list_all (\<lambda>u. i_provider_id (ur_identity u) \<noteq> []) us' \<Longrightarrow> distinct (map (\<lambda>u. i_provider_id (ur_identity u)) us')
      \<Longrightarrow> active_ids db' = wanted (sqlite_sync faults g now (Some (Inr us)) directory names) found us'"
    using sqlite_ids.sync_active [OF assms(1,4)] by metis
  then have "us' = us" by simp
  with f w assms(2,3) show ?thesis by blast
qed

theorem sync_mirrors_directory_witness:
  "active_ids (snd (snd (sync (Some staff_sync) False with_bob))) = {''1''}"
proof -
  let ?r = "sync (Some staff_sync) False with_bob"
  have "fst (snd ?r) = []" by code_simp
  then have r: "sync (Some (sqlite_sync (\<lambda>_. no_fault) no_fault 0 (Some (Inr staff)) (Some staff_directory) [''Example.com'']))
      False with_bob = (fst ?r, [], snd (snd ?r))"
    by (simp add: staff_sync_def prod_eq_iff)
  have inv: "identity_inv with_bob"
    unfolding with_bob_def by (rule upsert_inv [OF identity_inv_empty prod.collapse [symmetric]])
  have us: "list_all (\<lambda>u. i_provider_id (ur_identity u) \<noteq> []) staff"
    "distinct (map (\<lambda>u. i_provider_id (ur_identity u)) staff)" by code_simp+
  from sync_mirrors_directory [OF inv us r, folded staff_sync_def]
  obtain found where f: "sync_found staff_sync staff = Inr found"
    "active_ids (snd (snd ?r)) = wanted staff_sync found staff"
    by blast
  have "sync_found staff_sync staff = staff_directory [''ann@example.com'']" by code_simp
  with f(1) have "found = [(''ann@example.com'', \<lparr>du_email = ''ann@example.com'', du_id = ''ou_ann@example.com''\<rparr>)]"
    by (simp add: staff_directory_def)
  moreover have "wanted staff_sync [(''ann@example.com'', \<lparr>du_email = ''ann@example.com'', du_id = ''ou_ann@example.com''\<rparr>)] staff
    = {''1''}" by code_simp
  ultimately show ?thesis using f(2) by simp
qed

text \<open>The report of a synchronisation adds up: every user of the listing is eligible or skipped
  for one reason; every eligible user is considered (unless a system did not answer) and is
  then upserted or leaves an error; a dry run considers the same users and writes nothing.\<close>

theorem sync_report_adds_up:
  assumes "sync (Some svc) dry_run s = (report, errs, s')"
  shows "sr_gitlab_users report = sr_eligible_users report + sr_skipped_no_email report + sr_skipped_domain report
    \<and> sr_skipped_inactive report \<le> sr_eligible_users report
    \<and> sr_mappings_considered report \<in> {0, sr_eligible_users report}
    \<and> sr_mappings_enabled report \<le> sr_mappings_upserted report
    \<and> (if dry_run then s' = s \<and> sr_mappings_upserted report = 0
       else sr_mappings_upserted report \<le> sr_mappings_considered report
         \<and> sr_mappings_considered report \<le> sr_mappings_upserted report + length errs)"
  using assms by (rule sync_counts)

theorem sync_report_adds_up_witness:
  "sr_gitlab_users (fst (sync (Some staff_sync) False with_bob)) = 4
   \<and> sr_eligible_users (fst (sync (Some staff_sync) False with_bob))
     + sr_skipped_no_email (fst (sync (Some staff_sync) False with_bob))
     + sr_skipped_domain (fst (sync (Some staff_sync) False with_bob)) = 4"
proof -
  let ?r = "sync (Some staff_sync) False with_bob"
  have "sr_gitlab_users (fst ?r) = 4" by code_simp
  with sync_report_adds_up [of staff_sync False with_bob "fst ?r" "fst (snd ?r)" "snd (snd ?r)"] show ?thesis by simp
qed

text \<open>C21: an outage disables nobody: if the GitLab listing or the lookup in the directory fails, the
  synchronisation reports an error and leaves the store as it was.\<close>

theorem outage_disables_nobody:
  assumes "ss_users svc = Some (Inl e) \<or> (\<exists>us. ss_users svc = Some (Inr us) \<and> sync_found svc us = Inl e)"
  shows "fst (snd (sync (Some svc) dry_run s)) \<noteq> [] \<and> snd (snd (sync (Some svc) dry_run s)) = s"
proof -
  obtain report errs s' where r: "sync (Some svc) dry_run s = (report, errs, s')"
    using prod_cases3 by blast
  then show ?thesis
    by (cases rule: sync_cases) (use assms r in auto)
qed

theorem outage_disables_nobody_witness:
  "snd (snd (sync (Some (sqlite_sync (\<lambda>_. no_fault) no_fault 0 (Some (Inr staff)) (Some (\<lambda>_. Inl Canceled)) []))
     False with_bob)) = with_bob"
proof -
  let ?svc = "sqlite_sync (\<lambda>_. no_fault) no_fault 0 (Some (Inr staff)) (Some (\<lambda>_. Inl Canceled)) []"
  have "ss_users ?svc = Some (Inr staff) \<and> sync_found ?svc staff = Inl Canceled"
    by (simp add: sync_found_def found_addresses_def)
  then show ?thesis using outage_disables_nobody [of ?svc Canceled False with_bob] by blast
qed

end
