(* ===== verification/GitLabUsers.thy ===== *)
theory GitLabUsers
  imports GitLabApi IdentitySync DecoderLaws
begin

section \<open>Users from the GitLab API\<close>

text \<open>
  adapter/git/gitlab/v17_6/users.go: the listing of all users for the identity sync, and the
  enrichment of an event whose identities lack an address. \<open>EnrichEvent\<close> writes through
  pointers into the event, and the decoder lets slices and authors be reached in two ways, so
  the identities of an event are cells of a heap: \<open>identity_refs\<close> are the pointers in the
  order of \<open>eventIdentityPointers\<close>, \<open>identity_heap\<close> what they point to, and \<open>store_back\<close>
  the event a heap stands for.
\<close>

record gitlab_user =
  gu_id :: int
  gu_username :: string
  gu_name :: string
  gu_email :: string
  gu_state :: string
  gu_locked :: bool
  gu_external :: bool
  gu_bot :: bool

record gitlab_user_email =
  ge_email :: string
  ge_confirmed_at :: string

definition user_fields :: "gitlab_user fields" where
  "user_fields =
     [field ''id'' into_int gu_id (\<lambda>x. gu_id_update (\<lambda>_. x)),
      field ''username'' into_string gu_username (\<lambda>x. gu_username_update (\<lambda>_. x)),
      field ''name'' into_string gu_name (\<lambda>x. gu_name_update (\<lambda>_. x)),
      field ''email'' into_string gu_email (\<lambda>x. gu_email_update (\<lambda>_. x)),
      field ''state'' into_string gu_state (\<lambda>x. gu_state_update (\<lambda>_. x)),
      field ''locked'' into_bool gu_locked (\<lambda>x. gu_locked_update (\<lambda>_. x)),
      field ''external'' into_bool gu_external (\<lambda>x. gu_external_update (\<lambda>_. x)),
      field ''bot'' into_bool gu_bot (\<lambda>x. gu_bot_update (\<lambda>_. x))]"

definition email_fields :: "gitlab_user_email fields" where
  "email_fields =
     [field ''email'' into_string ge_email (\<lambda>x. ge_email_update (\<lambda>_. x)),
      field ''confirmed_at'' into_string ge_confirmed_at (\<lambda>x. ge_confirmed_at_update (\<lambda>_. x))]"

definition no_user :: gitlab_user where
  "no_user = \<lparr>gu_id = 0, gu_username = [], gu_name = [], gu_email = [], gu_state = [],
     gu_locked = False, gu_external = False, gu_bot = False\<rparr>"

abbreviation into_users :: "gitlab_user slice into" where
  "into_users \<equiv> into_slice (into_struct user_fields) no_user"

abbreviation into_emails :: "gitlab_user_email slice into" where
  "into_emails \<equiv> into_slice (into_struct email_fields) \<lparr>ge_email = [], ge_confirmed_at = []\<rparr>"

subsection \<open>Addresses\<close>

definition usable_user_email :: "string \<Rightarrow> string" where
  "usable_user_email value =
     (let v = trim_space value in if \<not> addr_spec v \<or> \<not> contains v ''@'' then [] else to_lower v)"

fun first_usable :: "gitlab_user_email list \<Rightarrow> string" where
  "first_usable [] = []"
| "first_usable (e # es) = (if usable_user_email (ge_email e) \<noteq> [] then usable_user_email (ge_email e) else first_usable es)"

definition first_usable_email :: "gitlab_user_email list \<Rightarrow> string" where
  "first_usable_email emails =
     (let confirmed = first_usable (filter (\<lambda>e. trim_space (ge_confirmed_at e) \<noteq> []) emails)
      in if confirmed \<noteq> [] then confirmed else first_usable emails)"

definition user_emails ::
  "world \<Rightarrow> hook_config \<Rightarrow> int \<Rightarrow> net_event list \<Rightarrow> (api_failure + string) \<times> net_event list" where
  "user_emails w c i tr =
     (case request_json w c ''GET'' (''/users/'' @ int_string i @ ''/emails'') None (Some into_emails) nil_slice tr of
        (Inl e, emails, tr1) \<Rightarrow> (Inl e, tr1)
      | (Inr next, emails, tr1) \<Rightarrow> (Inr (first_usable_email (elements emails)), tr1))"

definition user_identity :: "gitlab_user \<Rightarrow> identity" where
  "user_identity u =
     \<lparr>i_provider = ProviderGitLab, i_provider_id = int_string (gu_id u),
      i_username = to_lower (trim_space (gu_username u)), i_email = usable_user_email (gu_email u),
      i_name = trim_space (gu_name u)\<rparr>"

subsection \<open>All users\<close>

definition user_record_of :: "gitlab_user \<Rightarrow> user_record" where
  "user_record_of u =
     \<lparr>ur_identity = user_identity u,
      ur_active = (equal_fold (trim_space (gu_state u)) ''active'' \<and> \<not> gu_locked u \<and> \<not> gu_external u \<and> \<not> gu_bot u)\<rparr>"

fun page_records ::
  "world \<Rightarrow> hook_config \<Rightarrow> gitlab_user list \<Rightarrow> net_event list \<Rightarrow> (api_failure + user_record list) \<times> net_event list" where
  "page_records w c [] tr = (Inr [], tr)"
| "page_records w c (u # us) tr =
     (case (if usable_user_email (gu_email u) = [] \<and> 0 < gu_id u \<and> \<not> gu_bot u
            then user_emails w c (gu_id u) tr else (Inr (gu_email u), tr)) of
        (Inl e, tr1) \<Rightarrow> (Inl e, tr1)
      | (Inr email, tr1) \<Rightarrow>
        (case page_records w c us tr1 of
           (Inl e, tr2) \<Rightarrow> (Inl e, tr2)
         | (Inr rs, tr2) \<Rightarrow> (Inr (user_record_of (u\<lparr>gu_email := email\<rparr>) # rs), tr2)))"

definition users_path :: "nat \<Rightarrow> string" where
  "users_path page = ''/users?per_page=100&page='' @ nat_string page @ ''&order_by=id&sort=asc''"

definition users_page ::
  "world \<Rightarrow> hook_config \<Rightarrow> nat \<Rightarrow> net_event list \<Rightarrow> (api_failure + string) \<times> gitlab_user slice \<times> net_event list" where
  "users_page w c page tr = request_json w c ''GET'' (users_path page) None (Some into_users) nil_slice tr"

partial_function (option) list_users_from ::
  "world \<Rightarrow> hook_config \<Rightarrow> nat \<Rightarrow> user_record list \<Rightarrow> net_event list
     \<Rightarrow> ((api_failure + user_record list) \<times> net_event list) option" where
  "list_users_from w c page users tr =
     (case users_page w c page tr of
        (Inl e, us, tr1) \<Rightarrow> Some (Inl e, tr1)
      | (Inr next, us, tr1) \<Rightarrow>
        (case page_records w c (elements us) tr1 of
           (Inl e, tr2) \<Rightarrow> Some (Inl e, tr2)
         | (Inr rs, tr2) \<Rightarrow>
           if next = [] \<or> elements us = [] then Some (Inr (users @ rs), tr2)
           else list_users_from w c (Suc page) (users @ rs) tr2))"

declare list_users_from.simps [code]

definition list_users ::
  "world \<Rightarrow> hook_config \<Rightarrow> net_event list \<Rightarrow> ((api_failure + user_record list) \<times> net_event list) option" where
  "list_users w c tr = list_users_from w c 1 [] tr"

subsection \<open>Looking up one identity\<close>

definition is_not_found :: "api_failure \<Rightarrow> bool" where
  "is_not_found e = (case e of ApiError st m ra \<Rightarrow> st = 404 | Failure _ \<Rightarrow> False)"

text \<open>\<open>url.PathEscape\<close> and \<open>url.QueryEscape\<close>.\<close>

definition path_escape :: "string \<Rightarrow> string" where
  "path_escape s = concat (map (\<lambda>c. if is_alnum c \<or> c \<in> set ''-_.~$&+:=@'' then [c] else percent c) s)"

definition query_escape :: "string \<Rightarrow> string" where
  "query_escape s = concat (map (\<lambda>c. if is_alnum c \<or> c \<in> set ''-_.~'' then [c] else if c = CHR '' '' then ''+'' else percent c) s)"

definition found_user ::
  "world \<Rightarrow> hook_config \<Rightarrow> gitlab_user \<Rightarrow> net_event list \<Rightarrow> (api_failure + identity option) \<times> net_event list" where
  "found_user w c u tr =
     (if gu_id u \<le> 0 then (Inr None, tr)
      else
        let looked_up = user_identity u in
        if i_email looked_up = [] \<and> \<not> gu_bot u then
          (case user_emails w c (gu_id u) tr of
             (Inl e, tr1) \<Rightarrow> (Inl e, tr1)
           | (Inr email, tr1) \<Rightarrow> (Inr (Some (looked_up\<lparr>i_email := email\<rparr>)), tr1))
        else (Inr (Some looked_up), tr))"

definition lookup_identity_api ::
  "world \<Rightarrow> hook_config \<Rightarrow> identity \<Rightarrow> net_event list \<Rightarrow> (api_failure + identity option) \<times> net_event list" where
  "lookup_identity_api w c i tr =
     (if i_provider i \<noteq> [] \<and> i_provider i \<noteq> ProviderGitLab then (Inr None, tr)
      else if trim_space (i_provider_id i) \<noteq> [] then
        (case request_json w c ''GET'' (''/users/'' @ path_escape (trim_space (i_provider_id i))) None
            (Some (into_struct user_fields)) no_user tr of
           (Inl e, u, tr1) \<Rightarrow> if is_not_found e then (Inr None, tr1) else (Inl e, tr1)
         | (Inr next, u, tr1) \<Rightarrow> found_user w c u tr1)
      else if trim_space (i_username i) \<noteq> [] then
        (case request_json w c ''GET'' (''/users?username='' @ query_escape (trim_space (i_username i)) @ ''&per_page=2'') None
            (Some into_users) nil_slice tr of
           (Inl e, us, tr1) \<Rightarrow> (Inl e, tr1)
         | (Inr next, us, tr1) \<Rightarrow>
           (case elements us of [] \<Rightarrow> (Inr None, tr1) | u # _ \<Rightarrow> found_user w c u tr1))
      else (Inr None, tr))"

definition merge_identity :: "identity \<Rightarrow> identity \<Rightarrow> identity" where
  "merge_identity current looked_up =
     \<lparr>i_provider = (if i_provider current = [] then i_provider looked_up else i_provider current),
      i_provider_id = (if i_provider_id current = [] then i_provider_id looked_up else i_provider_id current),
      i_username = (if i_username current = [] then i_username looked_up else i_username current),
      i_email = (if usable_user_email (i_email current) = [] then i_email looked_up else i_email current),
      i_name = (if i_name current = [] then i_name looked_up else i_name current)\<rparr>"

definition user_lookup_key :: "identity \<Rightarrow> string" where
  "user_lookup_key i =
     (if i_provider_id i \<noteq> [] then ''id:gitlab:'' @ trim_space (i_provider_id i)
      else if i_username i \<noteq> [] then ''username:gitlab:'' @ to_lower (trim_space (i_username i))
      else [])"

subsection \<open>The identities of an event as cells\<close>

definition authors_at :: "canonical_event \<Rightarrow> nat list" where
  "authors_at e = (if ev_author e = None then [] else [1])"

definition reviewers_at :: "canonical_event \<Rightarrow> nat list" where
  "reviewers_at e = map (\<lambda>k. 1 + length (authors_at e) + k) [0..<length (ev_reviewers e)]"

definition assignees_at :: "canonical_event \<Rightarrow> nat list" where
  "assignees_at e = map (\<lambda>k. 1 + length (authors_at e) + length (ev_reviewers e) + k) [0..<length (ev_assignees e)]"

definition mentions_at :: "canonical_event \<Rightarrow> nat list" where
  "mentions_at e =
     map (\<lambda>k. 1 + length (authors_at e) + length (ev_reviewers e) + length (ev_assignees e) + k) [0..<length (ev_mentions e)]"

text \<open>Cells of their own: commit author, authors of the merge request, the note's two, the issue.\<close>

definition fresh :: "canonical_event \<Rightarrow> nat \<Rightarrow> nat" where
  "fresh e k = 1 + length (authors_at e) + length (ev_reviewers e) + length (ev_assignees e) + length (ev_mentions e) + k"

text \<open>The author of the merge request or the issue of an event is the author of the event, if it has one.\<close>

definition shared_author_at :: "canonical_event \<Rightarrow> nat \<Rightarrow> nat" where
  "shared_author_at e k = (if ev_author e = None then fresh e k else 1)"

definition identity_heap :: "canonical_event \<Rightarrow> identity list" where
  "identity_heap e =
     [ev_actor e] @ opt_list (\<lambda>i. [i]) (ev_author e) @ ev_reviewers e @ ev_assignees e @ ev_mentions e
     @ [(case ev_pipeline e of None \<Rightarrow> no_identity | Some pl \<Rightarrow> pl_commit_author pl),
        (case ev_merge_request e of None \<Rightarrow> no_identity | Some mr \<Rightarrow> mr_author mr),
        (case ev_note e of None \<Rightarrow> no_identity
         | Some nt \<Rightarrow> (case nt_merge_request nt of None \<Rightarrow> no_identity | Some mr \<Rightarrow> mr_author mr)),
        (case ev_note e of None \<Rightarrow> no_identity
         | Some nt \<Rightarrow> (case nt_issue nt of None \<Rightarrow> no_identity | Some is \<Rightarrow> is_author is)),
        (case ev_issue e of None \<Rightarrow> no_identity | Some is \<Rightarrow> is_author is)]"

definition identity_refs :: "canonical_event \<Rightarrow> nat list" where
  "identity_refs e =
     [0] @ authors_at e @ reviewers_at e @ assignees_at e @ mentions_at e
     @ opt_list (\<lambda>pl. [fresh e 0]) (ev_pipeline e)
     @ opt_list (\<lambda>mr. shared_author_at e 1 # reviewers_at e @ assignees_at e) (ev_merge_request e)
     @ opt_list (\<lambda>nt. opt_list (\<lambda>mr. fresh e 2 # reviewers_at e @ assignees_at e) (nt_merge_request nt)
         @ opt_list (\<lambda>is. fresh e 3 # assignees_at e) (nt_issue nt)) (ev_note e)
     @ opt_list (\<lambda>is. shared_author_at e 4 # assignees_at e) (ev_issue e)"

definition store_back :: "canonical_event \<Rightarrow> identity list \<Rightarrow> canonical_event" where
  "store_back e h =
     (let at = map (\<lambda>a. h ! a) in
      e\<lparr>ev_actor := h ! 0, ev_author := map_option (\<lambda>_. h ! 1) (ev_author e),
        ev_reviewers := at (reviewers_at e), ev_assignees := at (assignees_at e), ev_mentions := at (mentions_at e),
        ev_pipeline := map_option (\<lambda>pl. pl\<lparr>pl_commit_author := h ! fresh e 0\<rparr>) (ev_pipeline e),
        ev_merge_request := map_option (\<lambda>mr. mr\<lparr>mr_author := h ! shared_author_at e 1,
          mr_reviewers := at (reviewers_at e), mr_assignees := at (assignees_at e)\<rparr>) (ev_merge_request e),
        ev_note := map_option (\<lambda>nt. nt\<lparr>
          nt_merge_request := map_option (\<lambda>mr. mr\<lparr>mr_author := h ! fresh e 2,
            mr_reviewers := at (reviewers_at e), mr_assignees := at (assignees_at e)\<rparr>) (nt_merge_request nt),
          nt_issue := map_option (\<lambda>is. is\<lparr>is_author := h ! fresh e 3, is_assignees := at (assignees_at e)\<rparr>) (nt_issue nt)\<rparr>)
          (ev_note e),
        ev_issue := map_option (\<lambda>is. is\<lparr>is_author := h ! shared_author_at e 4, is_assignees := at (assignees_at e)\<rparr>) (ev_issue e)\<rparr>)"

subsection \<open>EnrichEvent\<close>

type_synonym lookup_cache = "(string, identity option) gomap"

fun enrich_loop ::
  "world \<Rightarrow> hook_config \<Rightarrow> nat list \<Rightarrow> identity list \<Rightarrow> lookup_cache \<Rightarrow> go_error list \<Rightarrow> net_event list
     \<Rightarrow> identity list \<times> go_error list \<times> net_event list" where
  "enrich_loop w c [] h cache errs tr = (h, errs, tr)"
| "enrich_loop w c (a # as) h cache errs tr =
     (let i = h ! a; key = user_lookup_key i in
      if usable_user_email (i_email i) \<noteq> [] \<or> key = [] then enrich_loop w c as h cache errs tr
      else case map_of cache key of
        Some None \<Rightarrow> enrich_loop w c as h cache errs tr
      | Some (Some found) \<Rightarrow> enrich_loop w c as (h[a := merge_identity i found]) cache errs tr
      | None \<Rightarrow>
        (case lookup_identity_api w c i tr of
           (Inl e, tr1) \<Rightarrow> enrich_loop w c as h cache (errs @ [Wrap (''lookup GitLab identity '' @ key) (failure_error e)]) tr1
         | (Inr None, tr1) \<Rightarrow> enrich_loop w c as h (AList.update key None cache) errs tr1
         | (Inr (Some found), tr1) \<Rightarrow>
             enrich_loop w c as (h[a := merge_identity i found]) (AList.update key (Some found) cache) errs tr1))"

definition enrich_event ::
  "world \<Rightarrow> hook_config \<Rightarrow> canonical_event \<Rightarrow> net_event list \<Rightarrow> canonical_event \<times> go_error list \<times> net_event list" where
  "enrich_event w c e tr =
     (case enrich_loop w c (identity_refs e) (identity_heap e) [] [] tr of
        (h, errs, tr1) \<Rightarrow> (store_back e h, errs, tr1))"

subsection \<open>The cells hold the event\<close>

lemma length_at [simp]:
  "length (authors_at e) = length (opt_list (\<lambda>i. [i]) (ev_author e))" "length (reviewers_at e) = length (ev_reviewers e)"
  "length (assignees_at e) = length (ev_assignees e)" "length (mentions_at e) = length (ev_mentions e)"
  by (simp_all add: authors_at_def reviewers_at_def assignees_at_def mentions_at_def opt_list_def split: option.split)

lemma length_heap: "length (identity_heap e) = fresh e 5"
  by (simp add: identity_heap_def fresh_def)

lemma refs_in_heap: "a \<in> set (identity_refs e) \<Longrightarrow> a < length (identity_heap e)"
  by (auto simp: length_heap identity_refs_def fresh_def shared_author_at_def authors_at_def reviewers_at_def
      assignees_at_def mentions_at_def opt_list_def split: option.splits if_splits)

lemma all_identities_store_back: "all_identities (store_back e h) = map (\<lambda>a. h ! a) (identity_refs e)"
  by (simp add: all_identities_def store_back_def identity_refs_def Let_def opt_list_def mr_identities_def
      issue_identities_def authors_at_def split: option.split)

text \<open>What the decoder shares between the fields of an event.\<close>

definition shares_mr :: "canonical_event \<Rightarrow> merge_request_details \<Rightarrow> bool" where
  "shares_mr e mr \<longleftrightarrow> mr_reviewers mr = ev_reviewers e \<and> mr_assignees mr = ev_assignees e"

definition shares :: "canonical_event \<Rightarrow> bool" where
  "shares e \<longleftrightarrow>
     (case ev_merge_request e of None \<Rightarrow> True | Some mr \<Rightarrow> shares_mr e mr \<and> ev_author e \<in> {None, Some (mr_author mr)}) \<and>
     (case ev_note e of None \<Rightarrow> True
      | Some nt \<Rightarrow> (case nt_merge_request nt of None \<Rightarrow> True | Some mr \<Rightarrow> shares_mr e mr) \<and>
          (case nt_issue nt of None \<Rightarrow> True | Some is \<Rightarrow> is_assignees is = ev_assignees e)) \<and>
     (case ev_issue e of None \<Rightarrow> True | Some is \<Rightarrow> is_assignees is = ev_assignees e \<and> ev_author e \<in> {None, Some (is_author is)})"

lemma map_nth_middle: "map (\<lambda>k. (xs @ ys @ zs) ! (length xs + k)) [0..<length ys] = ys"
  by (rule nth_equalityI) (simp_all add: nth_append)

lemma heap_reviewers: "map (\<lambda>a. identity_heap e ! a) (reviewers_at e) = ev_reviewers e"
proof -
  let ?xs = "[ev_actor e] @ opt_list (\<lambda>i. [i]) (ev_author e)"
  obtain zs where h: "identity_heap e = ?xs @ ev_reviewers e @ zs" unfolding identity_heap_def by auto
  show ?thesis unfolding h using map_nth_middle [of ?xs "ev_reviewers e" zs]
    by (simp add: reviewers_at_def comp_def)
qed

lemma heap_assignees: "map (\<lambda>a. identity_heap e ! a) (assignees_at e) = ev_assignees e"
proof -
  let ?xs = "[ev_actor e] @ opt_list (\<lambda>i. [i]) (ev_author e) @ ev_reviewers e"
  obtain zs where h: "identity_heap e = ?xs @ ev_assignees e @ zs" unfolding identity_heap_def by auto
  show ?thesis unfolding h using map_nth_middle [of ?xs "ev_assignees e" zs]
    by (simp add: assignees_at_def comp_def)
qed

lemma heap_mentions: "map (\<lambda>a. identity_heap e ! a) (mentions_at e) = ev_mentions e"
proof -
  let ?xs = "[ev_actor e] @ opt_list (\<lambda>i. [i]) (ev_author e) @ ev_reviewers e @ ev_assignees e"
  obtain zs where h: "identity_heap e = ?xs @ ev_mentions e @ zs" unfolding identity_heap_def by auto
  show ?thesis unfolding h using map_nth_middle [of ?xs "ev_mentions e" zs]
    by (simp add: mentions_at_def comp_def add.assoc)
qed

lemma heap_actor: "identity_heap e ! 0 = ev_actor e" "ev_author e = Some i \<Longrightarrow> identity_heap e ! 1 = i"
  by (simp_all add: identity_heap_def opt_list_def)

lemma heap_fresh:
  "identity_heap e ! fresh e k = [(case ev_pipeline e of None \<Rightarrow> no_identity | Some pl \<Rightarrow> pl_commit_author pl),
        (case ev_merge_request e of None \<Rightarrow> no_identity | Some mr \<Rightarrow> mr_author mr),
        (case ev_note e of None \<Rightarrow> no_identity
         | Some nt \<Rightarrow> (case nt_merge_request nt of None \<Rightarrow> no_identity | Some mr \<Rightarrow> mr_author mr)),
        (case ev_note e of None \<Rightarrow> no_identity
         | Some nt \<Rightarrow> (case nt_issue nt of None \<Rightarrow> no_identity | Some is \<Rightarrow> is_author is)),
        (case ev_issue e of None \<Rightarrow> no_identity | Some is \<Rightarrow> is_author is)] ! k"
proof -
  let ?xs = "[ev_actor e] @ opt_list (\<lambda>i. [i]) (ev_author e) @ ev_reviewers e @ ev_assignees e @ ev_mentions e"
  have "length ?xs + k = fresh e k" by (simp add: fresh_def)
  then show ?thesis unfolding identity_heap_def using nth_append_length_plus [of ?xs _ k] by (metis append.assoc)
qed

lemma mr_cells: "shares_mr e mr \<Longrightarrow> mr\<lparr>mr_reviewers := ev_reviewers e, mr_assignees := ev_assignees e\<rparr> = mr"
  by (cases mr) (simp add: shares_mr_def)

lemma issue_cells: "is_assignees is = ev_assignees e \<Longrightarrow> is\<lparr>is_assignees := ev_assignees e\<rparr> = is"
  by (cases "is") simp

lemma note_cells:
  assumes "shares e" "ev_note e = Some nt"
  shows "map_option (\<lambda>mr. mr\<lparr>mr_author := identity_heap e ! fresh e 2,
      mr_reviewers := ev_reviewers e, mr_assignees := ev_assignees e\<rparr>) (nt_merge_request nt) = nt_merge_request nt"
    "map_option (\<lambda>is. is\<lparr>is_author := identity_heap e ! fresh e 3, is_assignees := ev_assignees e\<rparr>) (nt_issue nt) = nt_issue nt"
proof -
  show "map_option (\<lambda>mr. mr\<lparr>mr_author := identity_heap e ! fresh e 2,
      mr_reviewers := ev_reviewers e, mr_assignees := ev_assignees e\<rparr>) (nt_merge_request nt) = nt_merge_request nt"
    using assms by (cases "nt_merge_request nt") (simp_all add: shares_def heap_fresh mr_cells)
  show "map_option (\<lambda>is. is\<lparr>is_author := identity_heap e ! fresh e 3, is_assignees := ev_assignees e\<rparr>) (nt_issue nt) = nt_issue nt"
    using assms by (cases "nt_issue nt") (simp_all add: shares_def heap_fresh issue_cells)
qed

lemma shared_author:
  assumes "ev_author e \<in> {None, Some i}" "identity_heap e ! fresh e k = i"
  shows "identity_heap e ! shared_author_at e k = i"
  using assms heap_actor(2) [of e i] by (auto simp: shared_author_at_def)

lemma store_back_heap:
  assumes "shares e"
  shows "store_back e (identity_heap e) = e"
proof -
  have "map_option (\<lambda>_. identity_heap e ! 1) (ev_author e) = ev_author e"
    using heap_actor(2) by (cases "ev_author e") auto
  moreover have "map_option (\<lambda>pl. pl\<lparr>pl_commit_author := identity_heap e ! fresh e 0\<rparr>) (ev_pipeline e) = ev_pipeline e"
    by (cases "ev_pipeline e") (simp_all add: heap_fresh)
  moreover have "map_option (\<lambda>mr. mr\<lparr>mr_author := identity_heap e ! shared_author_at e 1,
      mr_reviewers := ev_reviewers e, mr_assignees := ev_assignees e\<rparr>) (ev_merge_request e) = ev_merge_request e"
  proof (cases "ev_merge_request e")
    case (Some mr)
    then have "identity_heap e ! shared_author_at e 1 = mr_author mr"
      using assms by (intro shared_author) (simp_all add: shares_def heap_fresh)
    then show ?thesis using assms Some by (simp add: shares_def mr_cells)
  qed simp
  moreover have "map_option (\<lambda>nt. nt\<lparr>
      nt_merge_request := map_option (\<lambda>mr. mr\<lparr>mr_author := identity_heap e ! fresh e 2,
        mr_reviewers := ev_reviewers e, mr_assignees := ev_assignees e\<rparr>) (nt_merge_request nt),
      nt_issue := map_option (\<lambda>is. is\<lparr>is_author := identity_heap e ! fresh e 3, is_assignees := ev_assignees e\<rparr>) (nt_issue nt)\<rparr>)
      (ev_note e) = ev_note e"
    by (cases "ev_note e") (simp_all add: note_cells [OF assms])
  moreover have "map_option (\<lambda>is. is\<lparr>is_author := identity_heap e ! shared_author_at e 4, is_assignees := ev_assignees e\<rparr>)
      (ev_issue e) = ev_issue e"
  proof (cases "ev_issue e")
    case (Some "is")
    then have "identity_heap e ! shared_author_at e 4 = is_author is"
      using assms by (intro shared_author) (simp_all add: shares_def heap_fresh)
    then show ?thesis using assms Some by (simp add: shares_def issue_cells)
  qed simp
  ultimately show ?thesis
    unfolding store_back_def Let_def heap_reviewers heap_assignees heap_mentions heap_actor(1) by simp
qed

text \<open>The decoder's events are shared in this way, and rewriting their links keeps that.\<close>

lemma shares_decoded:
  assumes "bare event"
  shows "shares (decode_pipeline payload event)" "shares (decode_merge_request payload event)"
    "shares (decode_issue payload event)"
  using assms
  by (simp_all add: bare_def shares_def shares_mr_def decode_pipeline_def decode_merge_request_def decode_issue_def Let_def)

lemma shares_decoded_note:
  assumes "bare event"
  shows "shares (decode_note payload event)"
proof -
  consider "map_value (member payload ''merge_request'') \<noteq> []"
    | "map_value (member payload ''merge_request'') = []" "map_value (member payload ''issue'') \<noteq> []"
    | "map_value (member payload ''merge_request'') = []" "map_value (member payload ''issue'') = []" by blast
  then show ?thesis using assms
    by cases (simp_all add: bare_def shares_def shares_mr_def decode_note_def Let_def)
qed

lemma case_map_option:
  "(case map_option f x of None \<Rightarrow> a | Some y \<Rightarrow> g y) = (case x of None \<Rightarrow> a | Some y \<Rightarrow> g (f y))"
  by (cases x) simp_all

lemma shares_rewritten: "shares e \<Longrightarrow> shares (rewrite_event_urls b e)"
proof (cases "b = None")
  case False
  assume "shares e"
  moreover have "shares_mr (rewrite_event_urls b e) (rewrite_merge_request b mr) = shares_mr e mr" for mr
    by (simp add: shares_mr_def rewrite_merge_request_def)
  moreover have "mr_author (rewrite_merge_request b mr) = mr_author mr" "is_author (rewrite_issue b is) = is_author is"
    "is_assignees (rewrite_issue b is) = is_assignees is" for mr "is"
    by (simp_all add: rewrite_merge_request_def rewrite_issue_def)
  moreover have "ev_merge_request (rewrite_event_urls b e) = map_option (rewrite_merge_request b) (ev_merge_request e)"
    "ev_note (rewrite_event_urls b e) = map_option (rewrite_note b) (ev_note e)"
    "ev_issue (rewrite_event_urls b e) = map_option (rewrite_issue b) (ev_issue e)"
    using False by (auto simp: rewrite_event_urls_def)
  ultimately show ?thesis
    by (simp add: shares_def case_map_option comp_def cong: option.case_cong)
qed (simp add: rewrite_event_urls_def)

lemma decode_shares:
  assumes "decode b ord local_zone now canceled hs body = Inr e"
  shows "shares e"
  using assms
proof (rule decodeE)
  fix payload kind event
  assume h: "decode_kind kind payload (base_event ord local_zone now kind hs body payload) = Some event"
    "e = rewrite_event_urls b event"
  from h(1) have "shares event"
    by (rule decode_kindE) (simp_all add: shares_decoded shares_decoded_note bare_base_event)
  then show ?thesis by (simp add: h(2) shares_rewritten)
qed

subsection \<open>What enriching changes\<close>

text \<open>
  An identity with a usable address stays; of another, what is known stays, and the address
  stays or is lost or becomes one that mail can reach.
\<close>

definition mailable :: "string \<Rightarrow> bool" where
  "mailable s \<longleftrightarrow> to_lower s = s \<and> trim_space s = s \<and> CHR ''@'' \<in> set s"

definition kept :: "string \<Rightarrow> string \<Rightarrow> bool" where
  "kept old new \<longleftrightarrow> old = [] \<or> new = old"

definition enriched :: "identity \<Rightarrow> identity \<Rightarrow> bool" where
  "enriched i j \<longleftrightarrow>
     (if usable_user_email (i_email i) \<noteq> [] then j = i
      else kept (i_provider i) (i_provider j) \<and> kept (i_provider_id i) (i_provider_id j)
        \<and> kept (i_username i) (i_username j) \<and> kept (i_name i) (i_name j)
        \<and> (i_email j \<in> {i_email i, []} \<or> mailable (i_email j)))"

lemma enriched_refl [simp]: "enriched i i"
  by (simp add: enriched_def kept_def)

lemma kept_trans: "kept a b \<Longrightarrow> kept b c \<Longrightarrow> kept a c"
  by (auto simp: kept_def)

lemma enriched_trans:
  assumes "enriched i j" "enriched j k"
  shows "enriched i k"
proof (cases "usable_user_email (i_email i) = [] \<and> usable_user_email (i_email j) = []")
  case True
  then have "i_email k \<in> {i_email i, []} \<or> mailable (i_email k)"
    using assms by (auto simp: enriched_def)
  then show ?thesis using True assms by (auto simp: enriched_def intro: kept_trans)
next
  case False
  then have "j = i \<or> k = j" using assms by (auto simp: enriched_def split: if_splits)
  then show ?thesis using assms by auto
qed

lemma usable_user_email_mailable: "usable_user_email v = [] \<or> mailable (usable_user_email v)"
proof (cases "usable_user_email v = []")
  case False
  then have e: "usable_user_email v = to_lower (trim_space v)" "CHR ''@'' \<in> set (trim_space v)"
    by (auto simp: usable_user_email_def Let_def contains_single split: if_splits)
  have "lower_char CHR ''@'' = CHR ''@''" by code_simp
  then have "CHR ''@'' \<in> set (to_lower (trim_space v))"
    using e(2) unfolding to_lower_def set_map by (metis image_eqI)
  then show ?thesis by (simp add: e(1) mailable_def trim_space_to_lower)
qed simp

lemma first_usable_mailable: "first_usable es = [] \<or> mailable (first_usable es)"
  using usable_user_email_mailable by (induction es) auto

lemma first_usable_email_mailable: "first_usable_email es = [] \<or> mailable (first_usable_email es)"
  using first_usable_mailable [of es] first_usable_mailable [of "filter (\<lambda>e. trim_space (ge_confirmed_at e) \<noteq> []) es"]
  by (auto simp: first_usable_email_def Let_def)

text \<open>What a lookup finds.\<close>

definition directory_identity :: "identity \<Rightarrow> bool" where
  "directory_identity i \<longleftrightarrow> i_provider i = ProviderGitLab \<and> to_lower (i_username i) = i_username i
     \<and> (i_email i = [] \<or> mailable (i_email i))"

lemma directory_user_identity: "directory_identity (user_identity u)"
  using usable_user_email_mailable by (simp add: directory_identity_def user_identity_def)

lemma user_emails_found:
  "user_emails w c i tr = (Inr email, tr1) \<Longrightarrow> email = [] \<or> mailable email"
  using first_usable_email_mailable by (auto simp: user_emails_def split: prod.splits sum.splits)

lemma found_user_directory:
  assumes "found_user w c u tr = (Inr (Some i), tr1)"
  shows "directory_identity i"
proof -
  consider "i = user_identity u"
    | email tr2 where "user_emails w c (gu_id u) tr = (Inr email, tr2)" "i = (user_identity u)\<lparr>i_email := email\<rparr>"
    using assms by (auto simp: found_user_def Let_def split: if_splits prod.splits sum.splits)
  then show ?thesis
    by cases (use directory_user_identity [of u] user_emails_found in \<open>auto simp: directory_identity_def\<close>)
qed

lemma lookup_directory:
  assumes "lookup_identity_api w c i tr = (Inr (Some j), tr1)"
  shows "directory_identity j"
  using assms found_user_directory
  by (auto simp: lookup_identity_api_def split: if_splits prod.splits sum.splits list.splits)

lemma enriched_merge:
  assumes "usable_user_email (i_email i) = []" "directory_identity j"
  shows "enriched i (merge_identity i j)"
  using assms by (auto simp: enriched_def merge_identity_def directory_identity_def kept_def)

lemma list_all2_update:
  assumes "list_all2 P xs ys" "a < length ys" "\<And>x. P x (ys ! a) \<Longrightarrow> P x y"
  shows "list_all2 P xs (ys[a := y])"
  using assms by (auto simp: list_all2_conv_all_nth nth_list_update)

definition cache_ok :: "lookup_cache \<Rightarrow> bool" where
  "cache_ok cache \<longleftrightarrow> (\<forall>k i. map_of cache k = Some (Some i) \<longrightarrow> directory_identity i)"

lemma cache_ok_update:
  "cache_ok cache \<Longrightarrow> (case v of None \<Rightarrow> True | Some i \<Rightarrow> directory_identity i) \<Longrightarrow> cache_ok (AList.update k v cache)"
  by (auto simp: cache_ok_def update_conv)

lemma enrich_loop_enriched:
  assumes "enrich_loop w c as h cache errs tr = (h', errs', tr')"
    "list_all2 enriched h0 h" "\<forall>a \<in> set as. a < length h" "cache_ok cache"
  shows "list_all2 enriched h0 h'"
  using assms
proof (induction as arbitrary: h cache errs tr)
  case (Cons a as)
  define i where "i = h ! a"
  have merged: "list_all2 enriched h0 (h[a := merge_identity i j])" if "directory_identity j" "usable_user_email (i_email i) = []" for j
    by (rule list_all2_update [OF Cons.prems(2)])
      (use Cons.prems(3) that enriched_merge enriched_trans in \<open>auto simp: i_def\<close>)
  consider
      errs1 tr1 cache1 where "enrich_loop w c as h cache1 errs1 tr1 = (h', errs', tr')" "cache_ok cache1"
    | j cache1 tr1 where "enrich_loop w c as (h[a := merge_identity i j]) cache1 errs tr1 = (h', errs', tr')"
        "directory_identity j" "usable_user_email (i_email i) = []" "cache_ok cache1"
  proof (cases "usable_user_email (i_email i) \<noteq> [] \<or> user_lookup_key i = []")
    case True
    then show ?thesis using Cons.prems(1,4) that(1) by (simp add: i_def)
  next
    case False
    show ?thesis
    proof (cases "map_of cache (user_lookup_key i)")
      case (Some v)
      then show ?thesis
        using Cons.prems(1,4) False that by (cases v) (auto simp: i_def Let_def cache_ok_def)
    next
      case None
      obtain res tr1 where l: "lookup_identity_api w c i tr = (res, tr1)" by fastforce
      have ok: "cache_ok (AList.update (user_lookup_key i) None cache)"
        using cache_ok_update [OF Cons.prems(4), of None] by simp
      show ?thesis
      proof (cases res)
        case (Inl e)
        then show ?thesis using Cons.prems(1,4) False None l that(1) by (simp add: i_def Let_def)
      next
        case (Inr r)
        show ?thesis
        proof (cases r)
          case None
          then show ?thesis
            using Cons.prems(1) False \<open>map_of cache (user_lookup_key i) = None\<close> l Inr ok that(1) by (simp add: i_def Let_def)
        next
          case (Some j)
          have j: "directory_identity j" using lookup_directory l Inr Some by blast
          then have "cache_ok (AList.update (user_lookup_key i) (Some j) cache)"
            using cache_ok_update [OF Cons.prems(4), of "Some j"] by simp
          then show ?thesis
            using Cons.prems(1) False None l Inr Some j that(2) by (simp add: i_def Let_def)
        qed
      qed
    qed
  qed
  then show ?case
    by cases (use Cons.IH Cons.prems(2,3) merged in auto)
qed simp

lemma enrich_heap_enriched:
  assumes "enrich_loop w c (identity_refs e) (identity_heap e) [] [] tr = (h, errs, tr')"
  shows "list_all2 enriched (identity_heap e) h"
  by (rule enrich_loop_enriched [OF assms])
    (use refs_in_heap in \<open>auto simp: list_all2_conv_all_nth cache_ok_def\<close>)

text \<open>An event with its identities blanked.\<close>

definition blank :: "canonical_event \<Rightarrow> canonical_event" where
  "blank e = store_back e (replicate (length (identity_heap e)) no_identity)"

lemma store_back_layout [simp]:
  "authors_at (store_back e h) = authors_at e" "reviewers_at (store_back e h) = reviewers_at e"
  "assignees_at (store_back e h) = assignees_at e" "mentions_at (store_back e h) = mentions_at e"
  "fresh (store_back e h) k = fresh e k" "shared_author_at (store_back e h) k = shared_author_at e k"
  "length (identity_heap (store_back e h)) = length (identity_heap e)"
proof -
  show a: "authors_at (store_back e h) = authors_at e" by (simp add: authors_at_def store_back_def Let_def)
  have l: "length (ev_reviewers (store_back e h)) = length (ev_reviewers e)"
    "length (ev_assignees (store_back e h)) = length (ev_assignees e)"
    "length (ev_mentions (store_back e h)) = length (ev_mentions e)"
    "(ev_author (store_back e h) = None) = (ev_author e = None)"
    by (simp_all add: store_back_def Let_def)
  show "reviewers_at (store_back e h) = reviewers_at e" by (simp only: reviewers_at_def a l)
  show "assignees_at (store_back e h) = assignees_at e" by (simp only: assignees_at_def a l)
  show "mentions_at (store_back e h) = mentions_at e" by (simp only: mentions_at_def a l)
  show f: "fresh (store_back e h) k = fresh e k" for k by (simp only: fresh_def a l)
  show "shared_author_at (store_back e h) k = shared_author_at e k" by (simp only: shared_author_at_def f l)
  show "length (identity_heap (store_back e h)) = length (identity_heap e)" by (simp only: length_heap f)
qed

lemma store_back_twice: "store_back (store_back e h) h' = store_back e h'"
proof -
  have "ev_author (store_back e h) = map_option (\<lambda>_. h ! 1) (ev_author e)" by (simp add: store_back_def Let_def)
  then show ?thesis
    unfolding store_back_def [of "store_back e h"] store_back_layout
    unfolding store_back_def Let_def
    by (simp add: option.map_comp comp_def)
qed

subsection \<open>What lookups send\<close>

definition read_request :: "hook_config \<Rightarrow> http_request \<Rightarrow> bool" where
  "read_request c r \<longleftrightarrow> addressed c r \<and> hr_method r = ''GET'' \<and> hr_body r = None"

lemma get_adds:
  assumes "request_json w c ''GET'' path None dec o0 tr = (res, o1, tr1)"
  shows "adds (read_request c) 3 tr tr1"
proof -
  have "read_request c (request_of c ''GET'' path None)"
    by (simp add: read_request_def) (simp add: request_of_def)
  then show ?thesis
    using adds_mono [OF request_json_adds [OF assms], of 3 "read_request c"] by (simp add: attempts_for_def)
qed

lemma user_emails_adds: "user_emails w c i tr = (res, tr1) \<Longrightarrow> adds (read_request c) 3 tr tr1"
  by (auto simp: user_emails_def split: prod.splits sum.splits dest: get_adds)

lemma found_user_adds: "found_user w c u tr = (res, tr1) \<Longrightarrow> adds (read_request c) 3 tr tr1"
  by (auto simp: found_user_def Let_def split: if_splits prod.splits sum.splits dest: user_emails_adds)

lemma then_found_adds:
  assumes "adds (read_request c) 3 tr tr0" "tr1 = tr0 \<or> found_user w c u tr0 = (res, tr1)"
  shows "adds (read_request c) 6 tr tr1"
proof -
  have "adds (read_request c) 3 tr0 tr1" using assms(2) found_user_adds by auto
  from adds_trans [OF assms(1) this] show ?thesis by simp
qed

lemma lookup_adds:
  assumes "lookup_identity_api w c i tr = (res, tr1)"
  shows "adds (read_request c) 6 tr tr1"
proof -
  obtain res0 u tr0 where a: "request_json w c ''GET'' (''/users/'' @ path_escape (trim_space (i_provider_id i))) None
      (Some (into_struct user_fields)) no_user tr = (res0, u, tr0)" by (metis prod_cases3)
  obtain res2 us tr2 where b: "request_json w c ''GET'' (''/users?username='' @ query_escape (trim_space (i_username i)) @ ''&per_page=2'')
      None (Some into_users) nil_slice tr = (res2, us, tr2)" by (metis prod_cases3)
  consider "tr1 = tr" | "tr1 = tr0 \<or> found_user w c u tr0 = (res, tr1)"
    | v where "tr1 = tr2 \<or> found_user w c v tr2 = (res, tr1)"
    using assms unfolding lookup_identity_api_def a b
    by (auto split: if_splits sum.splits list.splits)
  then show ?thesis
    by cases (simp, (rule then_found_adds [OF get_adds [OF a]] then_found_adds [OF get_adds [OF b]], assumption)+)
qed

lemma enrich_loop_adds:
  assumes "enrich_loop w c as h cache errs tr = (h', errs', tr')"
  shows "adds (read_request c) (6 * length as) tr tr' \<and> length errs' \<le> length errs + length as"
  using assms
proof (induction as arbitrary: h cache errs tr)
  case (Cons a as)
  have "\<exists>h1 cache1 errs1 tr1. enrich_loop w c as h1 cache1 errs1 tr1 = (h', errs', tr')
      \<and> adds (read_request c) 6 tr tr1 \<and> length errs1 \<le> Suc (length errs)"
  proof (cases "usable_user_email (i_email (h ! a)) \<noteq> [] \<or> user_lookup_key (h ! a) = []
      \<or> map_of cache (user_lookup_key (h ! a)) \<noteq> None")
    case True
    then have "\<exists>h1. enrich_loop w c as h1 cache errs tr = (h', errs', tr')"
      using Cons.prems by (auto simp: Let_def split: option.splits if_splits)
    then show ?thesis by (meson adds_refl le_SucI order_refl)
  next
    case False
    obtain res tr1 where l: "lookup_identity_api w c (h ! a) tr = (res, tr1)" by fastforce
    then show ?thesis
      using Cons.prems False lookup_adds [OF l]
      by (cases res; cases "projr res") (auto simp: Let_def intro!: exI)
  qed
  then obtain h1 cache1 errs1 tr1 where n: "enrich_loop w c as h1 cache1 errs1 tr1 = (h', errs', tr')"
    "adds (read_request c) 6 tr tr1" "length errs1 \<le> Suc (length errs)" by blast
  from Cons.IH [OF n(1)] adds_trans [OF n(2)] n(3) show ?case by auto
qed simp

subsection \<open>The properties of enriching\<close>


text \<open>
  Enriching only reads, from the configured GitLab: at most six requests for each identity of
  the event, and at most one error for each.
\<close>

theorem enrich_is_bounded:
  assumes "enrich_event w c e tr = (e', errs, tr')"
  shows "adds (read_request c) (6 * length (identity_refs e)) tr tr' \<and> length errs \<le> length (identity_refs e)"
  using assms enrich_loop_adds [where cache = "[]" and errs = "[]"]
  by (fastforce simp: enrich_event_def split: prod.splits)

subsection \<open>The listing\<close>

text \<open>A record of the listing: a user of GitLab, normalised, and active only if GitLab says so.\<close>

definition listed_ok :: "user_record \<Rightarrow> bool" where
  "listed_ok r \<longleftrightarrow> directory_identity (ur_identity r)"

lemma page_records_ok:
  assumes "page_records w c us tr = (Inr rs, tr')"
  shows "list_all listed_ok rs \<and> length rs = length us
    \<and> list_all2 (\<lambda>u r. i_provider_id (ur_identity r) = int_string (gu_id u)
        \<and> (ur_active r \<longrightarrow> \<not> gu_bot u \<and> \<not> gu_locked u \<and> \<not> gu_external u)) us rs"
  using assms
proof (induction us arbitrary: tr rs)
  case (Cons u us)
  obtain res tr1 where "(if usable_user_email (gu_email u) = [] \<and> 0 < gu_id u \<and> \<not> gu_bot u
      then user_emails w c (gu_id u) tr else (Inr (gu_email u), tr)) = (res, tr1)" by fastforce
  then obtain email rs1 where "page_records w c us tr1 = (Inr rs1, tr')" "rs = user_record_of (u\<lparr>gu_email := email\<rparr>) # rs1"
    using Cons.prems by (cases res) (auto split: prod.splits sum.splits)
  moreover have "listed_ok (user_record_of (u\<lparr>gu_email := email\<rparr>))"
    by (simp add: listed_ok_def user_record_of_def directory_user_identity)
  moreover have "i_provider_id (ur_identity (user_record_of (u\<lparr>gu_email := email\<rparr>))) = int_string (gu_id u)
      \<and> (ur_active (user_record_of (u\<lparr>gu_email := email\<rparr>)) \<longrightarrow> \<not> gu_bot u \<and> \<not> gu_locked u \<and> \<not> gu_external u)"
    by (simp add: user_record_of_def user_identity_def)
  ultimately show ?case using Cons.IH by simp
qed simp

lemma list_users_from_ok:
  assumes "list_users_from w c page users tr = Some y" "list_all listed_ok users"
  shows "case fst y of Inl e \<Rightarrow> True | Inr rs \<Rightarrow> list_all listed_ok rs \<and> prefix users rs"
proof -
  have "list_all listed_ok users \<longrightarrow> (case fst y of Inl e \<Rightarrow> True | Inr rs \<Rightarrow> list_all listed_ok rs \<and> prefix users rs)"
    using assms(1)
  proof (rule list_users_from.raw_induct [rotated, where P = "\<lambda>w c page users tr y. list_all listed_ok users \<longrightarrow>
      (case fst y of Inl e \<Rightarrow> True | Inr rs \<Rightarrow> list_all listed_ok rs \<and> prefix users rs)"])
    fix f w c page users tr y
    assume IH: "\<And>w c page users tr y. f w c page users tr = Some y \<Longrightarrow> list_all listed_ok users \<longrightarrow>
        (case fst y of Inl e \<Rightarrow> True | Inr rs \<Rightarrow> list_all listed_ok rs \<and> prefix users rs)"
      and y: "(case users_page w c page tr of
          (Inl e, us, tr1) \<Rightarrow> Some (Inl e, tr1)
        | (Inr next, us, tr1) \<Rightarrow>
          (case page_records w c (elements us) tr1 of
             (Inl e, tr2) \<Rightarrow> Some (Inl e, tr2)
           | (Inr rs, tr2) \<Rightarrow>
             if next = [] \<or> elements us = [] then Some (Inr (users @ rs), tr2)
             else f w c (Suc page) (users @ rs) tr2)) = Some y"
    consider "isl (fst y)"
      | us tr1 rs tr2 where "page_records w c us tr1 = (Inr rs, tr2)"
          "y = (Inr (users @ rs), tr2) \<or> f w c (Suc page) (users @ rs) tr2 = Some y"
    proof -
      obtain nx us tr1 where u: "users_page w c page tr = (nx, us, tr1)" by (metis prod_cases3)
      obtain rs tr2 where r: "page_records w c (elements us) tr1 = (rs, tr2)" by fastforce
      show ?thesis
        using y that(1) that(2) [of "elements us" tr1 "projr rs" tr2] by (cases nx; cases rs) (auto simp: u r split: if_splits)
    qed
    then show "list_all listed_ok users \<longrightarrow>
        (case fst y of Inl e \<Rightarrow> True | Inr rs \<Rightarrow> list_all listed_ok rs \<and> prefix users rs)"
    proof cases
      case 1
      then show ?thesis by (cases "fst y") auto
    next
      case 2
      then show ?thesis
        using page_records_ok [OF 2(1)] IH [of w c "Suc page" "users @ rs" tr2 y]
        by (auto split: sum.splits dest: append_prefixD)
    qed
  qed
  then show ?thesis using assms(2) by blast
qed

definition users_page_ends :: "world \<Rightarrow> hook_config \<Rightarrow> nat \<Rightarrow> net_event list \<Rightarrow> bool" where
  "users_page_ends w c page tr =
     (case users_page w c page tr of (Inl e, us, tr1) \<Rightarrow> True | (Inr next, us, tr1) \<Rightarrow> next = [] \<or> elements us = [])"

lemma list_users_from_ends:
  assumes "\<And>tr. users_page_ends w c (page + n) tr"
  shows "list_users_from w c page users tr \<noteq> None"
  using assms
proof (induction n arbitrary: page users tr)
  case 0
  from 0 [of tr] show ?case
    by (subst list_users_from.simps) (auto simp: users_page_ends_def split: prod.splits sum.splits)
next
  case (Suc n)
  have "list_users_from w c (Suc page) qs tr1 \<noteq> None" for qs tr1
    by (rule Suc.IH) (use Suc.prems in simp)
  then show ?case
    by (subst list_users_from.simps) (simp split: prod.splits sum.splits)
qed

text \<open>
  If some page of the users is the last one whenever it is asked for, the listing returns; and
  every user it lists is a normalised identity of GitLab.
\<close>

theorem user_listing_ends:
  assumes "1 \<le> K" "\<And>tr. users_page_ends w c K tr"
  shows "\<exists>res tr'. list_users w c tr = Some (res, tr') \<and> (case res of Inl e \<Rightarrow> True | Inr rs \<Rightarrow> list_all listed_ok rs)"
proof -
  have "list_users w c tr \<noteq> None"
    unfolding list_users_def by (rule list_users_from_ends [of w c 1 "K - 1"]) (use assms in simp)
  then obtain res tr' where y: "list_users w c tr = Some (res, tr')" by fastforce
  with list_users_from_ok [OF y [unfolded list_users_def]] show ?thesis by (auto split: sum.splits)
qed

subsection \<open>An example\<close>

text \<open>A GitLab that knows one user, whose address is only in the list of confirmed addresses.\<close>

definition users_answer :: "http_request \<Rightarrow> string" where
  \<open>users_answer r =
     (if suffix ''/emails'' (hr_url r) then ''[{"email":"old@x.y"},{"email":"Kim@x.y","confirmed_at":"2024"}]''
      else if suffix ''/users/7'' (hr_url r) then ''{"id":7,"username":"Kim","state":"active"}''
      else ''[{"id":7,"username":"Kim","state":"active"}]'')\<close>

definition users_world :: world where
  "users_world = \<lparr>w_answer = \<lambda>tr r. Inr \<lparr>hs_status = 200, hs_header = \<lambda>_. [], hs_body = Inr (users_answer r)\<rparr>,
     w_done = \<lambda>_. False\<rparr>"

definition users_config :: hook_config where
  "users_config = \<lparr>hc_base_url = ''https://gl'', hc_api_token = ''t'', hc_webhook_url = ''https://c/hook'',
     hc_webhook_token = ''w'', hc_hook_name = ''Crowsnest'', hc_ssl = True\<rparr>"


theorem enrich_is_bounded_witness:
  "\<exists>e' errs tr'. enrich_event users_world users_config no_event [] = (e', errs, tr') \<and> length errs \<le> 1"
proof -
  obtain e' errs tr' where r: "enrich_event users_world users_config no_event [] = (e', errs, tr')" by (metis prod_cases3)
  have "length (identity_refs no_event) = 1" by code_simp
  with enrich_is_bounded [OF r] r show ?thesis by auto
qed

theorem user_listing_ends_witness:
  "\<exists>res tr'. list_users users_world users_config [] = Some (res, tr')"
proof -
  have "users_page_ends users_world users_config 1 tr" for tr by code_simp
  then show ?thesis using user_listing_ends [of 1 users_world users_config "[]"] by auto
qed

end
