(* ===== verification/FeishuCard.thy ===== *)
theory FeishuCard
  imports DecoderText RoutingText
begin

section \<open>Cards\<close>

text \<open>
  adapter/messenger/feishu/card.go: a notification and the settings panel as the JSON of a card.
  The maps of the code are JSON objects; \<open>json.Marshal\<close> sorts their keys.
\<close>

subsection \<open>Text\<close>

definition escape_markdown_char :: "char \<Rightarrow> string" where
  "escape_markdown_char c =
     (if c = CHR 0x5C \<or> c \<in> set ''[]()`'' then [CHR 0x5C, c] else [c])"

definition escape_markdown_text :: "string \<Rightarrow> string" where
  "escape_markdown_text value = concat (map escape_markdown_char value)"

definition escape_markdown_url :: "string \<Rightarrow> string" where
  "escape_markdown_url value =
     concat (map (\<lambda>c. if c = CHR ''('' then ''%28'' else if c = CHR '')'' then ''%29'' else [c]) value)"

definition dot_separator :: string where
  "dot_separator = '' '' @ middle_dot @ '' ''"

definition valid_url :: "string \<Rightarrow> bool" where
  "valid_url value =
     (case parse_url (trim_space value) of
        None \<Rightarrow> False
      | Some u \<Rightarrow> (equal_fold (u_scheme u) ''http'' \<or> equal_fold (u_scheme u) ''https'') \<and> u_host u \<noteq> [])"

definition render_link :: "notification_link \<Rightarrow> string option" where
  "render_link l =
     (if ln_label l = [] \<or> \<not> valid_url (ln_url l) then None
      else Some (''['' @ escape_markdown_text (cut_runes (ln_label l) 120) @ '']('' @ escape_markdown_url (ln_url l) @ '')''))"

fun collect_links :: "notification_link list \<Rightarrow> nat \<Rightarrow> string list \<Rightarrow> string list \<Rightarrow> string list" where
  "collect_links [] limit values seen = values"
| "collect_links (l # ls) limit values seen =
     (if length values = limit then values
      else if ln_label l = [] \<or> \<not> valid_url (ln_url l) then collect_links ls limit values seen
      else
        let key = ln_label l @ [CHR 0x00] @ ln_url l in
        if key \<in> set seen then collect_links ls limit values seen
        else case render_link l of
          Some text \<Rightarrow> collect_links ls limit (values @ [text]) (key # seen)
        | None \<Rightarrow> collect_links ls limit values (key # seen))"

definition render_links :: "notification_link list \<Rightarrow> nat \<Rightarrow> string" where
  "render_links links limit = (if limit = 0 then [] else join (collect_links links limit [] []) dot_separator)"

definition more_text :: "nat \<Rightarrow> string" where
  "more_text n = ''+'' @ nat_string n @ '' more''"

definition join_limited :: "string list \<Rightarrow> nat \<Rightarrow> string" where
  "join_limited values limit =
     (if length values \<le> limit then join values '', ''
      else join (take limit values) '', '' @ '' '' @ more_text (length values - limit))"

text \<open>
  The failed jobs by name: a job takes the next link of its name. \<open>links_by_label\<close> keeps the
  links that render, in order, under their label.
\<close>

definition links_by_label :: "notification_link list \<Rightarrow> string \<Rightarrow> notification_link list" where
  "links_by_label links label = filter (\<lambda>l. ln_label l = label \<and> render_link l \<noteq> None) links"

fun render_jobs ::
  "string list \<Rightarrow> nat \<Rightarrow> (string \<Rightarrow> notification_link list) \<Rightarrow> string list \<Rightarrow> bool \<Rightarrow> nat \<Rightarrow> string list \<times> bool \<times> nat" where
  "render_jobs [] limit links parts linked omitted = (parts, linked, omitted)"
| "render_jobs (name # names) limit links parts linked omitted =
     (if name = [] then render_jobs names limit links parts linked omitted
      else if length parts = limit then render_jobs names limit links parts linked (omitted + 1)
      else case links name of
        l # ls \<Rightarrow>
          (case render_link l of
             Some text \<Rightarrow> render_jobs names limit (links(name := ls)) (parts @ [text]) True omitted
           | None \<Rightarrow> render_jobs names limit links (parts @ [escape_markdown_text (cut_runes name 120)]) linked omitted)
      | [] \<Rightarrow> render_jobs names limit links (parts @ [escape_markdown_text (cut_runes name 120)]) linked omitted)"

fun render_job_links :: "notification_link list \<Rightarrow> nat \<Rightarrow> string list \<Rightarrow> bool \<Rightarrow> nat \<Rightarrow> string list \<times> bool \<times> nat" where
  "render_job_links [] limit parts linked omitted = (parts, linked, omitted)"
| "render_job_links (l # ls) limit parts linked omitted =
     (if length parts = limit then render_job_links ls limit parts linked (omitted + 1)
      else case render_link l of
        Some text \<Rightarrow> render_job_links ls limit (parts @ [text]) True omitted
      | None \<Rightarrow> render_job_links ls limit parts linked omitted)"

definition render_failed_jobs :: "notification \<Rightarrow> nat \<Rightarrow> string \<times> bool" where
  "render_failed_jobs n limit =
     (if limit = 0 then ([], False)
      else
        let (parts, linked, omitted) =
          (if n_failed_jobs n = [] then render_job_links (n_failed_job_links n) limit [] False 0
           else render_jobs (n_failed_jobs n) limit (links_by_label (n_failed_job_links n)) [] False 0)
        in (join (if 0 < omitted then parts @ [more_text omitted] else parts) dot_separator, linked))"

definition failed_jobs_text :: "notification \<Rightarrow> string \<times> string" where
  "failed_jobs_text n =
     (case render_failed_jobs n 8 of (links, has_link) \<Rightarrow>
        if has_link then (''lark_md'', ''Failed Jobs: '' @ links)
        else (''plain_text'', ''Failed Jobs: '' @ join_limited (n_failed_jobs n) 8))"

definition open_button_label :: "notification \<Rightarrow> string" where
  "open_button_label n =
     (if n_kind n = EventKindPipeline then ''Open Pipeline''
      else if n_kind n = EventKindMergeRequest then ''Open Merge Request''
      else if n_kind n = EventKindIssue then ''Open Issue''
      else if n_kind n = EventKindNote then ''Open Comment'' else ''Open in GitLab'')"

definition source_text_label :: "notification \<Rightarrow> string" where
  "source_text_label n =
     (if n_kind n = EventKindPipeline then ''Commit''
      else if n_kind n = EventKindNote then ''Comment''
      else if n_kind n = EventKindMergeRequest \<or> n_kind n = EventKindIssue then ''Description'' else ''Content'')"

subsection \<open>Facts\<close>

definition fact_order :: "string list" where
  "fact_order = [''Project'', ''Title'', ''Changed'', ''Branch'', ''Source'', ''State'', ''Status'',
     ''Commit author'', ''Triggered by'', ''Changed by'', ''Commented by'']"

definition ordered_fact_keys :: "(string, string) gomap \<Rightarrow> string list" where
  "ordered_fact_keys facts =
     filter (\<lambda>k. map_of facts k \<noteq> None) fact_order
     @ sort (filter (\<lambda>k. k \<notin> set fact_order) (map fst facts))"

subsection \<open>Elements\<close>

definition text_of :: "string \<Rightarrow> string \<Rightarrow> json" where
  "text_of tag content = JObj [(''tag'', JStr tag), (''content'', JStr content)]"

definition div_of :: "string \<Rightarrow> string \<Rightarrow> json" where
  "div_of tag content = JObj [(''tag'', JStr ''div''), (''text'', text_of tag content)]"

definition hr :: json where
  "hr = JObj [(''tag'', JStr ''hr'')]"

definition button_of :: "string \<Rightarrow> string \<Rightarrow> string \<Rightarrow> json \<Rightarrow> json" where
  "button_of type label key target =
     JObj [(''tag'', JStr ''button''), (''type'', JStr type), (''text'', text_of ''plain_text'' label), (key, target)]"

definition button_value :: "notification_action \<Rightarrow> json" where
  "button_value a = JObj (map (\<lambda>(k, v). (k, JStr v)) (AList.update ''action'' (na_action a) (na_value a)))"

definition action_buttons :: "notification_action list \<Rightarrow> json list" where
  "action_buttons actions =
     map (\<lambda>a. button_of ''default'' (na_label a) ''value'' (button_value a)) (filter (\<lambda>a. na_label a \<noteq> []) actions)"

definition action_row :: "json list \<Rightarrow> json" where
  "action_row actions = JObj [(''tag'', JStr ''action''), (''actions'', JArr actions)]"

definition card_of :: "string \<Rightarrow> string \<Rightarrow> json list \<Rightarrow> json" where
  "card_of template title elements =
     JObj [(''config'', JObj [(''wide_screen_mode'', JBool True), (''update_multi'', JBool True)]),
       (''header'', JObj [(''template'', JStr template), (''title'', text_of ''plain_text'' title)]),
       (''elements'', JArr elements)]"

subsection \<open>The card of a notification\<close>

definition card_title :: "notification \<Rightarrow> string" where
  "card_title n = (if n_title n = [] then ''Notification'' else n_title n)"

definition card_template :: "notification \<Rightarrow> string" where
  "card_template n =
     (if n_kind n = EventKindPipeline \<and> n_action n = ''failed'' then ''red''
      else if n_kind n = EventKindPipeline \<and> n_action n = ''success'' then ''green'' else ''blue'')"

definition fact_elements :: "(string, string) gomap \<Rightarrow> json list" where
  "fact_elements facts =
     (if facts = [] then []
      else hr # map (\<lambda>k. div_of ''plain_text'' (k @ '': '' @ the (map_of facts k))) (ordered_fact_keys facts))"

definition job_elements :: "notification \<Rightarrow> json list" where
  "job_elements n =
     (if n_failed_jobs n \<noteq> [] \<or> n_failed_job_links n \<noteq> []
      then [hr, (case failed_jobs_text n of (tag, content) \<Rightarrow> div_of tag content)] else [])"

definition source_elements :: "notification \<Rightarrow> json list" where
  "source_elements n =
     (if n_source_text n = [] then []
      else [hr, div_of ''plain_text'' (source_text_label n @ '': '' @ cut_runes (n_source_text n) 1000)])"

definition reason_elements :: "notification \<Rightarrow> json list" where
  "reason_elements n =
     (if length (n_reasons n) \<le> 1 then []
      else [hr, div_of ''plain_text'' (''Related: '' @ join (map re_text (n_reasons n)) dot_separator)])"

definition link_elements :: "notification \<Rightarrow> json list" where
  "link_elements n =
     (let related = render_links (n_related_links n) 4 in
      if n_related_links n = [] \<or> related = [] then [] else [hr, div_of ''lark_md'' (''Links: '' @ related)])"

definition card_actions :: "notification \<Rightarrow> json list" where
  "card_actions n =
     (if valid_url (n_url n) then [button_of ''primary'' (open_button_label n) ''url'' (JStr (n_url n))] else [])
     @ action_buttons (n_actions n)"

definition card_json :: "notification \<Rightarrow> json" where
  "card_json n = card_of (card_template n) (card_title n)
     ([div_of ''plain_text'' (n_summary n)] @ fact_elements (n_facts n) @ job_elements n @ source_elements n
      @ reason_elements n @ link_elements n
      @ (if card_actions n = [] then [] else [hr, action_row (card_actions n)]))"

definition render_card :: "notification \<Rightarrow> string" where
  "render_card n = marshal (card_json n)"

subsection \<open>The settings panel\<close>

definition settings_status :: "preference_state \<Rightarrow> string" where
  "settings_status st =
     (if \<not> pr_muted st then ''Alerts: On''
      else case pr_muted_until st of
        Some t \<Rightarrow> ''Alerts: Muted until '' @ date_string (ms_of t div day_ms) @ '' (UTC)''
      | None \<Rightarrow> ''Alerts: Muted'')"

definition settings_button :: "string \<Rightarrow> string \<Rightarrow> string \<Rightarrow> json" where
  "settings_button type label action = button_of type label ''value'' (JObj [(''action'', JStr action)])"

definition settings_json :: "preference_state \<Rightarrow> json" where
  "settings_json st = card_of ''grey'' ''Crowsnest settings''
     [div_of ''plain_text'' (settings_status st), hr,
      action_row
        [(if pr_muted st then settings_button ''primary'' (string_of_runes [0x1F514] @ '' Unmute'') ActionUnmuteAll
          else settings_button ''default'' (string_of_runes [0x1F515] @ '' Mute 30d'') ActionMuteAll),
         settings_button ''default'' ''Close'' ActionCloseSettings]]"

definition render_settings_card :: "preference_state \<Rightarrow> string" where
  "render_settings_card st = marshal (settings_json st)"

end
