(* ===== verification/JsonRoundTrip.thy ===== *)
theory JsonRoundTrip
  imports DecoderText
begin

section \<open>JSON texts that are written are read back\<close>

text \<open>
  \<open>json.Unmarshal\<close> after \<open>json.Marshal\<close>: a value without numbers comes back with its keys
  sorted, the last of equal keys kept, and its strings in well-formed UTF-8. The lexer is
  followed along the text, then the parser along the tokens.
\<close>

definition clean_string :: "string \<Rightarrow> string" where
  "clean_string s = string_of_runes (runes s)"

fun number_free :: "json \<Rightarrow> bool" where
  "number_free (JNum n) = False"
| "number_free (JArr vs) = list_all number_free vs"
| "number_free (JObj ms) = list_all (\<lambda>(k, v). number_free v) ms"
| "number_free v = True"

fun canon :: "json \<Rightarrow> json" where
  "canon (JStr s) = JStr (clean_string s)"
| "canon (JArr vs) = JArr (map canon vs)"
| "canon (JObj ms) = JObj (map (\<lambda>(k, v). (clean_string k, v)) (sorted_members (map (\<lambda>(k, v). (k, canon v)) ms)))"
| "canon v = v"

subsection \<open>Strings\<close>

definition escaped_rune :: "nat \<times> bool \<Rightarrow> bool" where
  "escaped_rune p \<longleftrightarrow> snd p \<or> (fst p < 32 \<and> fst p \<notin> {8, 9, 10, 12, 13}) \<or> fst p \<in> {0x3C, 0x3E, 0x26, 0x2028, 0x2029}"

definition rune_tokens :: "nat \<times> bool \<Rightarrow> (char + nat) list" where
  "rune_tokens p = (if escaped_rune p then [Inr (fst p)] else map Inl (string_of_runes [fst p]))"

definition rune_text :: "nat \<times> bool \<Rightarrow> string" where
  "rune_text p = (case p of (r, bad) \<Rightarrow> if bad then unicode_escape r else json_rune r)"

lemma hex_digit_low: "d < 16 \<Longrightarrow> hex_digit (if d < 10 then char_of (48 + d) else char_of (87 + d)) = Some d"
  by (auto simp: hex_digit_def)

lemma hex4_unicode:
  assumes "r < 65536"
  shows "string_body (unicode_escape r @ s) = cons_fst (Inr r) (string_body s)"
proof -
  define dig where "dig d = (if d < 10 then char_of (48 + d) else char_of (87 + d) :: char)" for d :: nat
  have h: "hex_digit (dig d) = Some d" if "d < 16" for d unfolding dig_def by (rule hex_digit_low [OF that])
  have e: "r div 256 = r div 16 div 16" "r div 4096 = r div 16 div 16 div 16" by (simp_all flip: div_mult2_eq)
  have "r div 16 div 16 div 16 < 16" using assms by (simp add: less_mult_imp_div_less)
  then have "r div 16 div 16 div 16 mod 16 = r div 16 div 16 div 16" by simp
  moreover note mult_div_mod_eq [of 16 r] mult_div_mod_eq [of 16 "r div 16"] mult_div_mod_eq [of 16 "r div 16 div 16"]
  ultimately have sum: "r div 4096 mod 16 * 4096 + r div 256 mod 16 * 256 + r div 16 mod 16 * 16 + r mod 16 = r"
    unfolding e by linarith
  have "hex4 (dig a) (dig b) (dig c) (dig d) = Some (a * 4096 + b * 256 + c * 16 + d)"
    if "a < 16" "b < 16" "c < 16" "d < 16" for a b c d
    using that by (simp add: hex4_def h)
  from this [of "r div 4096 mod 16" "r div 256 mod 16" "r div 16 mod 16" "r mod 16", unfolded sum]
  have "hex4 (dig (r div 4096 mod 16)) (dig (r div 256 mod 16)) (dig (r div 16 mod 16)) (dig (r mod 16)) = Some r"
    by (simp only: mod_less_divisor zero_less_numeral simp_thms)
  moreover have "unicode_escape r = [CHR 0x5C, CHR ''u'', dig (r div 4096 mod 16), dig (r div 256 mod 16),
      dig (r div 16 mod 16), dig (r mod 16)]"
    by (simp add: unicode_escape_def dig_def)
  moreover have "\<not> code CHR 0x5C < 0x20" by (simp add: code_def)
  ultimately show ?thesis by simp
qed

lemma plain_bytes:
  assumes "list_all (\<lambda>c. 32 \<le> code c \<and> c \<noteq> CHR 0x22 \<and> c \<noteq> CHR 0x5C) bs"
  shows "string_body (bs @ s) = (case string_body s of None \<Rightarrow> None | Some (ts, r) \<Rightarrow> Some (map Inl bs @ ts, r))"
  using assms
proof (induction bs)
  case (Cons c bs)
  then show ?case by (auto simp: cons_fst_def split: option.splits)
qed (auto split: option.split)

lemma cons_fst_case: "cons_fst x r = (case r of None \<Rightarrow> None | Some (ts, q) \<Rightarrow> Some ([x] @ ts, q))"
  by (cases r) (auto simp: cons_fst_def)

lemma bytes_of_large:
  assumes "128 \<le> r"
  shows "list_all (\<lambda>c. 128 \<le> code c) (string_of_runes [r])"
proof -
  have "\<forall>b \<in> set (encode_rune r). 128 \<le> b"
    using assms by (auto simp: encode_rune_def Let_def rune_error_def)
  then show ?thesis
    by (auto simp: string_of_runes_def list_all_iff encode_rune_bytes)
qed

lemma string_of_ascii: "r < 128 \<Longrightarrow> string_of_runes [r] = [char_of r]"
  by (simp add: string_of_runes_def encode_rune_def valid_rune_def)

definition mark_ok :: "nat \<times> bool \<Rightarrow> bool" where
  "mark_ok p \<longleftrightarrow> valid_rune (fst p) \<and> (snd p \<longrightarrow> fst p = rune_error)"

lemma rune_tokens_simple: "r < 128 \<Longrightarrow> \<not> escaped_rune (r, False) \<Longrightarrow> rune_tokens (r, False) = [Inl (char_of r)]"
  by (simp add: rune_tokens_def string_of_ascii)

definition short_escapes :: "(nat \<times> char) list" where
  "short_escapes = [(0x22, CHR 0x22), (0x5C, CHR 0x5C), (8, CHR ''b''), (12, CHR ''f''), (10, CHR ''n''),
     (13, CHR ''r''), (9, CHR ''t'')]"

lemma simple_escape:
  assumes "(r, e) \<in> set short_escapes"
  shows "string_body ([CHR 0x5C, e] @ s) = cons_fst (Inl (char_of r)) (string_body s)"
    "json_rune r = [CHR 0x5C, e]" "rune_tokens (r, False) = [Inl (char_of r)]"
proof -
  have all: "list_all (\<lambda>(r, e). escaped e = Some (char_of r) \<and> e \<noteq> CHR ''u'' \<and> json_rune r = [CHR 0x5C, e]
      \<and> r < 128 \<and> \<not> escaped_rune (r, False)) short_escapes" by code_simp
  then have e: "escaped e = Some (char_of r)" "e \<noteq> CHR ''u''" "json_rune r = [CHR 0x5C, e]" "r < 128" "\<not> escaped_rune (r, False)"
    using assms by (auto simp: list_all_iff)
  show "string_body ([CHR 0x5C, e] @ s) = cons_fst (Inl (char_of r)) (string_body s)"
    using e(1,2) by (simp add: code_def)
  show "json_rune r = [CHR 0x5C, e]" by (rule e(3))
  show "rune_tokens (r, False) = [Inl (char_of r)]" by (rule rune_tokens_simple [OF e(4,5)])
qed

lemma body_rune:
  assumes "mark_ok p"
  shows "string_body (rune_text p @ s)
    = (case string_body s of None \<Rightarrow> None | Some (ts, q) \<Rightarrow> Some (rune_tokens p @ ts, q))"
proof -
  obtain r bad where p: "p = (r, bad)" by fastforce
  show ?thesis
  proof (cases "escaped_rune p")
    case True
    have small: "r < 65536" using True assms by (auto simp: p escaped_rune_def mark_ok_def rune_error_def)
    have "rune_text p = unicode_escape r"
      using True by (auto simp: p escaped_rune_def rune_text_def json_rune_def)
    moreover have "rune_tokens p = [Inr r]" using True by (simp add: rune_tokens_def p)
    ultimately show ?thesis using hex4_unicode [OF small, of s] by (simp only: cons_fst_case)
  next
    case False
    then have bad: "bad = False" by (simp add: p escaped_rune_def)
    show ?thesis
    proof (cases "r \<in> {0x22, 0x5C, 8, 12, 10, 13, 9}")
      case True
      then obtain e where "(r, e) \<in> set short_escapes" by (auto simp: short_escapes_def)
      note esc = simple_escape(1) [OF this, of s] simple_escape(2,3) [OF this]
      show ?thesis unfolding p bad rune_text_def prod.case if_False esc(2,3) by (simp only: esc(1) cons_fst_case)
    next
      case plain: False
      have raw: "rune_text p = string_of_runes [r]"
        using False plain by (auto simp: p bad escaped_rune_def rune_text_def json_rune_def)
      have "list_all (\<lambda>c. 32 \<le> code c \<and> c \<noteq> CHR 0x22 \<and> c \<noteq> CHR 0x5C) (string_of_runes [r])"
      proof (cases "128 \<le> r")
        case True
        have "code CHR 0x22 < 128" "code CHR 0x5C < 128" by (simp_all add: code_def)
        then show ?thesis using bytes_of_large [OF True] by (auto simp: list_all_iff)
      next
        case small: False
        have "32 \<le> r" "r \<noteq> 0x22" "r \<noteq> 0x5C" using False plain by (auto simp: p bad escaped_rune_def)
        moreover have "code CHR 0x22 = 0x22" "code CHR 0x5C = 0x5C" by (simp_all add: code_def)
        moreover have "code (char_of r) = r" using small by simp
        ultimately show ?thesis using small string_of_ascii [of r] by (auto simp del: code_char_of)
      qed
      note bytes = plain_bytes [OF this, of s]
      have "rune_tokens p = map Inl (string_of_runes [r])" using False by (simp add: rune_tokens_def p)
      then show ?thesis by (simp only: raw bytes)
    qed
  qed
qed

lemma body_runes:
  assumes "list_all mark_ok ps"
  shows "string_body (concat (map rune_text ps) @ CHR 0x22 # s) = Some (concat (map rune_tokens ps), s)"
  using assms
proof (induction ps)
  case (Cons p ps)
  then have "string_body (rune_text p @ concat (map rune_text ps) @ CHR 0x22 # s)
      = Some (rune_tokens p @ concat (map rune_tokens ps), s)"
    using body_rune [of p "concat (map rune_text ps) @ CHR 0x22 # s"] by simp
  then show ?case by simp
qed simp

text \<open>Unquoting the tokens gives the runes back.\<close>

lemma isl_tokens: "\<not> escaped_rune p \<Longrightarrow> list_all isl (rune_tokens p)"
  by (simp add: rune_tokens_def list_all_iff)

lemma takeWhile_tokens:
  "list_all (\<lambda>p. \<not> escaped_rune p) ps \<Longrightarrow> (qs = [] \<or> escaped_rune (hd qs)) \<Longrightarrow>
   takeWhile isl (concat (map rune_tokens (ps @ qs))) = concat (map rune_tokens ps)
   \<and> dropWhile isl (concat (map rune_tokens (ps @ qs))) = concat (map rune_tokens qs)"
proof (induction ps)
  case Nil
  then show ?case by (cases qs) (auto simp: rune_tokens_def)
next
  case (Cons p ps)
  then have "\<forall>t \<in> set (rune_tokens p). isl t" using isl_tokens [of p] by (simp add: list_all_iff)
  with Cons show ?case by (simp add: takeWhile_append2 dropWhile_append2)
qed

lemma tokens_bytes: "list_all (\<lambda>p. \<not> escaped_rune p) ps \<Longrightarrow>
  map projl (concat (map rune_tokens ps)) = string_of_runes (map fst ps)"
  by (induction ps) (simp_all add: rune_tokens_def string_of_runes_def comp_def)

lemma string_of_runes_Cons: "string_of_runes (r # rs) = string_of_runes [r] @ string_of_runes rs"
  by (simp add: string_of_runes_def)

lemma unquote_run:
  assumes "xs \<noteq> []" "list_all isl xs" "ys = [] \<or> \<not> isl (hd ys)"
  shows "unquote (xs @ ys) = string_of_runes (runes (map projl xs)) @ unquote ys"
proof -
  obtain c zs where xs: "xs = Inl c # zs" using assms(1,2) by (cases xs) (auto simp: isl_def)
  have "takeWhile isl (zs @ ys) = zs" "dropWhile isl (zs @ ys) = ys"
    using assms(2,3) by (cases ys; auto simp: xs list_all_iff takeWhile_append2 dropWhile_append2)+
  then show ?thesis by (simp add: xs)
qed

lemma unquote_runes: "list_all mark_ok ps \<Longrightarrow> unquote (concat (map rune_tokens ps)) = string_of_runes (map fst ps)"
proof (induction "length ps" arbitrary: ps rule: less_induct)
  case less
  show ?case
  proof (cases ps)
    case Nil
    then show ?thesis by (simp add: string_of_runes_def)
  next
    case (Cons p qs)
    show ?thesis
    proof (cases "escaped_rune p")
      case True
      have "\<not> surrogate (fst p)"
        using less(2) Cons True by (auto simp: mark_ok_def valid_rune_def surrogate_def)
      moreover have "unquote (concat (map rune_tokens qs)) = string_of_runes (map fst qs)"
        using less Cons by simp
      ultimately show ?thesis
        using True string_of_runes_Cons [of "fst p" "map fst qs"] by (simp add: Cons rune_tokens_def)
    next
      case False
      define us where "us = takeWhile (\<lambda>p. \<not> escaped_rune p) ps"
      define vs where "vs = dropWhile (\<lambda>p. \<not> escaped_rune p) ps"
      have ps: "ps = us @ vs" by (simp add: us_def vs_def)
      have us: "list_all (\<lambda>p. \<not> escaped_rune p) us" by (auto simp: us_def list_all_iff dest: set_takeWhileD)
      have vs: "vs = [] \<or> escaped_rune (hd vs)"
        using hd_dropWhile [of "\<lambda>p. \<not> escaped_rune p" ps] by (auto simp: vs_def)
      have ne: "us \<noteq> []" using False Cons by (simp add: us_def)
      have "rune_tokens u \<noteq> []" for u by (simp add: rune_tokens_def string_of_runes_def)
      then have "concat (map rune_tokens us) \<noteq> []" using ne by (cases us) auto
      moreover have "list_all isl (concat (map rune_tokens us))"
        using us isl_tokens by (induction us) auto
      moreover have "concat (map rune_tokens vs) = [] \<or> \<not> isl (hd (concat (map rune_tokens vs)))"
        using vs by (cases vs) (auto simp: rune_tokens_def)
      ultimately have "unquote (concat (map rune_tokens ps))
          = string_of_runes (runes (string_of_runes (map fst us))) @ unquote (concat (map rune_tokens vs))"
        using unquote_run tokens_bytes [OF us] by (simp add: ps)
      moreover have "runes (string_of_runes (map fst us)) = map fst us"
        using less(2) by (intro runes_string_of_runes) (auto simp: ps list_all_iff mark_ok_def)
      moreover have "unquote (concat (map rune_tokens vs)) = string_of_runes (map fst vs)"
        using less ne by (simp add: ps)
      ultimately show ?thesis by (simp add: ps string_of_runes_append)
    qed
  qed
qed

lemma marked_runes_ok: "list_all mark_ok (marked_runes s)"
proof -
  have "list_all mark_ok (marked_runes_of bs)" for bs
    by (induction bs rule: marked_runes_of.induct) (auto simp: mark_ok_def decode_valid simp del: decode_bytes.simps)
  then show ?thesis by (simp add: marked_runes_def)
qed

lemma next_string: "next_token (json_string s @ r) = Some (TStr (clean_string s), r)"
proof -
  have "json_string s = CHR 0x22 # concat (map rune_text (marked_runes s)) @ [CHR 0x22]"
    unfolding json_string_def rune_text_def by simp
  then show ?thesis
    using body_runes [OF marked_runes_ok, of s r] unquote_runes [OF marked_runes_ok, of s]
    by (simp add: next_token_def clean_string_def map_fst_marked_runes)
qed

subsection \<open>The lexer\<close>

fun seps :: "token list list \<Rightarrow> token list" where
  "seps [] = []"
| "seps [t] = t"
| "seps (t # u # us) = t @ TComma # seps (u # us)"

fun toks :: "json \<Rightarrow> token list" where
  "toks (JStr s) = [TStr (clean_string s)]"
| "toks (JArr vs) = TOpenArr # seps (map toks vs) @ [TCloseArr]"
| "toks (JObj ms) = TOpenObj # seps (map (\<lambda>(k, t). TStr (clean_string k) # TColon # t)
     (sorted_members (map (\<lambda>(k, v). (k, toks v)) ms))) @ [TCloseObj]"
| "toks v = [TLit v]"

lemma sorted_members_map:
  "sorted_members (map (\<lambda>(k, v). (k, f v)) ms) = map (\<lambda>(k, v). (k, f v)) (sorted_members ms)"
proof -
  have keys: "fst ` set (map (\<lambda>(k, v). (k, f v)) ms) = fst ` set ms" by force
  have look: "map_of (rev (map (\<lambda>(k, v). (k, f v)) ms)) k = map_option f (map_of (rev ms) k)" for k
    using map_of_map [of f "rev ms"] by (simp add: rev_map)
  have "the (map_option f (map_of (rev ms) k)) = f (the (map_of (rev ms) k))" if "k \<in> fst ` set ms" for k
    using that by (metis (no_types, lifting) map_of_eq_None_iff not_None_eq option.map_sel option.sel set_rev)
  then show ?thesis
    unfolding sorted_members_def keys look by simp
qed

lemma sorted_members_in: "(k, v) \<in> set (sorted_members ms) \<Longrightarrow> (k, v) \<in> set ms"
proof -
  assume "(k, v) \<in> set (sorted_members ms)"
  then have "k \<in> fst ` set ms" "v = the (map_of (rev ms) k)" by (auto simp: sorted_members_def)
  then have "map_of (rev ms) k = Some v"
    by (metis map_of_eq_None_iff option.exhaust_sel set_rev)
  from map_of_SomeD [OF this] show ?thesis by simp
qed

definition lexes :: "string \<Rightarrow> token list \<Rightarrow> bool" where
  "lexes x tx \<longleftrightarrow> (\<forall>rest. tokens (x @ rest) = map_option (append tx) (tokens rest))"

lemma lexes_Nil: "lexes [] []"
proof -
  have "append [] = (\<lambda>x. x :: token list)" by (rule ext) simp
  then show ?thesis by (simp add: lexes_def option.map_ident)
qed

lemma lexes_append: "lexes x tx \<Longrightarrow> lexes y ty \<Longrightarrow> lexes (x @ y) (tx @ ty)"
proof -
  assume "lexes x tx" "lexes y ty"
  moreover have "append (tx @ ty) = append tx \<circ> append ty" by (rule ext) simp
  ultimately show ?thesis by (simp add: lexes_def option.map_comp)
qed

lemma lexes_token:
  assumes "x \<noteq> []" "\<not> json_space (hd x)" "\<And>rest. next_token (x @ rest) = Some (k, rest)"
  shows "lexes x [k]"
  unfolding lexes_def
proof
  fix rest
  have "dropWhile json_space (x @ rest) = x @ rest" using assms(1,2) by (cases x) auto
  moreover have "append [k] = Cons k" by (rule ext) simp
  ultimately show "tokens (x @ rest) = map_option (append [k]) (tokens rest)"
    using assms(1,3) by (simp add: tokens.simps [of "x @ rest"] Let_def)
qed

lemma lexes_punctuation:
  "lexes ''['' [TOpenArr]" "lexes '']'' [TCloseArr]" "lexes ''{'' [TOpenObj]" "lexes ''}'' [TCloseObj]"
  "lexes '','' [TComma]" "lexes '':'' [TColon]"
  by (rule lexes_token; simp add: json_space_def next_token_def)+

lemma lexes_literals: "lexes ''null'' [TLit JNull]" "lexes (bool_text b) [TLit (JBool b)]"
  by (rule lexes_token; simp add: json_space_def next_token_def bool_text_def)+

lemma lexes_string: "lexes (json_string s) [TStr (clean_string s)]"
  by (rule lexes_token) (simp_all add: next_string, simp_all add: json_string_def json_space_def)

lemma lexes_join:
  assumes "list_all2 lexes xs ts"
  shows "lexes (join xs '','') (seps ts)"
  using assms
proof (induction rule: list_all2_induct)
  case (Cons x xs t ts)
  show ?case
  proof (cases xs)
    case Nil
    then show ?thesis using Cons by simp
  next
    case (Cons y ys)
    then obtain u us where ts: "ts = u # us" using Cons.hyps(2) by (cases ts) auto
    have "lexes (x @ '','' @ join xs '','') (t @ [TComma] @ seps ts)"
      by (intro lexes_append Cons.hyps(1) lexes_punctuation Cons.IH)
    then show ?thesis using Cons ts by simp
  qed
qed (simp add: lexes_Nil)

lemma list_all2_refl_in: "(\<And>x. x \<in> set xs \<Longrightarrow> P x x) \<Longrightarrow> list_all2 P xs xs"
  by (auto simp: list_all2_conv_all_nth)

lemma lexes_marshal: "number_free v \<Longrightarrow> lexes (marshal v) (toks v)"
proof (induction v)
  case (JArr vs)
  then have "list_all2 lexes (map marshal vs) (map toks vs)"
    by (simp add: list_all2_conv_all_nth list_all_length)
  then have "lexes (''['' @ join (map marshal vs) '','' @ '']'') ([TOpenArr] @ seps (map toks vs) @ [TCloseArr])"
    by (intro lexes_append lexes_join lexes_punctuation)
  then show ?case by simp
next
  case (JObj ms)
  let ?ms = "sorted_members ms"
  have "lexes (json_string k @ '':'' @ marshal v) ([TStr (clean_string k)] @ [TColon] @ toks v)" if "(k, v) \<in> set ?ms" for k v
  proof -
    have "(k, v) \<in> set ms" by (rule sorted_members_in [OF that])
    then have "lexes (marshal v) (toks v)" using JObj by (auto simp: list_all_iff)
    then show ?thesis by (intro lexes_append lexes_string lexes_punctuation)
  qed
  then have "list_all2 lexes (map (\<lambda>(k, v). json_string k @ '':'' @ marshal v) ?ms)
      (map (\<lambda>(k, v). [TStr (clean_string k)] @ [TColon] @ toks v) ?ms)"
    unfolding list_all2_map1 list_all2_map2 by (intro list_all2_refl_in) auto
  then have "lexes (''{'' @ join (map (\<lambda>(k, v). json_string k @ '':'' @ marshal v) ?ms) '','' @ ''}'')
      ([TOpenObj] @ seps (map (\<lambda>(k, v). [TStr (clean_string k)] @ [TColon] @ toks v) ?ms) @ [TCloseObj])"
    by (intro lexes_append lexes_join lexes_punctuation)
  moreover have "marshal (JObj ms) = ''{'' @ join (map (\<lambda>(k, v). json_string k @ '':'' @ marshal v) ?ms) '','' @ ''}''"
    "toks (JObj ms) = [TOpenObj] @ seps (map (\<lambda>(k, v). [TStr (clean_string k)] @ [TColon] @ toks v) ?ms) @ [TCloseObj]"
    unfolding marshal.simps toks.simps sorted_members_map by (simp_all add: comp_def case_prod_unfold)
  ultimately show ?case by (simp only:)
qed (simp_all add: lexes_literals lexes_string)

subsection \<open>The parser\<close>

definition reads :: "json \<Rightarrow> bool" where
  "reads v \<longleftrightarrow> (\<forall>st e ts. e \<in> {WantValue, WantValueOrClose} \<longrightarrow>
     parse_tokens st e (toks v @ ts) = parse_tokens st (GotValue (canon v)) ts)"

lemma readsD: "reads v \<Longrightarrow> e = WantValue \<or> e = WantValueOrClose \<Longrightarrow>
    parse_tokens st e (toks v @ ts) = parse_tokens st (GotValue (canon v)) ts"
  by (auto simp: reads_def)

lemma reads_elements:
  assumes "list_all reads vs" "vs \<noteq> []" "e \<in> {WantValue, WantValueOrClose}"
  shows "parse_tokens (InArr xs # st) e (seps (map toks vs) @ TCloseArr # ts)
    = parse_tokens st (GotValue (JArr (rev xs @ map canon vs))) ts"
  using assms
proof (induction vs arbitrary: xs e)
  case (Cons v vs)
  then show ?case by (cases vs) (simp_all add: readsD)
qed simp

definition member_tokens :: "string \<times> json \<Rightarrow> token list" where
  "member_tokens m = TStr (clean_string (fst m)) # TColon # toks (snd m)"

lemma reads_members:
  assumes "list_all (\<lambda>m. reads (snd m)) ms" "ms \<noteq> []" "e \<in> {WantKey, WantKeyOrClose}"
  shows "parse_tokens (InObj xs # st) e (seps (map member_tokens ms) @ TCloseObj # ts)
    = parse_tokens st (GotValue (JObj (rev xs @ map (\<lambda>(k, v). (clean_string k, canon v)) ms))) ts"
  using assms
proof (induction ms arbitrary: xs e)
  case (Cons m ms)
  obtain k v where m: "m = (k, v)" by fastforce
  have v: "parse_tokens s WantValue (toks v @ r) = parse_tokens s (GotValue (canon v)) r" for s r
    using Cons.prems(1) by (simp add: reads_def m)
  have key: "parse_tokens (InObj xs # st) e (TStr (clean_string k) # TColon # r)
      = parse_tokens (InMember xs (clean_string k) # st) WantValue r" for r
    using Cons.prems(3) by auto
  show ?case
  proof (cases ms)
    case Nil
    then show ?thesis by (simp add: m member_tokens_def key v del: parse_tokens.simps) simp
  next
    case (Cons n ns)
    have "parse_tokens (InObj ((clean_string k, canon v) # xs) # st) WantKey (seps (map member_tokens ms) @ TCloseObj # ts)
        = parse_tokens st (GotValue (JObj (rev ((clean_string k, canon v) # xs) @ map (\<lambda>(k, v). (clean_string k, canon v)) ms))) ts"
      using Cons.IH Cons.prems Cons by simp
    moreover have "parse_tokens (InObj xs # st) e (seps (map member_tokens (m # ms)) @ TCloseObj # ts)
        = parse_tokens (InMember xs (clean_string k) # st) (GotValue (canon v)) (TComma # seps (map member_tokens ms) @ TCloseObj # ts)"
      by (simp add: Cons m member_tokens_def key v del: parse_tokens.simps)
    ultimately show ?thesis by (simp add: m)
  qed
qed simp

lemma open_step:
  assumes "e \<in> {WantValue, WantValueOrClose}" "t \<noteq> TCloseArr"
  shows "parse_step st e t = open_token t st"
proof (cases st)
  case Nil
  then show ?thesis using assms by (cases t) auto
next
  case (Cons f fs)
  then show ?thesis using assms by (cases t; cases f) auto
qed

lemma reads_value:
  assumes "toks v = [t]" "t \<noteq> TCloseArr" "\<And>st. open_token t st = Some (st, GotValue (canon v))"
  shows "reads v"
  unfolding reads_def using assms open_step by simp

lemma toks_read: "number_free v \<Longrightarrow> reads v"
proof (induction v)
  case (JArr vs)
  then have all: "list_all reads vs" by (simp add: list_all_iff)
  have "parse_tokens st e (toks (JArr vs) @ ts) = parse_tokens (InArr [] # st) WantValueOrClose (seps (map toks vs) @ TCloseArr # ts)"
    if "e \<in> {WantValue, WantValueOrClose}" for st e ts
    using open_step [OF that, of TOpenArr] by (simp add: open_token_def)
  then show ?case using reads_elements [OF all] by (cases "vs = []") (simp_all add: reads_def)
next
  case (JObj ms)
  let ?ms = "sorted_members ms"
  have all: "list_all (\<lambda>m. reads (snd m)) ?ms"
    using JObj sorted_members_in [of _ _ ms] by (fastforce simp: list_all_iff)
  have toks: "toks (JObj ms) = TOpenObj # seps (map member_tokens ?ms) @ [TCloseObj]"
    unfolding toks.simps sorted_members_map by (simp add: comp_def case_prod_unfold member_tokens_def [abs_def])
  have canon: "canon (JObj ms) = JObj (map (\<lambda>(k, v). (clean_string k, canon v)) ?ms)"
    unfolding canon.simps sorted_members_map by (simp add: comp_def case_prod_unfold)
  have "parse_tokens st e (toks (JObj ms) @ ts) = parse_tokens (InObj [] # st) WantKeyOrClose (seps (map member_tokens ?ms) @ TCloseObj # ts)"
    if "e \<in> {WantValue, WantValueOrClose}" for st e ts
    unfolding toks using open_step [OF that, of TOpenObj] by (simp add: open_token_def)
  moreover have "parse_tokens (InObj [] # st) WantKeyOrClose (seps (map member_tokens ?ms) @ TCloseObj # ts)
      = parse_tokens st (GotValue (canon (JObj ms))) ts" for st ts
    unfolding canon using reads_members [OF all, of WantKeyOrClose "[]" st ts] by (cases "?ms = []") simp_all
  ultimately show ?case unfolding reads_def by metis
qed (simp_all add: reads_value [where t = "TStr _"] reads_value [where t = "TLit _"] open_token_def)

lemma parse_marshal: "number_free v \<Longrightarrow> parse_json (marshal v) = Some (canon v)"
proof -
  assume v: "number_free v"
  have "tokens [] = Some []" by (simp add: tokens.simps)
  then have "tokens (marshal v) = Some (toks v)"
    using lexes_marshal [OF v] by (metis append_Nil2 lexes_def option.simps(9))
  moreover have "parse_tokens [] WantValue (toks v) = Some (canon v)"
    using readsD [OF toks_read [OF v], of WantValue "[]" "[]"] by simp
  ultimately show ?thesis by (simp add: parse_json_def)
qed

end
