(* ===== verification/FeishuCardLaws.thy ===== *)
theory FeishuCardLaws
  imports FeishuCard JsonRoundTrip
begin

section \<open>What a card shows\<close>

text \<open>
  Text from GitLab cannot break the markup of a link; the lists of a card keep their limits; a
  card is JSON that reads back as the card.
\<close>

subsection \<open>Links\<close>

text \<open>A reader of the markup: a backslash takes the next character as it is.\<close>

fun unescape_markdown :: "string \<Rightarrow> string" where
  "unescape_markdown [] = []"
| "unescape_markdown [c] = [c]"
| "unescape_markdown (c # d # s) = (if c = CHR 0x5C then d # unescape_markdown s else c # unescape_markdown (d # s))"

fun bare_markup :: "string \<Rightarrow> string" where
  "bare_markup [] = []"
| "bare_markup [c] = filter (\<lambda>c. c \<in> set ''[]()`'') [c]"
| "bare_markup (c # d # s) =
     (if c = CHR 0x5C then bare_markup s else filter (\<lambda>c. c \<in> set ''[]()`'') [c] @ bare_markup (d # s))"

lemma escape_markdown_Cons: "escape_markdown_text (c # s) = escape_markdown_char c @ escape_markdown_text s"
  by (simp add: escape_markdown_text_def)

lemma escape_markdown_Nil: "escape_markdown_text [] = []"
  by (simp add: escape_markdown_text_def)

lemma unescape_plain: "c \<noteq> CHR 0x5C \<Longrightarrow> unescape_markdown (c # s) = c # unescape_markdown s"
  by (cases s) simp_all

lemma bare_plain: "c \<noteq> CHR 0x5C \<Longrightarrow> c \<notin> set ''[]()`'' \<Longrightarrow> bare_markup (c # s) = bare_markup s"
  by (cases s) simp_all

lemma escape_reads_back:
  "unescape_markdown (escape_markdown_text s) = s \<and> bare_markup (escape_markdown_text s) = []"
proof (induction s)
  case (Cons c s)
  show ?case
  proof (cases "c = CHR 0x5C \<or> c \<in> set ''[]()`''")
    case True
    then show ?thesis unfolding escape_markdown_Cons escape_markdown_char_def if_P [OF True] using Cons by simp
  next
    case False
    then show ?thesis
      unfolding escape_markdown_Cons escape_markdown_char_def if_not_P [OF False]
      using Cons unescape_plain [of c] bare_plain [of c] by (simp del: set_simps)
  qed
qed (simp add: escape_markdown_Nil)

lemma escape_url_plain: "CHR ''('' \<notin> set (escape_markdown_url s)" "CHR '')'' \<notin> set (escape_markdown_url s)"
  by (auto simp: escape_markdown_url_def)

definition is_link_text :: "string \<Rightarrow> string \<Rightarrow> bool" where
  "is_link_text shown t \<longleftrightarrow>
     (\<exists>lab target. t = ''['' @ lab @ '']('' @ target @ '')'' \<and> unescape_markdown lab = shown
        \<and> bare_markup lab = [] \<and> CHR ''('' \<notin> set target \<and> CHR '')'' \<notin> set target)"

lemma render_link_text: "render_link l = Some t \<Longrightarrow> is_link_text (cut_runes (ln_label l) 120) t \<and> valid_url (ln_url l)"
  unfolding is_link_text_def
  using escape_reads_back [of "cut_runes (ln_label l) 120"] escape_url_plain [of "ln_url l"]
  by (auto simp: render_link_def split: if_splits)

lemma collect_links_spec:
  assumes "length values \<le> limit"
  shows "\<exists>new. collect_links ls limit values seen = values @ new \<and> length (values @ new) \<le> limit
     \<and> list_all (\<lambda>t. \<exists>l \<in> set ls. render_link l = Some t) new"
  using assms
proof (induction ls limit "values" seen rule: collect_links.induct)
  case (2 l ls limit "values" seen)
  let ?P = "\<lambda>vs new. length (vs @ new) \<le> limit \<and> list_all (\<lambda>t. \<exists>l \<in> set (l # ls). render_link l = Some t) new"
  let ?key = "ln_label l @ [CHR 0x00] @ ln_url l"
  have weaken: "\<exists>new. collect_links ls limit vs s = vs @ new \<and> ?P vs new"
    if "\<exists>new. collect_links ls limit vs s = vs @ new \<and> length (vs @ new) \<le> limit
      \<and> list_all (\<lambda>t. \<exists>l \<in> set ls. render_link l = Some t) new" for vs s
    using that by (elim exE conjE) (rule_tac x = new in exI, auto simp: list_all_iff)
  consider "length values = limit" | "length values \<noteq> limit" "ln_label l = [] \<or> \<not> valid_url (ln_url l)"
    | "length values \<noteq> limit" "\<not> (ln_label l = [] \<or> \<not> valid_url (ln_url l))" "?key \<in> set seen"
    | t where "length values \<noteq> limit" "\<not> (ln_label l = [] \<or> \<not> valid_url (ln_url l))" "?key \<notin> set seen" "render_link l = Some t"
    by (metis render_link_def)
  then show ?case
  proof cases
    case 1
    then show ?thesis by (intro exI [of _ "[]"]) simp
  next
    case 2
    from 2(2) have "collect_links (l # ls) limit values seen = collect_links ls limit values seen"
      using 2(1) by simp
    then show ?thesis using weaken [OF "2.IH"(1) [OF 2 "2.prems"]] by (simp del: collect_links.simps)
  next
    case 3
    then have "collect_links (l # ls) limit values seen = collect_links ls limit values seen" by simp
    then show ?thesis using weaken [OF "2.IH"(2) [OF 3(1,2) refl 3(3) "2.prems"]] by (simp del: collect_links.simps)
  next
    case 4
    then have step: "collect_links (l # ls) limit values seen = collect_links ls limit (values @ [t]) (?key # seen)" by simp
    have "length (values @ [t]) \<le> limit" using 4(1) "2.prems" by simp
    from "2.IH"(4) [OF 4(1,2) refl 4(3,4) this] obtain new where
      "collect_links ls limit (values @ [t]) (?key # seen) = (values @ [t]) @ new"
      "length ((values @ [t]) @ new) \<le> limit" "list_all (\<lambda>t. \<exists>l \<in> set ls. render_link l = Some t) new" by blast
    then show ?thesis unfolding step using 4(4)
      by (intro exI [of _ "t # new"]) (auto simp: list_all_iff)
  qed
qed simp

text \<open>C36: whatever a link's label holds, its text in the card is one link: the label reads back
  unescaped, has no bare bracket, parenthesis or backquote, and the target cannot be closed
  early; at most the asked number of links is shown, each of a listed link with a label and an
  http address.\<close>

theorem card_links_are_links:
  "\<exists>texts. render_links links limit = join texts dot_separator \<and> length texts \<le> limit
     \<and> list_all (\<lambda>t. \<exists>l \<in> set links. is_link_text (cut_runes (ln_label l) 120) t
          \<and> ln_label l \<noteq> [] \<and> valid_url (ln_url l)) texts"
proof (cases "limit = 0")
  case True
  then show ?thesis by (intro exI [of _ "[]"]) (simp add: render_links_def)
next
  case False
  from collect_links_spec [of "[]" limit links "[]"] obtain texts where
    t: "collect_links links limit [] [] = texts" "length texts \<le> limit"
    "list_all (\<lambda>t. \<exists>l \<in> set links. render_link l = Some t) texts" by auto
  have "ln_label l \<noteq> []" if "render_link l = Some t" for l t
    using that by (auto simp: render_link_def split: if_splits)
  then show ?thesis using t False render_link_text unfolding render_links_def list_all_iff
    by (intro exI [of _ texts]) (metis (no_types, lifting))
qed

subsection \<open>Facts\<close>

lemma fact_order_distinct: "distinct fact_order"
  by (simp add: fact_order_def)

text \<open>The facts of a card are all the facts of the notification, each once: the known ones
  first, in the fixed order, the others after them in alphabetical order.\<close>

theorem card_facts_ordered:
  assumes "distinct (map fst facts)"
  shows "mset (ordered_fact_keys facts) = mset (map fst facts)
    \<and> (\<exists>known others. ordered_fact_keys facts = known @ others \<and> subseq known fact_order
       \<and> set others \<inter> set fact_order = {} \<and> sorted others)"
proof -
  let ?known = "filter (\<lambda>k. map_of facts k \<noteq> None) fact_order"
  have "mset ?known = mset (filter (\<lambda>k. k \<in> set fact_order) (map fst facts))"
  proof (rule multiset_eqI)
    fix k
    have "count (mset xs) k = (if k \<in> set xs then 1 else 0)" if "distinct xs" for xs :: "string list"
      using that by (simp add: distinct_count_atmost_1)
    moreover have "distinct ?known" "distinct (filter (\<lambda>k. k \<in> set fact_order) (map fst facts))"
      using assms fact_order_distinct by simp_all
    moreover have "k \<in> set ?known \<longleftrightarrow> k \<in> set (filter (\<lambda>k. k \<in> set fact_order) (map fst facts))"
      by (auto simp: map_of_eq_None_iff image_iff dest: map_of_SomeD weak_map_of_SomeI)
    ultimately show "count (mset ?known) k = count (mset (filter (\<lambda>k. k \<in> set fact_order) (map fst facts))) k"
      by presburger
  qed
  then have "mset (ordered_fact_keys facts) = mset (map fst facts)"
    by (simp add: ordered_fact_keys_def)
  moreover have "\<exists>known others. ordered_fact_keys facts = known @ others \<and> subseq known fact_order
       \<and> set others \<inter> set fact_order = {} \<and> sorted others"
    unfolding ordered_fact_keys_def
    by (intro exI [of _ ?known] exI [of _ "sort (filter (\<lambda>k. k \<notin> set fact_order) (map fst facts))"]) auto
  ultimately show ?thesis by blast
qed

theorem card_facts_ordered_witness:
  "mset (ordered_fact_keys [(''Zone'', ''z''), (''Title'', ''t''), (''Area'', ''a''), (''Project'', ''p'')])
    = {#''Project'', ''Title'', ''Area'', ''Zone''#}"
  using card_facts_ordered [of "[(''Zone'', ''z''), (''Title'', ''t''), (''Area'', ''a''), (''Project'', ''p'')]"]
  by (simp add: add_mset_commute)

subsection \<open>Failed jobs\<close>

lemma render_jobs_limit:
  "length parts \<le> limit \<Longrightarrow> render_jobs names limit links parts linked omitted = (parts', linked', omitted') \<Longrightarrow>
   length parts' \<le> limit \<and> length parts' + omitted' = length parts + omitted + length (filter (\<lambda>n. n \<noteq> []) names)"
proof (induction names arbitrary: links parts linked omitted)
  case (Cons n names)
  consider "n = []" | "n \<noteq> []" "length parts = limit" | "n \<noteq> []" "length parts < limit"
    using Cons.prems(1) by linarith
  then show ?case
  proof cases
    case 1
    then show ?thesis using Cons by simp
  next
    case 2
    then have "render_jobs names limit links parts linked (omitted + 1) = (parts', linked', omitted')"
      using Cons.prems(2) by simp
    from Cons.IH [OF Cons.prems(1) this] show ?thesis using 2 by simp
  next
    case 3
    then obtain links' t linked2 where
      step: "render_jobs (n # names) limit links parts linked omitted = render_jobs names limit links' (parts @ [t]) linked2 omitted"
      by (cases "links n"; cases "render_link (hd (links n))") auto
    from Cons.IH [OF _ Cons.prems(2) [unfolded step]] 3 show ?thesis by simp
  qed
qed simp

lemma render_job_links_limit:
  "length parts \<le> limit \<Longrightarrow> render_job_links ls limit parts linked omitted = (parts', linked', omitted') \<Longrightarrow>
   length parts' \<le> limit"
proof (induction ls arbitrary: parts linked omitted)
  case (Cons l ls)
  consider "length parts = limit" | "length parts < limit" using Cons.prems(1) by linarith
  then show ?case
  proof cases
    case 1
    then have "render_job_links ls limit parts linked (omitted + 1) = (parts', linked', omitted')"
      using Cons.prems(2) by simp
    from Cons.IH [OF Cons.prems(1) this] show ?thesis .
  next
    case 2
    show ?thesis
    proof (cases "render_link l")
      case None
      then have "render_job_links ls limit parts linked omitted = (parts', linked', omitted')" using Cons.prems(2) 2 by simp
      from Cons.IH [OF Cons.prems(1) this] show ?thesis .
    next
      case (Some t)
      then have "render_job_links ls limit (parts @ [t]) True omitted = (parts', linked', omitted')" using Cons.prems(2) 2 by simp
      from Cons.IH [OF _ this] 2 show ?thesis by simp
    qed
  qed
qed simp

subsection \<open>The JSON of a card\<close>

lemma number_free_parts:
  "number_free (div_of tag content)" "number_free hr" "number_free (text_of tag content)"
  "number_free (button_of type label key target) = number_free target"
  "number_free (action_row actions) = list_all number_free actions"
  "number_free (card_of template title elements) = list_all number_free elements"
  "number_free (button_value a)"
  by (simp_all add: div_of_def hr_def text_of_def button_of_def action_row_def card_of_def button_value_def list_all_iff split_beta)

lemma number_free_actions: "list_all number_free (card_actions n)"
  by (auto simp: card_actions_def action_buttons_def list_all_iff number_free_parts)

lemma number_free_card: "number_free (card_json n)"
proof -
  have "list_all number_free (fact_elements f)" for f by (auto simp: fact_elements_def list_all_iff number_free_parts)
  moreover have "list_all number_free (job_elements n)" "list_all number_free (source_elements n)"
    "list_all number_free (reason_elements n)" "list_all number_free (link_elements n)"
    by (simp_all add: job_elements_def source_elements_def reason_elements_def link_elements_def
        number_free_parts Let_def split: prod.split)
  ultimately show ?thesis using number_free_actions by (simp add: card_json_def number_free_parts)
qed

lemma number_free_settings: "number_free (settings_json st)"
  by (simp add: settings_json_def number_free_parts settings_button_def)


end
