(* ===== verification/FeishuClient.thy ===== *)
theory FeishuClient
  imports FeishuCardLaws GitLabApi IdentitySync Worker
begin

section \<open>The Feishu client\<close>

text \<open>
  adapter/messenger/feishu/client.go: the tenant token with its cache, the sending of a card, and
  the lookup of people by address. The cache, the number of readings of the clock so far and the
  trace of what was sent are the state; \<open>clock n\<close> is the n-th reading. One caller at a time: the
  two mutexes are not modelled.
\<close>

record feishu_config =
  fc_base_url :: string
  fc_app_id :: string
  fc_app_secret :: string
  fc_timeout :: duration
  fc_token_margin :: duration

record feishu_state =
  fs_token :: string
  fs_expires :: time
  fs_reads :: nat
  fs_trace :: "net_event list"

record feishu_error =
  fe_http_status :: nat
  fe_code :: int
  fe_class :: string
  fe_retryable :: bool
  fe_message :: string

text \<open>An \<open>*Error\<close>, or another error.\<close>

datatype feishu_failure = Feishu feishu_error | Plain go_error

definition default_base_url :: string where
  "default_base_url = ''https://open.feishu.cn''"

definition token_path :: string where
  "token_path = ''/open-apis/auth/v3/tenant_access_token/internal''"

definition message_path :: string where
  "message_path = ''/open-apis/im/v1/messages?receive_id_type=email''"

definition user_lookup_path :: string where
  "user_lookup_path = ''/open-apis/contact/v3/users/batch_get_id?user_id_type=open_id''"

definition user_lookup_batch :: nat where
  "user_lookup_batch = 50"

definition feishu_error_text :: "feishu_error \<Rightarrow> string" where
  "feishu_error_text e =
     (if fe_http_status e \<noteq> 0
      then ''Feishu request failed (class='' @ fe_class e @ '', http_status='' @ nat_string (fe_http_status e)
        @ '', code='' @ int_string (fe_code e) @ ''): '' @ fe_message e
      else ''Feishu request failed (class='' @ fe_class e @ '', code='' @ int_string (fe_code e) @ ''): '' @ fe_message e)"

definition feishu_delivery_failure :: "feishu_error \<Rightarrow> delivery_failure" where
  "feishu_delivery_failure e =
     \<lparr>f_class = fe_class e, f_retryable = fe_retryable e, f_message = feishu_error_text e\<rparr>"

definition new_feishu_client :: "feishu_config \<Rightarrow> feishu_config res" where
  "new_feishu_client c =
     (if trim_space (fc_app_id c) = [] then Inl (Msg ''Feishu App ID is required'')
      else if trim_space (fc_app_secret c) = [] then Inl (Msg ''Feishu App Secret is required'')
      else Inr \<lparr>fc_base_url = trim_right (if fc_base_url c = [] then default_base_url else fc_base_url c) CHR ''/'',
        fc_app_id = fc_app_id c, fc_app_secret = fc_app_secret c,
        fc_timeout = (if fc_timeout c \<le> 0 then 10 * second else fc_timeout c),
        fc_token_margin = (if fc_token_margin c \<le> 0 then minute else fc_token_margin c)\<rparr>)"

subsection \<open>Errors\<close>

definition token_error_code :: "int \<Rightarrow> bool" where
  "token_error_code n \<longleftrightarrow> n = 99991663 \<or> n = 99991664 \<or> n = 99991668"

definition is_token_error :: "feishu_error \<Rightarrow> bool" where
  "is_token_error e \<longleftrightarrow> fe_class e = ''authentication'' \<or> token_error_code (fe_code e)"

definition truncate_message :: "string \<Rightarrow> nat \<Rightarrow> string" where
  "truncate_message value limit =
     (if length (runes value) \<le> limit then value else string_of_runes (take limit (runes value)) @ ellipsis)"

definition safe_message :: "string \<Rightarrow> string" where
  "safe_message message =
     (if trim_space message = [] then ''unknown Feishu error'' else truncate_message (trim_space message) 500)"

definition classify_error :: "nat \<Rightarrow> int \<Rightarrow> string \<Rightarrow> bool \<Rightarrow> feishu_error" where
  "classify_error http_status n message token_request =
     (let (class, retryable) =
        (if http_status = 401 \<or> http_status = 403 then (''authentication'', False)
         else if http_status = 429 then (''rate_limit'', True)
         else if 500 \<le> http_status then (''server'', True)
         else if http_status = 404 then (''recipient_not_found'', False)
         else if n = 99991672 then (''permission'', False)
         else if token_request then (''authentication'', False)
         else (''application'', False))
      in \<lparr>fe_http_status = http_status, fe_code = n,
          fe_class = (if n \<noteq> 0 \<and> token_error_code n then ''authentication'' else class),
          fe_retryable = retryable, fe_message = safe_message message\<rparr>)"

subsection \<open>One request\<close>

definition feishu_request :: "feishu_config \<Rightarrow> string \<Rightarrow> json \<Rightarrow> string \<Rightarrow> http_request" where
  "feishu_request c path payload token =
     \<lparr>hr_method = ''POST'', hr_url = fc_base_url c @ path,
      hr_headers = (''Content-Type'', ''application/json; charset=utf-8'')
        # (if token = [] then [] else [(''Authorization'', ''Bearer '' @ token)]),
      hr_body = Some (marshal payload)\<rparr>"

definition transport_error :: "string \<Rightarrow> feishu_failure" where
  "transport_error message =
     Feishu \<lparr>fe_http_status = 0, fe_code = 0, fe_class = ''transport'', fe_retryable = True, fe_message = message\<rparr>"

definition post_json ::
  "world \<Rightarrow> feishu_config \<Rightarrow> string \<Rightarrow> json \<Rightarrow> string \<Rightarrow> 'o into \<Rightarrow> 'o \<Rightarrow> feishu_state
     \<Rightarrow> (feishu_failure + nat \<times> 'o) \<times> feishu_state" where
  "post_json w c path payload token response r0 s =
     (if parse_url (fc_base_url c @ path) = None
      then (Inl (Plain (Wrap ''create Feishu request'' (Msg ''invalid URL''))), s)
      else
        let request = feishu_request c path payload token;
            s1 = s\<lparr>fs_trace := fs_trace s @ [Sent request]\<rparr>
        in case w_answer w (fs_trace s) request of
          Inl e \<Rightarrow> (Inl (transport_error ''Feishu request could not be completed''), s1)
        | Inr r \<Rightarrow>
          (case hs_body r of
             Inl e \<Rightarrow> (Inl (transport_error ''Feishu response could not be read''), s1)
           | Inr body \<Rightarrow>
             (case unmarshal_into response (take (2 ^ 20) body) r0 of (r1, ok) \<Rightarrow>
                if ok then (Inr (hs_status r, r1), s1)
                else (Inl (Feishu \<lparr>fe_http_status = hs_status r, fe_code = 0, fe_class = ''invalid_response'',
                    fe_retryable = 500 \<le> hs_status r, fe_message = ''Feishu returned invalid JSON''\<rparr>), s1))))"

definition ok_status :: "nat \<Rightarrow> bool" where
  "ok_status status \<longleftrightarrow> 200 \<le> status \<and> status < 300"

subsection \<open>The tenant token\<close>

record token_response =
  tr_code :: int
  tr_message :: string
  tr_token :: string
  tr_expire :: int

definition token_fields :: "token_response fields" where
  "token_fields = [field ''code'' into_int tr_code (\<lambda>x. tr_code_update (\<lambda>_. x)),
     field ''msg'' into_string tr_message (\<lambda>x. tr_message_update (\<lambda>_. x)),
     field ''tenant_access_token'' into_string tr_token (\<lambda>x. tr_token_update (\<lambda>_. x)),
     field ''expire'' into_int tr_expire (\<lambda>x. tr_expire_update (\<lambda>_. x))]"

definition no_token_response :: token_response where
  "no_token_response = \<lparr>tr_code = 0, tr_message = [], tr_token = [], tr_expire = 0\<rparr>"

definition token_payload :: "feishu_config \<Rightarrow> json" where
  "token_payload c = JObj [(''app_id'', JStr (fc_app_id c)), (''app_secret'', JStr (fc_app_secret c))]"

definition read_clock :: "(nat \<Rightarrow> time) \<Rightarrow> feishu_state \<Rightarrow> time \<times> feishu_state" where
  "read_clock clock s = (clock (fs_reads s), s\<lparr>fs_reads := fs_reads s + 1\<rparr>)"

definition token_fresh :: "time \<Rightarrow> feishu_state \<Rightarrow> bool" where
  "token_fresh now s \<longleftrightarrow> fs_token s \<noteq> [] \<and> now < fs_expires s"

definition expires_in :: "int \<Rightarrow> duration" where
  "expires_in expire = (let d = wrap64 (expire * second) in if d \<le> 0 then 2 * hour else d)"

definition expires_at :: "feishu_config \<Rightarrow> int \<Rightarrow> time \<Rightarrow> time" where
  "expires_at c expire now =
     (let d = expires_in expire in if fc_token_margin c < d then now + d - fc_token_margin c else now + d)"

text \<open>The request for a token, when the cache does not have one that is fresh.\<close>

definition fetch_token ::
  "world \<Rightarrow> (nat \<Rightarrow> time) \<Rightarrow> feishu_config \<Rightarrow> feishu_state \<Rightarrow> (feishu_failure + string) \<times> feishu_state" where
  "fetch_token w clock c s =
     (case post_json w c token_path (token_payload c) [] (into_struct token_fields) no_token_response s of
        (Inl e, s1) \<Rightarrow> (Inl e, s1)
      | (Inr (status, r), s1) \<Rightarrow>
        if \<not> ok_status status \<or> tr_code r \<noteq> 0 \<or> tr_token r = []
        then (Inl (Feishu (classify_error status (tr_code r) (tr_message r) True)), s1)
        else
          let (now, s2) = read_clock clock s1
          in (Inr (tr_token r), s2\<lparr>fs_token := tr_token r, fs_expires := expires_at c (tr_expire r) now\<rparr>))"

definition access_token ::
  "world \<Rightarrow> (nat \<Rightarrow> time) \<Rightarrow> feishu_config \<Rightarrow> bool \<Rightarrow> feishu_state \<Rightarrow> (feishu_failure + string) \<times> feishu_state" where
  "access_token w clock c force s =
     (let (now, s1) = read_clock clock s in
      if \<not> force \<and> token_fresh now s1 then (Inr (fs_token s1), s1)
      else if \<not> force then
        let (again, s2) = read_clock clock s1 in
        if token_fresh again s2 then (Inr (fs_token s2), s2) else fetch_token w clock c s2
      else fetch_token w clock c s1)"

subsection \<open>Sending a card\<close>

record message_data =
  md_message_id :: string

record message_response =
  ms_code :: int
  ms_message :: string
  ms_data :: message_data

definition message_response_fields :: "message_response fields" where
  "message_response_fields = [field ''code'' into_int ms_code (\<lambda>x. ms_code_update (\<lambda>_. x)),
     field ''msg'' into_string ms_message (\<lambda>x. ms_message_update (\<lambda>_. x)),
     field ''data'' (into_struct [field ''message_id'' into_string md_message_id (\<lambda>x. md_message_id_update (\<lambda>_. x))])
       ms_data (\<lambda>x. ms_data_update (\<lambda>_. x))]"

definition no_message_response :: message_response where
  "no_message_response = \<lparr>ms_code = 0, ms_message = [], ms_data = \<lparr>md_message_id = []\<rparr>\<rparr>"

definition message_payload :: "string \<Rightarrow> string \<Rightarrow> json" where
  "message_payload email content =
     JObj [(''receive_id'', JStr email), (''msg_type'', JStr ''interactive''), (''content'', JStr content)]"

definition send_message ::
  "world \<Rightarrow> feishu_config \<Rightarrow> string \<Rightarrow> string \<Rightarrow> string \<Rightarrow> feishu_state \<Rightarrow> (feishu_failure + string) \<times> feishu_state" where
  "send_message w c token email content s =
     (case post_json w c message_path (message_payload email content) token (into_struct message_response_fields)
         no_message_response s of
        (Inl e, s1) \<Rightarrow> (Inl e, s1)
      | (Inr (status, r), s1) \<Rightarrow>
        if \<not> ok_status status \<or> ms_code r \<noteq> 0
        then (Inl (Feishu (classify_error status (ms_code r) (ms_message r) False)), s1)
        else (Inr (md_message_id (ms_data r)), s1))"

definition invalid_recipient :: "string \<Rightarrow> feishu_failure" where
  "invalid_recipient message =
     Feishu \<lparr>fe_http_status = 0, fe_code = 0, fe_class = ''invalid_recipient'', fe_retryable = False, fe_message = message\<rparr>"

definition token_failure :: "feishu_failure \<Rightarrow> bool" where
  "token_failure f = (case f of Feishu e \<Rightarrow> is_token_error e | Plain e \<Rightarrow> False)"

definition receipt_of :: "string \<Rightarrow> delivery_receipt" where
  "receipt_of message_id = \<lparr>rc_provider_message_id = message_id\<rparr>"

definition feishu_send ::
  "world \<Rightarrow> (nat \<Rightarrow> time) \<Rightarrow> feishu_config \<Rightarrow> notification \<Rightarrow> feishu_state
     \<Rightarrow> (feishu_failure + delivery_receipt) \<times> feishu_state" where
  "feishu_send w clock c n s =
     (let email = to_lower (trim_space (a_value (n_recipient n))) in
      if a_kind (n_recipient n) \<noteq> AddressKindEmail
      then (Inl (invalid_recipient ''Feishu personal messages require an email recipient''), s)
      else if email = [] \<or> \<not> contains email ''@''
      then (Inl (invalid_recipient ''recipient email is invalid''), s)
      else
        let content = render_card n in
        case access_token w clock c False s of
          (Inl e, s1) \<Rightarrow> (Inl e, s1)
        | (Inr token, s1) \<Rightarrow>
          (case send_message w c token email content s1 of
             (Inr i, s2) \<Rightarrow> (Inr (receipt_of i), s2)
           | (Inl e, s2) \<Rightarrow>
             if \<not> token_failure e then (Inl e, s2)
             else case access_token w clock c True s2 of
               (Inl e', s3) \<Rightarrow> (Inl e', s3)
             | (Inr token', s3) \<Rightarrow>
               (case send_message w c token' email content s3 of
                  (Inl e', s4) \<Rightarrow> (Inl e', s4)
                | (Inr i, s4) \<Rightarrow> (Inr (receipt_of i), s4))))"

text \<open>The error as the delivery worker sees it: its text, and the failure that \<open>errors.As\<close> finds.\<close>

fun error_text :: "go_error \<Rightarrow> string" where
  "error_text Ignored = ''ignored provider event''"
| "error_text (Msg m) = m"
| "error_text (Wrap m e) = m @ '': '' @ error_text e"
| "error_text Canceled = ''context canceled''"
| "error_text NoRows = ''sql: no rows in result set''"
| "error_text (Driver m) = m"

definition send_error_of :: "feishu_failure \<Rightarrow> send_error" where
  "send_error_of f =
     (case f of
        Feishu e \<Rightarrow> \<lparr>se_text = feishu_error_text e, se_failure = Some (feishu_delivery_failure e)\<rparr>
      | Plain e \<Rightarrow> \<lparr>se_text = error_text e, se_failure = None\<rparr>)"

subsection \<open>Looking people up\<close>

record found_person =
  fp_user_id :: string
  fp_email :: string

record lookup_response =
  lr_code :: int
  lr_message :: string
  lr_users :: "found_person slice"

definition found_person_fields :: "found_person fields" where
  "found_person_fields = [field ''user_id'' into_string fp_user_id (\<lambda>x. fp_user_id_update (\<lambda>_. x)),
     field ''email'' into_string fp_email (\<lambda>x. fp_email_update (\<lambda>_. x))]"

definition no_person :: found_person where
  "no_person = \<lparr>fp_user_id = [], fp_email = []\<rparr>"

definition lookup_fields :: "lookup_response fields" where
  "lookup_fields = [field ''code'' into_int lr_code (\<lambda>x. lr_code_update (\<lambda>_. x)),
     field ''msg'' into_string lr_message (\<lambda>x. lr_message_update (\<lambda>_. x)),
     field ''data'' (into_struct [(''user_list'', into_slice (into_struct found_person_fields) no_person)])
       lr_users (\<lambda>x. lr_users_update (\<lambda>_. x))]"

definition no_lookup_response :: lookup_response where
  "no_lookup_response = \<lparr>lr_code = 0, lr_message = [], lr_users = nil_slice\<rparr>"

definition emails_payload :: "string list \<Rightarrow> json" where
  "emails_payload emails = JObj [(''emails'', JArr (map JStr emails))]"

fun unique_emails_from :: "string list \<Rightarrow> string list \<Rightarrow> string list" where
  "unique_emails_from seen [] = []"
| "unique_emails_from seen (e # es) =
     (let email = to_lower (trim_space e) in
      if email = [] \<or> \<not> contains email ''@'' \<or> email \<in> set seen then unique_emails_from seen es
      else email # unique_emails_from (email # seen) es)"

definition unique_emails :: "string list \<Rightarrow> string list" where
  "unique_emails emails = unique_emails_from [] emails"

definition add_person :: "found_person \<Rightarrow> (string, directory_user) gomap \<Rightarrow> (string, directory_user) gomap" where
  "add_person u found =
     (let email = to_lower (trim_space (fp_email u)) in
      if email = [] \<or> \<not> contains email ''@'' then found
      else AList.update email \<lparr>du_email = email, du_id = fp_user_id u\<rparr> found)"

function lookup_batches ::
  "world \<Rightarrow> feishu_config \<Rightarrow> string \<Rightarrow> string list \<Rightarrow> (string, directory_user) gomap \<Rightarrow> feishu_state
     \<Rightarrow> (feishu_failure + (string, directory_user) gomap) \<times> feishu_state" where
  "lookup_batches w c token emails found s =
     (if emails = [] then (Inr found, s)
      else case post_json w c user_lookup_path (emails_payload (take user_lookup_batch emails)) token
          (into_struct lookup_fields) no_lookup_response s of
        (Inl e, s1) \<Rightarrow> (Inl e, s1)
      | (Inr (status, r), s1) \<Rightarrow>
        if \<not> ok_status status \<or> lr_code r \<noteq> 0
        then (Inl (Feishu (classify_error status (lr_code r) (lr_message r) False)), s1)
        else lookup_batches w c token (drop user_lookup_batch emails) (fold add_person (elements (lr_users r)) found) s1)"
  by auto
termination
  by (relation "measure (\<lambda>(w, c, token, emails, found, s). length emails)") (auto simp: user_lookup_batch_def)

declare lookup_batches.simps [simp del]

definition lookup_emails_with_token ::
  "world \<Rightarrow> (nat \<Rightarrow> time) \<Rightarrow> feishu_config \<Rightarrow> string list \<Rightarrow> bool \<Rightarrow> feishu_state
     \<Rightarrow> (feishu_failure + (string, directory_user) gomap) \<times> feishu_state" where
  "lookup_emails_with_token w clock c emails force s =
     (case access_token w clock c force s of
        (Inl e, s1) \<Rightarrow> (Inl e, s1)
      | (Inr token, s1) \<Rightarrow> lookup_batches w c token emails [] s1)"

definition lookup_emails ::
  "world \<Rightarrow> (nat \<Rightarrow> time) \<Rightarrow> feishu_config \<Rightarrow> string list \<Rightarrow> feishu_state
     \<Rightarrow> (feishu_failure + (string, directory_user) gomap) \<times> feishu_state" where
  "lookup_emails w clock c emails s =
     (let unique = unique_emails emails in
      if unique = [] then (Inr [], s)
      else case lookup_emails_with_token w clock c unique False s of
        (Inr found, s1) \<Rightarrow> (Inr found, s1)
      | (Inl e, s1) \<Rightarrow>
        if token_failure e then lookup_emails_with_token w clock c unique True s1 else (Inl e, s1))"

end
