(* ===== verification/FeishuClientLaws.thy ===== *)
theory FeishuClientLaws
  imports FeishuClient
begin

section \<open>What the Feishu client sends and answers\<close>

subsection \<open>One request\<close>

lemma post_json_sends:
  assumes "post_json w c path payload token response r0 s = (res, s1)"
  shows "adds (\<lambda>r. r = feishu_request c path payload token) 1 (fs_trace s) (fs_trace s1)"
    and "fs_token s1 = fs_token s" "fs_expires s1 = fs_expires s" "fs_reads s1 = fs_reads s"
  using assms
  by (auto simp: post_json_def Let_def intro!: adds_request split: if_splits sum.splits prod.splits)

definition token_request :: "feishu_config \<Rightarrow> http_request" where
  "token_request c = feishu_request c token_path (token_payload c) []"

lemma fetch_token_sends:
  assumes "fetch_token w clock c s = (res, s1)"
  shows "adds (\<lambda>r. r = token_request c) 1 (fs_trace s) (fs_trace s1)"
proof -
  obtain r2 s2 where p: "post_json w c token_path (token_payload c) [] (into_struct token_fields) no_token_response s = (r2, s2)"
    by fastforce
  have "fs_trace s1 = fs_trace s2"
    using assms p by (auto simp: fetch_token_def read_clock_def split: sum.splits prod.splits if_splits)
  then show ?thesis using post_json_sends(1) [OF p] by (simp add: token_request_def)
qed

lemma access_token_sends:
  assumes "access_token w clock c force s = (res, s1)"
  shows "adds (\<lambda>r. r = token_request c) 1 (fs_trace s) (fs_trace s1)"
proof -
  have "s1 \<in> {s\<lparr>fs_reads := fs_reads s + 1\<rparr>, s\<lparr>fs_reads := fs_reads s + 2\<rparr>}
      \<or> (\<exists>s2. fs_trace s2 = fs_trace s \<and> fetch_token w clock c s2 = (res, s1))"
    using assms by (auto simp: access_token_def read_clock_def Let_def split: if_splits)
  then show ?thesis using fetch_token_sends by fastforce
qed

text \<open>A token that is returned is never empty, and is the one the cache now holds.\<close>

lemma access_token_caches:
  assumes "access_token w clock c force s = (Inr t, s1)"
  shows "t \<noteq> []" "fs_token s1 = t"
proof -
  have fetch: "t \<noteq> [] \<and> fs_token s1 = t" if "fetch_token w clock c s2 = (Inr t, s1)" for s2
    using that by (auto simp: fetch_token_def read_clock_def split: sum.splits prod.splits if_splits)
  have "t \<noteq> [] \<and> fs_token s1 = t"
    using assms fetch by (auto simp: access_token_def read_clock_def token_fresh_def Let_def split: if_splits)
  then show "t \<noteq> []" "fs_token s1 = t" by auto
qed

subsection \<open>Messages that Feishu has accepted\<close>

text \<open>A message was accepted if its answer could be read and says so; \<open>accepted_messages\<close> counts them.\<close>

definition accepts :: "http_response res \<Rightarrow> bool" where
  "accepts answer =
     (case answer of
        Inl e \<Rightarrow> False
      | Inr resp \<Rightarrow>
        (case hs_body resp of
           Inl e \<Rightarrow> False
         | Inr body \<Rightarrow>
           (case unmarshal_into (into_struct message_response_fields) (take (2 ^ 20) body) no_message_response of (r, ok) \<Rightarrow>
              ok \<and> ok_status (hs_status resp) \<and> ms_code r = 0)))"

fun accepted_messages :: "world \<Rightarrow> feishu_config \<Rightarrow> net_event list \<Rightarrow> net_event list \<Rightarrow> nat" where
  "accepted_messages w c tr [] = 0"
| "accepted_messages w c tr (Waited d # evs) = accepted_messages w c (tr @ [Waited d]) evs"
| "accepted_messages w c tr (Sent r # evs) =
     (if hr_url r = fc_base_url c @ message_path \<and> accepts (w_answer w tr r) then 1 else 0)
       + accepted_messages w c (tr @ [Sent r]) evs"

lemma accepted_append:
  "accepted_messages w c tr (a @ b) = accepted_messages w c tr a + accepted_messages w c (tr @ a) b"
proof (induction a arbitrary: tr)
  case (Cons e a)
  then show ?case by (cases e) simp_all
qed simp

lemma message_path_differs: "fc_base_url c @ token_path \<noteq> fc_base_url c @ message_path"
  by (simp add: token_path_def message_path_def)

text \<open>What a step does: it adds requests among \<open>rs\<close>, each once and in their order, of which \<open>k\<close> were accepted messages.\<close>

definition step_sends ::
  "world \<Rightarrow> feishu_config \<Rightarrow> http_request list \<Rightarrow> nat \<Rightarrow> feishu_state \<Rightarrow> feishu_state \<Rightarrow> bool" where
  "step_sends w c rs k s s1 \<longleftrightarrow>
     (\<exists>new. fs_trace s1 = fs_trace s @ new \<and> subseq (sent new) rs \<and> accepted_messages w c (fs_trace s) new = k)"

lemma step_sends_trans:
  assumes "step_sends w c rs1 k1 s s1" "step_sends w c rs2 k2 s1 s2"
  shows "step_sends w c (rs1 @ rs2) (k1 + k2) s s2"
proof -
  obtain x y where "fs_trace s1 = fs_trace s @ x" "subseq (sent x) rs1" "accepted_messages w c (fs_trace s) x = k1"
    "fs_trace s2 = fs_trace s1 @ y" "subseq (sent y) rs2" "accepted_messages w c (fs_trace s1) y = k2"
    using assms unfolding step_sends_def by blast
  then show ?thesis unfolding step_sends_def
    by (intro exI [of _ "x @ y"]) (simp add: accepted_append list_emb_append_mono)
qed

lemma step_sends_more: "step_sends w c rs k s s1 \<Longrightarrow> step_sends w c (rs @ rest) k s s1"
  unfolding step_sends_def by (metis subseq_order.trans subseq_rev_drop_many subseq_order.order_refl list_emb_append_mono append_Nil2 list_emb_Nil)

lemma step_sends_refl: "fs_trace s1 = fs_trace s \<Longrightarrow> step_sends w c rs 0 s s1"
  unfolding step_sends_def by (intro exI [of _ "[]"]) simp

lemma post_json_step:
  assumes "post_json w c path payload token response r0 s = (res, s1)"
  shows "fs_trace s1 = fs_trace s \<and> isl res
    \<or> fs_trace s1 = fs_trace s @ [Sent (feishu_request c path payload token)]"
  using assms by (auto simp: post_json_def Let_def split: if_splits sum.splits prod.splits)

lemma token_step:
  assumes "access_token w clock c force s = (res, s1)"
  shows "step_sends w c [token_request c] 0 s s1"
proof -
  have fetch: "step_sends w c [token_request c] 0 s2 s1" if f: "fetch_token w clock c s2 = (res, s1)" for s2
  proof -
    obtain r3 s3 where p: "post_json w c token_path (token_payload c) [] (into_struct token_fields) no_token_response s2 = (r3, s3)"
      by fastforce
    have "fs_trace s1 = fs_trace s3"
      using f p by (auto simp: fetch_token_def read_clock_def split: sum.splits prod.splits if_splits)
    then have "fs_trace s1 = fs_trace s2 \<or> fs_trace s1 = fs_trace s2 @ [Sent (token_request c)]"
      using post_json_step [OF p] by (auto simp: token_request_def)
    moreover have "hr_url (token_request c) \<noteq> fc_base_url c @ message_path"
      by (simp add: token_request_def feishu_request_def token_path_def message_path_def)
    ultimately show ?thesis unfolding step_sends_def by force
  qed
  have "fs_trace s1 = fs_trace s \<or> (\<exists>s2. fs_trace s2 = fs_trace s \<and> fetch_token w clock c s2 = (res, s1))"
    using assms by (auto simp: access_token_def read_clock_def Let_def split: if_splits)
  then show ?thesis using fetch step_sends_refl unfolding step_sends_def by metis
qed

definition message_request :: "feishu_config \<Rightarrow> string \<Rightarrow> string \<Rightarrow> string \<Rightarrow> http_request" where
  "message_request c email content token = feishu_request c message_path (message_payload email content) token"

lemma message_step:
  assumes "send_message w c token email content s = (res, s1)"
  shows "step_sends w c [message_request c email content token] (if isl res then 0 else 1) s s1"
proof -
  let ?r = "message_request c email content token"
  obtain r2 s2 where p: "post_json w c message_path (message_payload email content) token
      (into_struct message_response_fields) no_message_response s = (r2, s2)" by fastforce
  have s2: "s2 = s1" using assms p by (auto simp: send_message_def split: sum.splits prod.splits if_splits)
  from post_json_step [OF p] show ?thesis
  proof
    assume "fs_trace s2 = fs_trace s \<and> isl r2"
    then show ?thesis using assms p s2 by (auto simp: send_message_def intro!: step_sends_refl split: sum.splits)
  next
    assume tr: "fs_trace s2 = fs_trace s @ [Sent (feishu_request c message_path (message_payload email content) token)]"
    have "hr_url ?r = fc_base_url c @ message_path" by (simp add: message_request_def feishu_request_def)
    moreover have "accepts (w_answer w (fs_trace s) ?r) = (\<not> isl res)"
      using assms p tr unfolding send_message_def post_json_def message_request_def accepts_def Let_def
      by (auto split: sum.splits prod.splits if_splits)
    ultimately have "accepted_messages w c (fs_trace s) [Sent ?r] = (if isl res then 0 else 1)" by simp
    then show ?thesis using tr s2 unfolding step_sends_def
      by (intro exI [of _ "[Sent ?r]"]) (simp add: message_request_def)
  qed
qed

lemma send_steps:
  assumes "feishu_send w clock c n s = (res, s')"
  shows "\<exists>t1 t2. step_sends w c
    [token_request c, message_request c (to_lower (trim_space (a_value (n_recipient n)))) (render_card n) t1,
     token_request c, message_request c (to_lower (trim_space (a_value (n_recipient n)))) (render_card n) t2]
    (if isl res then 0 else 1) s s'"
proof -
  let ?email = "to_lower (trim_space (a_value (n_recipient n)))" and ?content = "render_card n"
  let ?m = "message_request c ?email ?content"
  show ?thesis
  proof (cases "a_kind (n_recipient n) \<noteq> AddressKindEmail \<or> ?email = [] \<or> \<not> contains ?email ''@''")
    case True
    then have "s' = s \<and> isl res" using assms by (auto simp: feishu_send_def Let_def split: if_splits)
    then show ?thesis by (auto intro: step_sends_refl)
  next
    case valid: False
    obtain r1 s1 where a: "access_token w clock c False s = (r1, s1)" by fastforce
    note first = token_step [OF a]
    show ?thesis
    proof (cases r1)
      case (Inl e)
      then have "s' = s1 \<and> isl res" using assms valid a by (auto simp: feishu_send_def Let_def)
      then show ?thesis using step_sends_more [OF first] by auto
    next
      case token: (Inr t1)
      obtain r2 s2 where m: "send_message w c t1 ?email ?content s1 = (r2, s2)" by fastforce
      note two = step_sends_trans [OF first message_step [OF m]]
      show ?thesis
      proof (cases "\<exists>e. r2 = Inl e \<and> token_failure e")
        case False
        then have "s' = s2 \<and> isl res = isl r2"
          using assms valid a token m by (auto simp: feishu_send_def Let_def split: sum.splits if_splits)
        then show ?thesis using step_sends_more [OF two, of "[token_request c, ?m t1]"]
          by (intro exI [of _ t1]) (simp split: if_splits)
      next
        case True
        then obtain e where e: "r2 = Inl e" "token_failure e" by blast
        obtain r3 s3 where f: "access_token w clock c True s2 = (r3, s3)" by fastforce
        note three = step_sends_trans [OF two token_step [OF f]]
        show ?thesis
        proof (cases r3)
          case (Inl e3)
          then have "s' = s3 \<and> isl res" using assms valid a token m e f by (auto simp: feishu_send_def Let_def)
          then show ?thesis using step_sends_more [OF three, of "[?m t1]"] e(1) by auto
        next
          case (Inr t2)
          obtain r4 s4 where g: "send_message w c t2 ?email ?content s3 = (r4, s4)" by fastforce
          have "s' = s4 \<and> isl res = isl r4"
            using assms valid a token m e f Inr g by (auto simp: feishu_send_def Let_def split: sum.splits)
          then show ?thesis using step_sends_trans [OF three message_step [OF g]] e(1)
            by (intro exI [of _ t1] exI [of _ t2]) (simp split: if_splits)
        qed
      qed
    qed
  qed
qed

text \<open>C10: a send leads to at most one accepted message, and to exactly one if it returns a receipt:
  it makes at most four requests, a token, the message, a token again and the message again, every
  message to the lower-case address of the recipient with the notification's card.\<close>

theorem send_accepted_once:
  assumes "feishu_send w clock c n s = (res, s')"
  shows "\<exists>new t1 t2. fs_trace s' = fs_trace s @ new
    \<and> subseq (sent new)
        [token_request c, message_request c (to_lower (trim_space (a_value (n_recipient n)))) (render_card n) t1,
         token_request c, message_request c (to_lower (trim_space (a_value (n_recipient n)))) (render_card n) t2]
    \<and> accepted_messages w c (fs_trace s) new = (if isl res then 0 else 1)"
  using send_steps [OF assms] unfolding step_sends_def by blast

subsection \<open>Errors\<close>

lemma classify_error_parts:
  "fe_http_status (classify_error st k m b) = st" "fe_code (classify_error st k m b) = k"
  "fe_retryable (classify_error st k m b) = (st = 429 \<or> 500 \<le> st)"
  "fe_message (classify_error st k m b) = safe_message m"
  by (auto simp: classify_error_def Let_def split: prod.splits if_splits)

text \<open>
  Which answers ask for another try: none at all, a body that breaks off, 429 and 5xx; of a body
  that is not the JSON the client reads, only 5xx.
\<close>

definition reads_as :: "feishu_config \<Rightarrow> http_request \<Rightarrow> string \<Rightarrow> bool" where
  "reads_as c r body =
     (if hr_url r = fc_base_url c @ token_path
      then snd (unmarshal_into (into_struct token_fields) (take (2 ^ 20) body) no_token_response)
      else snd (unmarshal_into (into_struct message_response_fields) (take (2 ^ 20) body) no_message_response))"

definition answer_retryable :: "feishu_config \<Rightarrow> http_request \<Rightarrow> http_response res \<Rightarrow> bool" where
  "answer_retryable c r answer =
     (case answer of
        Inl e \<Rightarrow> True
      | Inr resp \<Rightarrow>
        (case hs_body resp of
           Inl e \<Rightarrow> True
         | Inr body \<Rightarrow> 500 \<le> hs_status resp \<or> hs_status resp = 429 \<and> reads_as c r body))"

definition fails_as :: "world \<Rightarrow> feishu_config \<Rightarrow> feishu_error \<Rightarrow> feishu_state \<Rightarrow> bool" where
  "fails_as w c e s \<longleftrightarrow>
     (\<exists>tr r. fs_trace s = tr @ [Sent r] \<and> fe_retryable e = answer_retryable c r (w_answer w tr r))"

lemma fetch_token_fails:
  assumes "fetch_token w clock c s = (Inl (Feishu e), s')"
  shows "fails_as w c e s'"
proof -
  have "hr_url (feishu_request c token_path (token_payload c) []) = fc_base_url c @ token_path"
    by (simp add: feishu_request_def)
  then have "fs_trace s' = fs_trace s @ [Sent (token_request c)]
      \<and> fe_retryable e = answer_retryable c (token_request c) (w_answer w (fs_trace s) (token_request c))"
    using assms unfolding fetch_token_def post_json_def read_clock_def token_request_def Let_def transport_error_def
    by (auto simp: answer_retryable_def reads_as_def classify_error_parts split: sum.splits prod.splits if_splits)
  then show ?thesis unfolding fails_as_def by blast
qed

lemma access_token_fails:
  assumes "access_token w clock c force s = (Inl (Feishu e), s')"
  shows "fails_as w c e s'"
proof -
  obtain s2 where "fetch_token w clock c s2 = (Inl (Feishu e), s')"
    using assms by (auto simp: access_token_def read_clock_def Let_def split: if_splits)
  then show ?thesis by (rule fetch_token_fails)
qed

lemma send_message_fails:
  assumes "send_message w c token email content s = (Inl (Feishu e), s')"
  shows "fails_as w c e s'"
proof -
  have "hr_url (feishu_request c message_path (message_payload email content) token) \<noteq> fc_base_url c @ token_path"
    by (simp add: feishu_request_def token_path_def message_path_def)
  then have "fs_trace s' = fs_trace s @ [Sent (message_request c email content token)]
      \<and> fe_retryable e = answer_retryable c (message_request c email content token)
        (w_answer w (fs_trace s) (message_request c email content token))"
    using assms unfolding send_message_def post_json_def message_request_def Let_def transport_error_def
    by (auto simp: answer_retryable_def reads_as_def classify_error_parts split: sum.splits prod.splits if_splits)
  then show ?thesis unfolding fails_as_def by blast
qed


subsection \<open>The token cache\<close>

text \<open>A token is asked for once: while the clock has not reached its expiry, the next send or lookup
  takes it from the cache, with one reading of the clock and no request.\<close>

theorem token_is_reused:
  assumes "access_token w clock c force s = (Inr t, s1)" "clock (fs_reads s1) < fs_expires s1"
  shows "access_token w clock c False s1 = (Inr t, s1\<lparr>fs_reads := fs_reads s1 + 1\<rparr>)"
  using assms(2) access_token_caches [OF assms(1)]
  by (simp add: access_token_def read_clock_def token_fresh_def)

text \<open>For a lifetime that fits in a duration, the cached time is after the receipt and not after the lifetime's end.\<close>

lemma expires_at_range:
  assumes "0 < expire" "expire * second < 2 ^ 63" "0 < fc_token_margin c"
  shows "now < expires_at c expire now" "expires_at c expire now \<le> now + expire * second"
    "fc_token_margin c < expire * second \<Longrightarrow> expires_at c expire now = now + expire * second - fc_token_margin c"
proof -
  have "0 < expire * second" using assms(1) by (simp add: second_def)
  then have "wrap64 (expire * second) = expire * second" using assms(2) by (intro wrap64_id) auto
  with \<open>0 < expire * second\<close> have "expires_in expire = expire * second" by (simp add: expires_in_def)
  then show "now < expires_at c expire now" "expires_at c expire now \<le> now + expire * second"
    "fc_token_margin c < expire * second \<Longrightarrow> expires_at c expire now = now + expire * second - fc_token_margin c"
    using assms(3) \<open>0 < expire * second\<close> by (auto simp: expires_at_def Let_def)
qed

subsection \<open>Looking people up\<close>

lemma unique_emails_from_spec:
  "distinct (unique_emails_from seen es) \<and> set (unique_emails_from seen es)
    = {e \<in> (\<lambda>e. to_lower (trim_space e)) ` set es. e \<noteq> [] \<and> contains e ''@''} - set seen"
proof (induction seen es rule: unique_emails_from.induct)
  case (2 seen e es)
  define u where "u = to_lower (trim_space e)"
  show ?case
  proof (cases "u = [] \<or> \<not> contains u ''@'' \<or> u \<in> set seen")
    case True
    then have "unique_emails_from seen (e # es) = unique_emails_from seen es" by (simp add: u_def Let_def)
    moreover from True have "{x \<in> (\<lambda>e. to_lower (trim_space e)) ` set (e # es). x \<noteq> [] \<and> contains x ''@''} - set seen
        = {x \<in> (\<lambda>e. to_lower (trim_space e)) ` set es. x \<noteq> [] \<and> contains x ''@''} - set seen"
      by (auto simp: u_def)
    ultimately show ?thesis using 2(1) [OF u_def] True by (simp only:)
  next
    case False
    then have "unique_emails_from seen (e # es) = u # unique_emails_from (u # seen) es" by (simp add: u_def Let_def)
    moreover from False have "{x \<in> (\<lambda>e. to_lower (trim_space e)) ` set (e # es). x \<noteq> [] \<and> contains x ''@''} - set seen
        = insert u ({x \<in> (\<lambda>e. to_lower (trim_space e)) ` set es. x \<noteq> [] \<and> contains x ''@''} - set (u # seen))"
      by (auto simp: u_def)
    ultimately show ?thesis using 2(2) [OF u_def False] by (simp only: distinct.simps list.set) blast
  qed
qed simp

definition lookup_request :: "feishu_config \<Rightarrow> string \<Rightarrow> string list \<Rightarrow> http_request" where
  "lookup_request c token emails = feishu_request c user_lookup_path (emails_payload emails) token"

lemma lookup_batches_ok:
  assumes "lookup_batches w c token emails found s = (Inr found', s')"
  shows "\<exists>batches new. fs_trace s' = fs_trace s @ new \<and> sent new = map (lookup_request c token) batches
    \<and> concat batches = emails \<and> list_all (\<lambda>b. length b \<le> user_lookup_batch) batches"
  using assms
proof (induction w c token emails found s rule: lookup_batches.induct)
  case (1 w c token emails found s)
  show ?case
  proof (cases "emails = []")
    case True
    then have "s' = s" using "1.prems" by (simp add: lookup_batches.simps)
    then show ?thesis using True by (intro exI [of _ "[]"]) simp
  next
    case False
    obtain res s1 where p: "post_json w c user_lookup_path (emails_payload (take user_lookup_batch emails)) token
        (into_struct lookup_fields) no_lookup_response s = (res, s1)" by fastforce
    have step: "lookup_batches w c token emails found s
      = (case res of Inl e \<Rightarrow> (Inl e, s1)
         | Inr (status, r) \<Rightarrow>
           if \<not> ok_status status \<or> lr_code r \<noteq> 0
           then (Inl (Feishu (classify_error status (lr_code r) (lr_message r) False)), s1)
           else lookup_batches w c token (drop user_lookup_batch emails) (fold add_person (elements (lr_users r)) found) s1)"
      using False p by (subst lookup_batches.simps) (simp split: sum.split)
    then obtain status r where res: "res = Inr (status, r)" and ok: "\<not> (\<not> ok_status status \<or> lr_code r \<noteq> 0)"
      and tail: "lookup_batches w c token (drop user_lookup_batch emails) (fold add_person (elements (lr_users r)) found) s1 = (Inr found', s')"
      using "1.prems" by (auto split: sum.splits prod.splits if_splits)
    have tr: "fs_trace s1 = fs_trace s @ [Sent (lookup_request c token (take user_lookup_batch emails))]"
      using post_json_step [OF p] res by (simp add: lookup_request_def)
    from "1.IH" [OF False p [symmetric] res refl ok tail] obtain batches new where
      "fs_trace s' = fs_trace s1 @ new" "sent new = map (lookup_request c token) batches"
      "concat batches = drop user_lookup_batch emails" "list_all (\<lambda>b. length b \<le> user_lookup_batch) batches" by blast
    then show ?thesis using tr
      by (intro exI [of _ "take user_lookup_batch emails # batches"]
          exI [of _ "Sent (lookup_request c token (take user_lookup_batch emails)) # new"]) simp
  qed
qed


subsection \<open>Witnesses\<close>

text \<open>A Feishu that answers, and one whose answer to a message is a page of its rate limit.\<close>

definition sample_feishu :: feishu_config where
  "sample_feishu = \<lparr>fc_base_url = ''https://f'', fc_app_id = ''a'', fc_app_secret = ''s'', fc_timeout = second,
     fc_token_margin = minute\<rparr>"

definition feishu_answer :: "nat \<Rightarrow> string \<Rightarrow> http_request \<Rightarrow> http_response res" where
  \<open>feishu_answer status body r =
     Inr \<lparr>hs_status = (if hr_url r = ''https://f'' @ message_path then status else 200), hs_header = \<lambda>_. [],
       hs_body = Inr (if hr_url r = ''https://f'' @ token_path then ''{"code":0,"tenant_access_token":"t","expire":7200}''
         else if hr_url r = ''https://f'' @ message_path then body
         else ''{"data":{"user_list":[{"user_id":"u","email":"a@x.io"}]}}'')\<rparr>\<close>

definition feishu_world :: "nat \<Rightarrow> string \<Rightarrow> world" where
  "feishu_world status body = \<lparr>w_answer = \<lambda>tr r. feishu_answer status body r, w_done = \<lambda>_. False\<rparr>"

definition good_feishu :: world where
  \<open>good_feishu = feishu_world 200 ''{"code":0,"data":{"message_id":"m1"}}''\<close>

definition busy_feishu :: world where
  "busy_feishu = feishu_world 429 ''<html>''"

definition fresh_client :: feishu_state where
  "fresh_client = \<lparr>fs_token = [], fs_expires = 0, fs_reads = 0, fs_trace = []\<rparr>"

definition mail_note :: notification where
  "mail_note = no_notification\<lparr>n_recipient := \<lparr>a_kind = AddressKindEmail, a_value = ''A@x.io'', a_display_name = []\<rparr>\<rparr>"

theorem send_accepted_once_witness:
  "\<exists>s' i. feishu_send good_feishu (\<lambda>n. int n) sample_feishu mail_note fresh_client = (Inr i, s')
    \<and> accepted_messages good_feishu sample_feishu [] (fs_trace s') = 1"
proof -
  have "\<not> isl (fst (feishu_send good_feishu (\<lambda>n. int n) sample_feishu mail_note fresh_client))" by code_simp
  then obtain i s' where s: "feishu_send good_feishu (\<lambda>n. int n) sample_feishu mail_note fresh_client = (Inr i, s')"
    by (metis prod.collapse sum.collapse(2))
  from send_accepted_once [OF s] show ?thesis using s by (auto simp: fresh_client_def)
qed


theorem token_is_reused_witness:
  "\<exists>s1. access_token good_feishu (\<lambda>n. int n) sample_feishu False s1 = (Inr ''t'', s1\<lparr>fs_reads := fs_reads s1 + 1\<rparr>)
    \<and> length (fs_trace s1) = 1"
proof -
  let ?got = "access_token good_feishu (\<lambda>n. int n) sample_feishu False fresh_client"
  have "fst ?got = Inr ''t'' \<and> int (fs_reads (snd ?got)) < fs_expires (snd ?got) \<and> length (fs_trace (snd ?got)) = 1" by code_simp
  then show ?thesis
    using token_is_reused [of good_feishu "\<lambda>n. int n" sample_feishu False fresh_client "''t''" "snd ?got"]
    by (intro exI [of _ "snd ?got"]) (metis prod.collapse)
qed


end
