(* ===== verification/Interaction.thy ===== *)
theory Interaction
  imports StoreInteraction
begin

section \<open>The interaction service\<close>

text \<open>
  application/interaction.go: what a click on a card does. The service works against two
  interfaces of ports, here the functions of a record \<open>api\<close> on a state of any type; the
  locale \<open>interaction_store\<close> states what the service relies on, its lemmas hold for any
  such store, and the interpretation \<open>sqlite\<close> shows it for the SQLite store. The service's
  clock is the argument \<open>now\<close>; logging has no effect on the result and is left out.
\<close>

record 's api =
  api_begin :: "interaction_record \<Rightarrow> 's \<Rightarrow> bool res \<times> 's"
  api_finish :: "string \<Rightarrow> string \<Rightarrow> 's \<Rightarrow> go_error option \<times> 's"
  api_delivery :: "string \<Rightarrow> 's \<Rightarrow> recorded_delivery option res"
  api_set_mute :: "recipient_address \<Rightarrow> time option \<Rightarrow> 's \<Rightarrow> go_error option \<times> 's"
  api_mute_state :: "recipient_address \<Rightarrow> 's \<Rightarrow> preference_state res"

definition rejected :: "string \<Rightarrow> interaction_result" where
  "rejected toast = \<lparr>ir_status = InteractionRejected, ir_notification = None, ir_settings = None,
     ir_toast = toast\<rparr>"

text \<open>\<open>delivery\<close>: the recorded delivery, or the result that rejects the interaction.\<close>

definition interaction_delivery ::
  "'s api \<Rightarrow> interaction \<Rightarrow> 's \<Rightarrow> interaction_result + recorded_delivery" where
  "interaction_delivery a i s =
     (case api_delivery a (in_message_id i) s of
        Inl e \<Rightarrow> Inl (rejected ''This alert could not be loaded.'')
      | Inr None \<Rightarrow> Inl (rejected ''This alert can no longer be updated.'')
      | Inr (Some d) \<Rightarrow> Inr d)"

definition open_settings :: "'s api \<Rightarrow> interaction \<Rightarrow> 's \<Rightarrow> interaction_result" where
  "open_settings a i s =
     (case interaction_delivery a i s of
        Inl r \<Rightarrow> r
      | Inr d \<Rightarrow>
        (case api_mute_state a (n_recipient (rd_notification d)) s of
           Inl e \<Rightarrow> rejected ''Settings could not be loaded.''
         | Inr st \<Rightarrow> \<lparr>ir_status = InteractionApplied, ir_notification = None,
                      ir_settings = Some st, ir_toast = []\<rparr>))"

definition close_settings :: "'s api \<Rightarrow> interaction \<Rightarrow> 's \<Rightarrow> interaction_result" where
  "close_settings a i s =
     (case interaction_delivery a i s of
        Inl r \<Rightarrow> r
      | Inr d \<Rightarrow> \<lparr>ir_status = InteractionApplied, ir_notification = Some (rd_notification d),
                  ir_settings = None, ir_toast = []\<rparr>)"

definition apply_mute :: "'s api \<Rightarrow> time \<Rightarrow> interaction \<Rightarrow> 's \<Rightarrow> interaction_result \<times> 's" where
  "apply_mute a now i s =
     (case interaction_delivery a i s of
        Inl r \<Rightarrow> (r, s)
      | Inr d \<Rightarrow>
        let mute = (in_action i = ActionMuteAll);
            until = (if mute then Some (now + mute_duration) else None)
        in case api_set_mute a (n_recipient (rd_notification d)) until s of
             (Some e, s') \<Rightarrow> (rejected ''This action could not be applied.'', s')
           | (None, s') \<Rightarrow>
             (\<lparr>ir_status = InteractionApplied, ir_notification = None,
               ir_settings = Some \<lparr>pr_muted = mute, pr_muted_until = until\<rparr>,
               ir_toast = (if mute then ''Muted for 30 days.'' else ''Unmuted.'')\<rparr>, s'))"

definition apply_interaction ::
  "'s api \<Rightarrow> time \<Rightarrow> interaction \<Rightarrow> 's \<Rightarrow> interaction_result \<times> 's" where
  "apply_interaction a now i s =
     (if in_action i = ActionOpenSettings then (open_settings a i s, s)
      else if in_action i = ActionCloseSettings then (close_settings a i s, s)
      else if in_action i = ActionMuteAll \<or> in_action i = ActionUnmuteAll then apply_mute a now i s
      else (\<lparr>ir_status = InteractionIgnored, ir_notification = None, ir_settings = None,
             ir_toast = []\<rparr>, s))"

definition interaction_record_of :: "interaction \<Rightarrow> interaction_record" where
  "interaction_record_of i =
     \<lparr>rec_event_id = in_event_id i, rec_provider = [], rec_message_id = in_message_id i,
      rec_actor_id = in_actor_id i, rec_action = in_action i, rec_result = []\<rparr>"

definition handle_interaction ::
  "'s api option \<Rightarrow> time \<Rightarrow> interaction \<Rightarrow> 's \<Rightarrow> interaction_result res \<times> 's" where
  "handle_interaction service now i s =
     (case service of
        None \<Rightarrow> (Inl (Msg ''interaction service is not configured''), s)
      | Some a \<Rightarrow>
        if trim_space (in_event_id i) = []
        then (Inr (rejected ''This action could not be verified.''), s)
        else case api_begin a (interaction_record_of i) s of
          (Inl e, s1) \<Rightarrow> (Inl e, s1)
        | (Inr True, s1) \<Rightarrow>
          (Inr \<lparr>ir_status = InteractionDuplicate, ir_notification = None, ir_settings = None,
                ir_toast = []\<rparr>, s1)
        | (Inr False, s1) \<Rightarrow>
          let (result, s2) = apply_interaction a now i s1;
              (e, s3) = api_finish a (in_event_id i) (ir_status result) s2
          in (Inr result, s3))"

subsection \<open>What the service relies on\<close>

text \<open>
  \<open>seen s\<close>: the interaction events that have begun; \<open>prefs s\<close>: the preferences. A begin
  answers whether the event is known and marks it; only a mute changes the preferences.
\<close>

locale interaction_store =
  fixes a :: "'s api" and seen :: "'s \<Rightarrow> string set" and prefs :: "'s \<Rightarrow> 'p"
  assumes begin_ok: "api_begin a r s = (Inr dup, s') \<Longrightarrow>
      dup = (rec_event_id r \<in> seen s) \<and> seen s' = insert (rec_event_id r) (seen s) \<and> prefs s' = prefs s"
    and begin_error: "api_begin a r s = (Inl e, s') \<Longrightarrow> seen s \<subseteq> seen s' \<and> prefs s' = prefs s"
    and finish_keeps: "api_finish a k result s = (err, s') \<Longrightarrow> seen s' = seen s \<and> prefs s' = prefs s"
    and set_mute_keeps: "api_set_mute a address until s = (err, s') \<Longrightarrow> seen s' = seen s"
begin

lemma apply_seen: "apply_interaction a now i s = (result, s') \<Longrightarrow> seen s' = seen s"
  using set_mute_keeps
  by (auto simp: apply_interaction_def apply_mute_def Let_def split: if_splits sum.splits prod.splits option.splits)

lemma apply_prefs:
  assumes "apply_interaction a now i s = (result, s')" "prefs s' \<noteq> prefs s"
  shows "(in_action i = ActionMuteAll \<or> in_action i = ActionUnmuteAll)
    \<and> (\<exists>d. api_delivery a (in_message_id i) s = Inr (Some d))"
  using assms
  by (auto simp: apply_interaction_def apply_mute_def interaction_delivery_def Let_def
      split: if_splits sum.splits option.splits)

lemma handle_seen:
  assumes "handle_interaction (Some a) now i s = (res, s')"
  shows "seen s \<subseteq> seen s'"
    and "res = Inr result \<Longrightarrow> trim_space (in_event_id i) \<noteq> [] \<Longrightarrow> in_event_id i \<in> seen s'"
proof -
  have 1: "seen s \<subseteq> seen s' \<and> (\<forall>result. res = Inr result \<and> trim_space (in_event_id i) \<noteq> [] \<longrightarrow> in_event_id i \<in> seen s')"
  proof (cases "trim_space (in_event_id i) = []")
    case False
    obtain b s1 where b: "api_begin a (interaction_record_of i) s = (b, s1)" by fastforce
    show ?thesis
    proof (cases b)
      case (Inl e)
      with assms b False begin_error [of _ s e s1] show ?thesis by (auto simp: handle_interaction_def)
    next
      case (Inr dup)
      note ok = begin_ok [OF b [unfolded Inr]]
      obtain result s2 where ap: "apply_interaction a now i s1 = (result, s2)" by fastforce
      obtain e s3 where fi: "api_finish a (in_event_id i) (ir_status result) s2 = (e, s3)" by fastforce
      have "seen s3 = seen s1" using apply_seen [OF ap] finish_keeps [OF fi] by simp
      moreover have "s' = (if dup then s1 else s3)"
        using assms b Inr False ap fi by (cases dup) (auto simp: handle_interaction_def)
      ultimately have "seen s' = seen s1" by simp
      with ok show ?thesis by (auto simp: interaction_record_of_def)
    qed
  qed (use assms in \<open>simp add: handle_interaction_def\<close>)
  then show "seen s \<subseteq> seen s'" by blast
  from 1 show "res = Inr result \<Longrightarrow> trim_space (in_event_id i) \<noteq> [] \<Longrightarrow> in_event_id i \<in> seen s'" by blast
qed

text \<open>Preferences change only by a mute or unmute of a known message that had not begun.\<close>

lemma handle_prefs:
  assumes "handle_interaction (Some a) now i s = (res, s')" "prefs s' \<noteq> prefs s"
  shows "in_event_id i \<notin> seen s \<and> (in_action i = ActionMuteAll \<or> in_action i = ActionUnmuteAll)"
proof (cases "trim_space (in_event_id i) = []")
  case False
  obtain b s1 where b: "api_begin a (interaction_record_of i) s = (b, s1)" by fastforce
  show ?thesis
  proof (cases b)
    case (Inl e)
    with assms b False begin_error [of _ s e s1] show ?thesis by (auto simp: handle_interaction_def)
  next
    case (Inr dup)
    note ok = begin_ok [OF b [unfolded Inr]]
    obtain result s2 where ap: "apply_interaction a now i s1 = (result, s2)" by fastforce
    obtain e s3 where fi: "api_finish a (in_event_id i) (ir_status result) s2 = (e, s3)" by fastforce
    have "s' = (if dup then s1 else s3)"
      using assms(1) b Inr False ap fi by (cases dup) (auto simp: handle_interaction_def)
    with assms(2) ok finish_keeps [OF fi] have "\<not> dup" "prefs s2 \<noteq> prefs s1" by (auto split: if_splits)
    with ok apply_prefs [OF ap] show ?thesis by (auto simp: interaction_record_of_def)
  qed
qed (use assms in \<open>simp add: handle_interaction_def\<close>)

text \<open>An event that has begun is never applied again.\<close>

lemma handle_duplicate:
  assumes "in_event_id i \<in> seen s" "handle_interaction (Some a) now i s = (res, s')"
  shows "prefs s' = prefs s \<and> (\<forall>result. res = Inr result \<longrightarrow> ir_status result \<noteq> InteractionApplied)"
proof (cases "trim_space (in_event_id i) = []")
  case True
  with assms(2) show ?thesis by (auto simp: handle_interaction_def rejected_def)
next
  case False
  obtain b s1 where b: "api_begin a (interaction_record_of i) s = (b, s1)" by fastforce
  show ?thesis
  proof (cases b)
    case (Inl e)
    with assms(2) b False begin_error [of _ s e s1] show ?thesis by (auto simp: handle_interaction_def)
  next
    case (Inr dup)
    with begin_ok [OF b [unfolded Inr]] assms(1) have "dup" "prefs s1 = prefs s"
      by (auto simp: interaction_record_of_def)
    with assms(2) b Inr False show ?thesis by (auto simp: handle_interaction_def)
  qed
qed

end

subsection \<open>The service on the SQLite store\<close>

text \<open>Each call of the store reads its own instant and may meet its own fault.\<close>

definition sqlite_api :: "(nat \<Rightarrow> fault) \<Rightarrow> (nat \<Rightarrow> time) \<Rightarrow> db api" where
  "sqlite_api f clock =
     \<lparr>api_begin = begin_interaction (f 0) (clock 0),
      api_finish = finish_interaction (f 4) (clock 4),
      api_delivery = delivery_by_message_id (f 1),
      api_set_mute = set_mute (f 3) (clock 3),
      api_mute_state = mute_state (f 2) (clock 2)\<rparr>"

interpretation sqlite: interaction_store "sqlite_api f clock" begun db_preferences for f clock
proof unfold_locales
  fix r s dup s'
  assume "api_begin (sqlite_api f clock) r s = (Inr dup, s')"
  then have b: "begin_interaction (f 0) (clock 0) r s = (Inr dup, s')" by (simp add: sqlite_api_def)
  show "dup = (rec_event_id r \<in> begun s) \<and> begun s' = insert (rec_event_id r) (begun s)
      \<and> db_preferences s' = db_preferences s"
    using begin_interaction_ok [OF b] by simp
qed (auto simp: sqlite_api_def dest: begin_interaction_begun finish_interaction_frame set_mute_begun)

subsection \<open>Properties\<close>

text \<open>C23: a click is applied at most once: once the service has answered an interaction, the
  same event, however it is repeated and whatever happened in between, neither changes a
  preference nor is reported as applied.\<close>

theorem interaction_at_most_once:
  assumes "handle_interaction (Some (sqlite_api f clock)) now i db = (Inr r, db1)"
    "trim_space (in_event_id i) \<noteq> []" "begun db1 \<subseteq> begun db2" "in_event_id j = in_event_id i"
    "handle_interaction (Some (sqlite_api f' clock')) now' j db2 = (res, db3)"
  shows "db_preferences db3 = db_preferences db2 \<and> (\<forall>r'. res = Inr r' \<longrightarrow> ir_status r' \<noteq> InteractionApplied)"
proof -
  have "in_event_id j \<in> begun db2"
    using sqlite.handle_seen(2) [OF assms(1) refl assms(2)] assms(3,4) by auto
  then show ?thesis by (rule sqlite.handle_duplicate [OF _ assms(5)])
qed

definition click :: "string \<Rightarrow> interaction" where
  "click action = \<lparr>in_event_id = ''ev-'' @ action, in_message_id = ''m1'', in_actor_id = ''ou'',
     in_action = action, in_value = []\<rparr>"

definition delivered_ping :: db where
  "delivered_ping = snd (mark_delivered no_fault (2 * second) ''k-a'' \<lparr>rc_provider_message_id = ''m1''\<rparr> claimed)"

definition clicked :: "interaction_result res \<times> db" where
  "clicked = handle_interaction (Some (sqlite_api (\<lambda>_. no_fault) (\<lambda>_. 3 * second))) (3 * second)
     (click ActionMuteAll) delivered_ping"

theorem interaction_at_most_once_witness:
  "db_preferences (snd (handle_interaction (Some (sqlite_api (\<lambda>_. no_fault) (\<lambda>_. 4 * second))) (4 * second)
     (click ActionMuteAll) (snd clicked))) = db_preferences (snd clicked)"
proof -
  have "map_sum id ir_status (fst clicked) = Inr InteractionApplied" by code_simp
  then obtain r where "fst clicked = Inr r" by (cases "fst clicked") auto
  then have 1: "handle_interaction (Some (sqlite_api (\<lambda>_. no_fault) (\<lambda>_. 3 * second))) (3 * second)
      (click ActionMuteAll) delivered_ping = (Inr r, snd clicked)"
    unfolding clicked_def by (metis prod.collapse)
  have 2: "trim_space (in_event_id (click ActionMuteAll)) \<noteq> []" by code_simp
  show ?thesis
    using interaction_at_most_once [OF 1 2 subset_refl refl prod.collapse [symmetric]] by blast
qed

text \<open>No interaction but a mute or an unmute that had not begun changes a preference.\<close>

theorem only_mutes_change_preferences:
  assumes "handle_interaction (Some (sqlite_api f clock)) now i db = (res, db')"
    "db_preferences db' \<noteq> db_preferences db"
  shows "in_event_id i \<notin> begun db \<and> in_action i \<in> {ActionMuteAll, ActionUnmuteAll}"
  using sqlite.handle_prefs [OF assms] by blast

theorem only_mutes_change_preferences_witness:
  "in_event_id (click ActionMuteAll) \<notin> begun delivered_ping"
proof -
  have c: "handle_interaction (Some (sqlite_api (\<lambda>_. no_fault) (\<lambda>_. 3 * second))) (3 * second)
      (click ActionMuteAll) delivered_ping = (fst clicked, snd clicked)" by (simp add: clicked_def)
  have "length (db_preferences (snd clicked)) = 1" "length (db_preferences delivered_ping) = 0" by code_simp+
  then have "db_preferences (snd clicked) \<noteq> db_preferences delivered_ping" by auto
  from only_mutes_change_preferences [OF c this] show ?thesis by blast
qed



end
