(* ===== verification/FeishuInteractions.thy ===== *)
theory FeishuInteractions
  imports FeishuCardLaws Interaction Policy
begin

section \<open>Clicks\<close>

text \<open>
  adapter/messenger/feishu/interactions.go. The long connection is the SDK's; what it hands to
  \<open>handleCardAction\<close> is a record here, its pointers options. The handler is the interface of
  ports, a function on a state of any type. The toast and the card of the answer are what the
  SDK sends back.
\<close>

record card_request =
  cq_action :: "object option"
  cq_context :: "string option"
  cq_operator :: "string option"

record card_event =
  cv_header :: "string option"
  cv_event :: "card_request option"

record card_response =
  cr_toast_type :: string
  cr_toast :: string
  cr_card :: "json option"

type_synonym 's interaction_handler = "interaction \<Rightarrow> 's \<Rightarrow> interaction_result res \<times> 's"

record 's interaction_worker_config =
  iw_app_id :: string
  iw_app_secret :: string
  iw_handler :: "'s interaction_handler option"

definition new_interaction_worker :: "'s interaction_worker_config \<Rightarrow> 's interaction_handler res" where
  "new_interaction_worker c =
     (if trim_space (iw_app_id c) = [] \<or> trim_space (iw_app_secret c) = []
      then Inl (Msg ''feishu app credentials are required for card interactions'')
      else case iw_handler c of
        None \<Rightarrow> Inl (Msg ''an interaction handler is required'')
      | Some h \<Rightarrow> Inr h)"

text \<open>The texts of an action's value; the others are left out.\<close>

definition text_members :: "object \<Rightarrow> (string, string) gomap" where
  "text_members ms =
     concat (map (\<lambda>(k, v). case v of JStr t \<Rightarrow> [(k, t)] | _ \<Rightarrow> []) (sorted_members ms))"

definition or_empty :: "string option \<Rightarrow> string" where
  "or_empty s = (case s of None \<Rightarrow> [] | Some t \<Rightarrow> t)"

definition interaction_from_card_action :: "card_event option \<Rightarrow> interaction option" where
  "interaction_from_card_action event =
     (case event of
        None \<Rightarrow> None
      | Some e \<Rightarrow>
        (case cv_event e of
           None \<Rightarrow> None
         | Some rq \<Rightarrow>
           (case cq_action rq of
              None \<Rightarrow> None
            | Some value \<Rightarrow>
              let texts = text_members value;
                  i = \<lparr>in_event_id = or_empty (cv_header e), in_message_id = or_empty (cq_context rq),
                       in_actor_id = or_empty (cq_operator rq), in_action = or_empty (map_of texts ''action''),
                       in_value = filter (\<lambda>(k, v). k \<noteq> ''action'') texts\<rparr>
              in if in_message_id i = [] \<or> in_action i = [] then None else Some i)))"

definition toast_response :: "string \<Rightarrow> string \<Rightarrow> card_response" where
  "toast_response kind content = \<lparr>cr_toast_type = kind, cr_toast = content, cr_card = None\<rparr>"

definition interaction_toast_type :: "string \<Rightarrow> string" where
  "interaction_toast_type status =
     (if status = InteractionApplied then ''success'' else if status = InteractionRejected then ''error'' else ''info'')"

definition card_answer :: "string \<Rightarrow> string \<Rightarrow> card_response" where
  "card_answer rendered toast =
     (case parse_json rendered of
        Some (JObj ms) \<Rightarrow> (toast_response ''success'' toast)\<lparr>cr_card := Some (JObj ms)\<rparr>
      | Some JNull \<Rightarrow> (toast_response ''success'' toast)\<lparr>cr_card := Some JNull\<rparr>
      | _ \<Rightarrow> toast_response ''error'' ''This action could not be displayed.'')"

definition handle_card_action ::
  "'s interaction_handler \<Rightarrow> card_event option \<Rightarrow> 's \<Rightarrow> card_response \<times> 's" where
  "handle_card_action handler event s =
     (case interaction_from_card_action event of
        None \<Rightarrow> (toast_response ''error'' ''This action is not supported.'', s)
      | Some i \<Rightarrow>
        (case handler i s of
           (Inl e, s') \<Rightarrow> (toast_response ''error'' ''This action could not be applied.'', s')
         | (Inr r, s') \<Rightarrow>
           ((case ir_settings r of
               Some st \<Rightarrow> card_answer (render_settings_card st) (ir_toast r)
             | None \<Rightarrow>
               (case ir_notification r of
                  Some n \<Rightarrow> card_answer (render_card n) (ir_toast r)
                | None \<Rightarrow> toast_response (interaction_toast_type (ir_status r))
                    (if ir_toast r = [] then ''This action was already handled.'' else ir_toast r))), s')))"

subsection \<open>The buttons of a card\<close>

text \<open>
  What Feishu shows and sends back: the buttons of the action rows of a card, and for a button
  the object of its value. \<open>click_of\<close> is the event of a click on it.
\<close>

definition card_buttons :: "json \<Rightarrow> json list" where
  "card_buttons c =
     concat (map (\<lambda>e. array_value (member (map_value e) ''actions'')) (array_value (member (map_value c) ''elements'')))"

definition click_of :: "string \<Rightarrow> string \<Rightarrow> string \<Rightarrow> json \<Rightarrow> card_event" where
  "click_of event_id message_id actor b =
     \<lparr>cv_header = Some event_id,
      cv_event = Some \<lparr>cq_action = Some (map_value (member (map_value b) ''value'')),
        cq_context = Some message_id, cq_operator = Some actor\<rparr>\<rparr>"

definition clicks_of :: "string \<Rightarrow> string \<Rightarrow> string \<Rightarrow> json \<Rightarrow> interaction list" where
  "clicks_of event_id message_id actor c =
     List.map_filter (\<lambda>b. interaction_from_card_action (Some (click_of event_id message_id actor b))) (card_buttons c)"

subsection \<open>Reading a canonical object\<close>

lemma distinct_sorted_members: "distinct (map fst (sorted_members ms))"
  by (simp add: sorted_members_def comp_def)

lemma map_of_sorted_members: "map_of (sorted_members ms) k = map_of (rev ms) k"
proof -
  have "map_of (map (\<lambda>k. (k, f k)) ks) k = (if k \<in> set ks then Some (f k) else None)" for f :: "string \<Rightarrow> 'a" and ks
    by (induction ks) auto
  moreover have "k \<in> fst ` set ms \<longleftrightarrow> map_of (rev ms) k \<noteq> None" by (simp add: map_of_eq_None_iff)
  ultimately show ?thesis by (auto simp: sorted_members_def)
qed

lemma map_of_rev_distinct: "distinct (map fst xs) \<Longrightarrow> map_of (rev xs) = map_of xs"
  by (subst map_of_inject_set) (simp_all flip: rev_map)

definition clean :: "string \<Rightarrow> bool" where
  "clean s \<longleftrightarrow> clean_string s = s"

lemma canon_members:
  assumes "list_all clean (map fst ms)"
  shows "canon (JObj ms) = JObj (map (\<lambda>(k, v). (k, canon v)) (sorted_members ms))"
proof -
  have "clean k" if "(k, v) \<in> set (sorted_members ms)" for k v
    using sorted_members_in [OF that] assms by (auto simp: list_all_iff)
  then show ?thesis
    unfolding canon.simps sorted_members_map by (auto simp: clean_def)
qed

lemma member_canon:
  assumes "list_all clean (map fst ms)"
  shows "member (map_value (canon (JObj ms))) k = canon (member ms k)"
proof -
  have "map_of (rev (map (\<lambda>(k, v). (k, canon v)) (sorted_members ms))) k
      = map_of (map (\<lambda>(k, v). (k, canon v)) (sorted_members ms)) k"
    using distinct_sorted_members [of ms]
      map_of_rev_distinct [of "map (\<lambda>(k, v). (k, canon v)) (sorted_members ms)"] by (simp add: comp_def split_beta)
  also have "\<dots> = map_option canon (map_of (rev ms) k)"
    by (simp add: map_of_map map_of_sorted_members)
  finally show ?thesis unfolding canon_members [OF assms]
    by (cases "map_of (rev ms) k") (simp_all add: member_def)
qed

lemma array_value_canon: "array_value (canon v) = map canon (array_value v)"
  by (cases v) simp_all

definition plain_object :: "json \<Rightarrow> bool" where
  "plain_object v \<longleftrightarrow> (\<exists>ms. v = JObj ms \<and> list_all clean (map fst ms))"

lemma member_canon_plain:
  "plain_object v \<Longrightarrow> member (map_value (canon v)) k = canon (member (map_value v) k)"
  using member_canon by (auto simp: plain_object_def)

lemma clean_names:
  "clean ''tag''" "clean ''content''" "clean ''text''" "clean ''type''" "clean ''value''" "clean ''url''"
  "clean ''actions''" "clean ''action''" "clean ''config''" "clean ''header''" "clean ''elements''"
  "clean ActionMuteAll" "clean ActionUnmuteAll" "clean ActionCloseSettings" "clean ActionOpenSettings"
  by code_simp+

lemma plain_parts:
  "plain_object (div_of tag content)" "plain_object hr" "plain_object (action_row actions)"
  "plain_object (card_of template title es)"
  "key \<in> {''value'', ''url''} \<Longrightarrow> plain_object (button_of type label key target)"
  by (auto simp: plain_object_def div_of_def hr_def action_row_def card_of_def button_of_def clean_names)

lemma member_Cons: "member ((k, v) # ms) l = (case map_of (rev ms) l of Some x \<Rightarrow> x | None \<Rightarrow> if l = k then v else JNull)"
  by (simp add: member_def map_add_def split: option.splits)

lemma parts_members:
  "member (map_value (div_of tag content)) ''actions'' = JNull" "member (map_value hr) ''actions'' = JNull"
  "member (map_value (action_row actions)) ''actions'' = JArr actions"
  "member (map_value (card_of template title es)) ''elements'' = JArr es"
  "member (map_value (button_of type label ''value'' target)) ''value'' = target"
  "member (map_value (button_of type label ''url'' target)) ''value'' = JNull"
  by (simp_all add: div_of_def hr_def action_row_def card_of_def button_of_def member_def)

definition buttons_in :: "json list \<Rightarrow> json list" where
  "buttons_in es = concat (map (\<lambda>e. array_value (member (map_value e) ''actions'')) es)"

lemma buttons_of_card:
  assumes "list_all plain_object es"
  shows "card_buttons (canon (card_of template title es)) = map canon (buttons_in es)"
proof -
  have "array_value (member (map_value (canon (card_of template title es))) ''elements'') = map canon es"
    unfolding member_canon_plain [OF plain_parts(4)] parts_members by simp
  moreover have "map (\<lambda>e. array_value (member (map_value e) ''actions'')) (map canon es)
      = map (\<lambda>e. map canon (array_value (member (map_value e) ''actions''))) es"
    using assms by (simp add: list_all_iff member_canon_plain array_value_canon)
  ultimately show ?thesis by (simp add: card_buttons_def buttons_in_def map_concat comp_def cong: map_cong)
qed

lemma buttons_in_parts:
  "buttons_in [] = []" "buttons_in (div_of tag content # es) = buttons_in es" "buttons_in (hr # es) = buttons_in es"
  "buttons_in (action_row actions # es) = actions @ buttons_in es" "buttons_in (es @ fs) = buttons_in es @ buttons_in fs"
  by (simp_all add: buttons_in_def parts_members)

lemma buttons_of_notification: "card_buttons (canon (card_json n)) = map canon (card_actions n)"
proof -
  have facts: "list_all plain_object (fact_elements f) \<and> buttons_in (fact_elements f) = []" for f
  proof -
    have "buttons_in (map (\<lambda>k. div_of ''plain_text'' (g k)) ks) = []" for g and ks :: "string list"
      by (induction ks) (simp_all add: buttons_in_parts)
    then show ?thesis by (auto simp: fact_elements_def buttons_in_parts list_all_iff plain_parts)
  qed
  have others: "list_all plain_object es \<and> buttons_in es = []"
    if "es \<in> {job_elements n, source_elements n, reason_elements n, link_elements n}" for es
    using that
    by (auto simp: job_elements_def source_elements_def reason_elements_def link_elements_def Let_def
        buttons_in_parts plain_parts split: prod.splits)
  show ?thesis
    unfolding card_json_def using facts others
    by (subst buttons_of_card) (simp_all add: plain_parts buttons_in_parts)
qed

lemma buttons_of_settings:
  "card_buttons (canon (settings_json st))
    = map canon [if pr_muted st then settings_button ''primary'' (string_of_runes [0x1F514] @ '' Unmute'') ActionUnmuteAll
        else settings_button ''default'' (string_of_runes [0x1F515] @ '' Mute 30d'') ActionMuteAll,
        settings_button ''default'' ''Close'' ActionCloseSettings]"
  unfolding settings_json_def by (subst buttons_of_card) (simp_all add: plain_parts buttons_in_parts)

subsection \<open>Clicks on a button\<close>

lemma sorted_members_again: "sorted_members (sorted_members ms) = sorted_members ms"
proof -
  have "map_of (rev (sorted_members ms)) = map_of (rev ms)"
    using map_of_rev_distinct [OF distinct_sorted_members] map_of_sorted_members by (metis ext)
  moreover have "fst ` set (sorted_members ms) = fst ` set ms"
    by (simp add: sorted_members_def image_image)
  ultimately show ?thesis by (simp add: sorted_members_def)
qed

lemma text_members_canon:
  assumes "list_all clean (map fst kvs)"
  shows "text_members (map_value (canon (JObj (map (\<lambda>(k, v). (k, JStr v)) kvs))))
    = map (\<lambda>(k, v). (k, clean_string v)) (sorted_members kvs)"
proof -
  have "list_all clean (map fst (map (\<lambda>(k, v). (k, JStr v)) kvs))" using assms by (simp add: comp_def split_beta)
  then have "map_value (canon (JObj (map (\<lambda>(k, v). (k, JStr v)) kvs)))
      = map (\<lambda>(k, v). (k, JStr (clean_string v))) (sorted_members kvs)"
    by (simp only: canon_members map_value.simps sorted_members_map) (simp add: split_beta)
  moreover have "concat (map (\<lambda>(k, v). case v of JStr t \<Rightarrow> [(k, t)] | _ \<Rightarrow> []) (map (\<lambda>(k, v). (k, JStr (f v))) ms))
      = map (\<lambda>(k, v). (k, f v)) ms" for f ms
    by (induction ms) auto
  ultimately show ?thesis by (simp add: text_members_def sorted_members_map sorted_members_again del: canon.simps)
qed

text \<open>What an action's value must be for its click to carry it unchanged: no broken UTF-8.\<close>

definition clean_action :: "notification_action \<Rightarrow> bool" where
  "clean_action a \<longleftrightarrow> na_action a \<noteq> [] \<and> clean (na_action a) \<and> distinct (map fst (na_value a))
     \<and> list_all (\<lambda>(k, v). clean k \<and> clean v) (na_value a)"

definition click_carries :: "string \<Rightarrow> string \<Rightarrow> string \<Rightarrow> interaction \<Rightarrow> notification_action \<Rightarrow> bool" where
  "click_carries event_id message_id actor i a \<longleftrightarrow>
     in_event_id i = event_id \<and> in_message_id i = message_id \<and> in_actor_id i = actor
     \<and> in_action i = na_action a \<and> map_of (in_value i) = (map_of (na_value a))(''action'' := None)"

lemma map_of_without: "map_of (filter (\<lambda>(k, v). k \<noteq> l) xs) = (map_of xs)(l := None)"
  by (induction xs) (auto simp: fun_eq_iff)

lemma update_subset: "set (AList.update k v kvs) \<subseteq> insert (k, v) (set kvs)"
  by (induction kvs) auto

lemma click_of_action:
  assumes "clean_action a" "message_id \<noteq> []"
  obtains i where
    "interaction_from_card_action (Some (click_of event_id message_id actor (canon (button_of type label ''value'' (button_value a))))) = Some i"
    "click_carries event_id message_id actor i a"
proof -
  let ?kvs = "AList.update ''action'' (na_action a) (na_value a)"
  let ?texts = "map (\<lambda>(k, v). (k, clean_string v)) (sorted_members ?kvs)"
  have upd: "set ?kvs \<subseteq> insert (''action'', na_action a) (set (na_value a))"
    by (rule update_subset)
  have keys: "list_all (\<lambda>(k, v). clean k \<and> clean v) ?kvs"
    using assms(1) upd clean_names by (auto simp: clean_action_def list_all_iff)
  have dist: "distinct (map fst ?kvs)" using assms(1) by (simp add: clean_action_def distinct_update)
  have target: "member (map_value (canon (button_of type label ''value'' (button_value a)))) ''value'' = canon (button_value a)"
    by (simp only: member_canon_plain plain_parts insert_iff simp_thms parts_members)
  have tm: "text_members (map_value (canon (button_value a))) = ?texts"
    unfolding button_value_def using keys by (intro text_members_canon) (auto simp: list_all_iff)
  have "map_of ?texts k = map_option clean_string (map_of ?kvs k)" for k
    using map_of_rev_distinct [OF dist] by (simp add: map_of_map map_of_sorted_members)
  moreover have "map_option clean_string (map_of ?kvs k) = map_of ?kvs k" for k
    using keys by (cases "map_of ?kvs k") (auto simp: list_all_iff clean_def dest!: map_of_SomeD)
  ultimately have texts: "map_of ?texts = (map_of (na_value a))(''action'' \<mapsto> na_action a)"
    by (intro ext) (simp add: update_conv)
  have "map_of (filter (\<lambda>(k, v). k \<noteq> ''action'') ?texts) = (map_of ?texts)(''action'' := None)"
    by (rule map_of_without)
  then show ?thesis using that assms texts
    by (auto simp: interaction_from_card_action_def click_of_def target tm or_empty_def click_carries_def
        clean_action_def Let_def)
qed

lemma click_of_link:
  "interaction_from_card_action (Some (click_of event_id message_id actor (canon (button_of type label ''url'' target)))) = None"
proof -
  have "member (map_value (canon (button_of type label ''url'' target))) ''value'' = JNull"
    by (simp only: member_canon_plain plain_parts insert_iff simp_thms parts_members canon.simps)
  then show ?thesis
    by (simp add: interaction_from_card_action_def click_of_def text_members_def sorted_members_def or_empty_def Let_def)
qed

lemma click_of_settings:
  assumes "clean action" "action \<noteq> []" "message_id \<noteq> []"
  shows "interaction_from_card_action (Some (click_of event_id message_id actor (canon (settings_button type label action))))
    = Some \<lparr>in_event_id = event_id, in_message_id = message_id, in_actor_id = actor, in_action = action, in_value = []\<rparr>"
proof -
  have "member (map_value (canon (settings_button type label action))) ''value'' = canon (JObj (map (\<lambda>(k, v). (k, JStr v)) [(''action'', action)]))"
    unfolding settings_button_def
    by (simp only: member_canon_plain plain_parts insert_iff simp_thms parts_members list.map prod.case)
  moreover have "text_members (map_value (canon (JObj (map (\<lambda>(k, v). (k, JStr v)) [(''action'', action)])))) = [(''action'', action)]"
    using assms(1) clean_names by (subst text_members_canon) (simp_all add: sorted_members_def clean_def)
  ultimately show ?thesis using assms(2,3)
    by (simp add: interaction_from_card_action_def click_of_def or_empty_def Let_def del: canon.simps list.map)
qed

text \<open>C13: the buttons of a card that has gone to Feishu as JSON and come back as clicks: there is one
  click for every labelled action of the notification, in their order, and none for a link;
  it carries the action and the texts of its value, and names the event, the message and the
  person who clicked.\<close>

theorem card_clicks_are_actions:
  assumes "parse_json (render_card n) = Some c" "message_id \<noteq> []" "list_all clean_action (n_actions n)"
  shows "list_all2 (click_carries event_id message_id actor) (clicks_of event_id message_id actor c)
    (filter (\<lambda>a. na_label a \<noteq> []) (n_actions n))"
proof -
  let ?click = "\<lambda>b. interaction_from_card_action (Some (click_of event_id message_id actor b))"
  have c: "c = canon (card_json n)"
    using assms(1) parse_marshal [OF number_free_card] by (simp add: render_card_def)
  have "list_all2 (click_carries event_id message_id actor)
      (List.map_filter ?click (map (\<lambda>a. canon (button_of ''default'' (na_label a) ''value'' (button_value a))) as)) as"
    if "list_all clean_action as" for as
    using that
  proof (induction as)
    case (Cons a as)
    obtain i where "?click (canon (button_of ''default'' (na_label a) ''value'' (button_value a))) = Some i"
      "click_carries event_id message_id actor i a"
      using click_of_action [of a] Cons.prems assms(2) by (metis list.pred_inject(2))
    then show ?case using Cons by (simp add: List.map_filter_simps)
  qed (simp add: List.map_filter_simps)
  from this [of "filter (\<lambda>a. na_label a \<noteq> []) (n_actions n)"] assms(3)
  show ?thesis
    unfolding c clicks_of_def buttons_of_notification card_actions_def action_buttons_def
    by (auto simp: List.map_filter_simps click_of_link list_all_iff comp_def split: if_splits)
qed

text \<open>The settings panel offers the opposite of the state it was made for, and a way back: its
  two clicks are an unmute for a muted recipient and a mute otherwise, then the closing of the
  panel.\<close>

theorem settings_panel_offers_the_other_state:
  assumes "parse_json (render_settings_card st) = Some c" "message_id \<noteq> []"
  shows "clicks_of event_id message_id actor c
    = map (\<lambda>action. \<lparr>in_event_id = event_id, in_message_id = message_id, in_actor_id = actor, in_action = action, in_value = []\<rparr>)
        [if pr_muted st then ActionUnmuteAll else ActionMuteAll, ActionCloseSettings]"
proof -
  have c: "c = canon (settings_json st)"
    using assms(1) parse_marshal [OF number_free_settings] by (simp add: render_settings_card_def)
  show ?thesis
    unfolding c clicks_of_def buttons_of_settings
    by (simp add: List.map_filter_simps click_of_settings clean_names assms(2))
qed

subsection \<open>Answers\<close>

definition shown_card :: "interaction_result \<Rightarrow> json option" where
  "shown_card r =
     (case ir_settings r of
        Some st \<Rightarrow> Some (settings_json st)
      | None \<Rightarrow> map_option card_json (ir_notification r))"

lemma card_answer_shows: "number_free (JObj ms) \<Longrightarrow>
    card_answer (marshal (JObj ms)) toast = (toast_response ''success'' toast)\<lparr>cr_card := Some (canon (JObj ms))\<rparr>"
  by (simp add: card_answer_def parse_marshal del: marshal.simps)

lemma card_answers:
  "card_answer (render_card n) toast = (toast_response ''success'' toast)\<lparr>cr_card := Some (canon (card_json n))\<rparr>"
  "card_answer (render_settings_card st) toast = (toast_response ''success'' toast)\<lparr>cr_card := Some (canon (settings_json st))\<rparr>"
  using card_answer_shows number_free_card [of n] number_free_settings [of st]
  unfolding render_card_def render_settings_card_def card_json_def settings_json_def card_of_def by blast+

lemma handle_card_answer:
  assumes "interaction_from_card_action event = Some i" "handler i s = (Inr r, s')"
    "handle_card_action handler event s = (answer, s2)"
  shows "s2 = s' \<and> cr_card answer = map_option canon (shown_card r)
    \<and> (shown_card r \<noteq> None \<longrightarrow> cr_toast_type answer = ''success'' \<and> cr_toast answer = ir_toast r)
    \<and> (shown_card r = None \<longrightarrow> cr_toast_type answer = interaction_toast_type (ir_status r) \<and> cr_toast answer \<noteq> [])"
  using assms
  by (auto simp: handle_card_action_def shown_card_def card_answers toast_response_def split: option.splits if_splits)

text \<open>The answer to a click: an event that names no message or no action changes nothing and is
  answered by an error; otherwise the handler's state is kept, its error is a toast, its settings
  or its notification is the card, which is never refused as JSON, and without a card the
  toast has a text.\<close>

theorem card_click_is_answered:
  assumes "handle_card_action handler event s = (answer, s2)"
  shows "case interaction_from_card_action event of
      None \<Rightarrow> s2 = s \<and> cr_toast_type answer = ''error'' \<and> cr_card answer = None
    | Some i \<Rightarrow> s2 = snd (handler i s) \<and>
        (case fst (handler i s) of
           Inl e \<Rightarrow> cr_toast_type answer = ''error'' \<and> cr_card answer = None
         | Inr r \<Rightarrow> cr_card answer = map_option canon (shown_card r)
             \<and> cr_toast_type answer = (if shown_card r = None then interaction_toast_type (ir_status r) else ''success'')
             \<and> (cr_toast answer = [] \<longrightarrow> shown_card r \<noteq> None \<and> ir_toast r = []))"
proof (cases "interaction_from_card_action event")
  case None
  then show ?thesis using assms by (auto simp: handle_card_action_def toast_response_def)
next
  case (Some i)
  obtain res s' where h: "handler i s = (res, s')" by fastforce
  show ?thesis
  proof (cases res)
    case (Inl e)
    then show ?thesis using assms Some h by (auto simp: handle_card_action_def toast_response_def)
  next
    case (Inr r)
    from handle_card_answer [of event i handler s r s'] Some h [unfolded Inr] assms
    show ?thesis by (auto simp: Inr)
  qed
qed

text \<open>The panel that answers a mute offers the unmute, and the other way round, for any stores
  behind the interaction service.\<close>

theorem mute_panel_offers_undo:
  assumes "interaction_from_card_action event = Some i" "in_action i = ActionMuteAll \<or> in_action i = ActionUnmuteAll"
    "handle_card_action (handle_interaction (Some a) now) event s = (answer, s')" "cr_card answer = Some c"
    "message_id \<noteq> []"
  shows "map in_action (clicks_of event_id message_id actor c)
    = [if in_action i = ActionMuteAll then ActionUnmuteAll else ActionMuteAll, ActionCloseSettings]"
proof -
  obtain res s1 where h: "handle_interaction (Some a) now i s = (res, s1)" by fastforce
  obtain r where r: "res = Inr r"
    using assms(1,3,4) h by (cases res) (auto simp: handle_card_action_def toast_response_def)
  from handle_card_answer [OF assms(1) h [unfolded r] assms(3)] assms(4)
  have shown: "map_option canon (shown_card r) = Some c" by simp
  have "ir_notification r = None \<and> (\<forall>st. ir_settings r = Some st \<longrightarrow> pr_muted st = (in_action i = ActionMuteAll))"
    using h r assms(2)
    by (auto simp: handle_interaction_def apply_interaction_def apply_mute_def interaction_delivery_def rejected_def Let_def
        split: if_splits sum.splits bool.splits prod.splits option.splits)
  then obtain st where st: "pr_muted st = (in_action i = ActionMuteAll)" "c = canon (settings_json st)"
    using shown by (auto simp: shown_card_def split: option.splits)
  show ?thesis
    unfolding st(2) clicks_of_def buttons_of_settings
    by (simp add: List.map_filter_simps click_of_settings clean_names assms(5) st(1))
qed

subsection \<open>Witnesses\<close>

definition settings_note :: notification where
  "settings_note = no_notification\<lparr>n_actions := notification_actions, n_url := ''https://git.io/x''\<rparr>"

theorem card_clicks_are_actions_witness:
  "list_all2 (click_carries ''ev'' ''m1'' ''ou'') (clicks_of ''ev'' ''m1'' ''ou'' (canon (card_json settings_note))) [settings_action]"
proof -
  have "parse_json (render_card settings_note) = Some (canon (card_json settings_note))"
    by (simp add: render_card_def parse_marshal number_free_card)
  moreover have "list_all clean_action (n_actions settings_note)"
    "filter (\<lambda>a. na_label a \<noteq> []) (n_actions settings_note) = [settings_action]"
    by (simp_all add: settings_note_def notification_actions_def settings_action_def clean_action_def clean_names)
  ultimately show ?thesis
    using card_clicks_are_actions [of settings_note "canon (card_json settings_note)" "''m1''" "''ev''" "''ou''"] by simp
qed

definition muted_panel :: preference_state where
  "muted_panel = \<lparr>pr_muted = True, pr_muted_until = Some (30 * 24 * hour)\<rparr>"

theorem settings_panel_offers_the_other_state_witness:
  "map in_action (clicks_of ''ev'' ''m1'' ''ou'' (canon (settings_json muted_panel))) = [ActionUnmuteAll, ActionCloseSettings]"
proof -
  have "parse_json (render_settings_card muted_panel) = Some (canon (settings_json muted_panel))"
    by (simp add: render_settings_card_def parse_marshal number_free_settings)
  from settings_panel_offers_the_other_state [OF this, of "''m1''" "''ev''" "''ou''"]
  show ?thesis by (simp add: muted_panel_def)
qed

definition mute_event :: card_event where
  "mute_event = click_of ''ev-mute_all'' ''m1'' ''ou'' (canon (settings_button ''default'' ''Mute'' ActionMuteAll))"

lemma mute_event_click: "interaction_from_card_action (Some mute_event) = Some (click ActionMuteAll)"
  by (simp add: mute_event_def click_of_settings clean_names click_def)

theorem card_click_is_answered_witness:
  "cr_card (fst (handle_card_action (handle_interaction (None :: nat api option) 0) (Some mute_event) 0)) = None"
proof -
  obtain answer s2 where h: "handle_card_action (handle_interaction (None :: nat api option) 0) (Some mute_event) 0 = (answer, s2)"
    by fastforce
  from card_click_is_answered [OF h] show ?thesis
    by (simp add: h mute_event_click handle_interaction_def)
qed

theorem mute_panel_offers_undo_witness:
  "\<exists>c. cr_card (fst (handle_card_action (handle_interaction (Some (sqlite_api (\<lambda>_. no_fault) (\<lambda>_. 3 * second))) (3 * second))
        (Some mute_event) delivered_ping)) = Some c
      \<and> map in_action (clicks_of ''ev'' ''m1'' ''ou'' c) = [ActionUnmuteAll, ActionCloseSettings]"
proof -
  let ?handler = "handle_interaction (Some (sqlite_api (\<lambda>_. no_fault) (\<lambda>_. 3 * second))) (3 * second)"
  obtain answer s' where a: "handle_card_action ?handler (Some mute_event) delivered_ping = (answer, s')" by fastforce
  have "case fst clicked of Inr r \<Rightarrow> map_option pr_muted (ir_settings r) = Some True | Inl e \<Rightarrow> False" by code_simp
  then obtain r st where r: "fst clicked = Inr r" "ir_settings r = Some st" by (auto split: sum.splits)
  have h: "?handler (click ActionMuteAll) delivered_ping = (Inr r, snd clicked)"
    unfolding clicked_def using r(1) by (metis clicked_def prod.collapse)
  have c: "cr_card answer = Some (canon (settings_json st))"
    using handle_card_answer [OF mute_event_click h a] r(2) by (simp add: shown_card_def)
  have "in_action (click ActionMuteAll) = ActionMuteAll" by (simp add: click_def)
  with mute_panel_offers_undo [OF mute_event_click _ a c, of "''m1''" "''ev''" "''ou''"] show ?thesis
    by (simp add: a c)
qed

end
