(* ===== verification/Program.thy ===== *)
theory Program
  imports Settings WebhookServer Migration Worker Decoder GitLabHooks GitLabUsers FeishuClientLaws FeishuInteractions
begin

section \<open>The program\<close>

text \<open>
  cmd/crowsnest: the commands, what \<open>serve\<close> builds from the settings before it listens, and the
  two schedulers of application/reconcile.go and identity_sync_scheduler.go. The parts that
  then run side by side are the steps of \<open>System\<close>. The error of opening the database is an argument
  of the commands; the last part opens the file first.
\<close>

subsection \<open>Schedulers\<close>

text \<open>
  A scheduler works once and then at every tick until its context ends; an error is logged and
  never ends it. A run's error is the list of the errors it joins, empty for nil.
\<close>

definition logged :: "go_error list \<Rightarrow> go_error list list" where
  "logged errs = (if errs = [] \<or> list_ex (\<lambda>e. errors_is e Canceled) errs then [] else [errs])"

fun run_ticks :: "('s \<Rightarrow> go_error list \<times> 's) \<Rightarrow> nat \<Rightarrow> 's \<Rightarrow> go_error list list \<times> 's" where
  "run_ticks once 0 s = ([], s)"
| "run_ticks once (Suc n) s =
     (case once s of (errs, s1) \<Rightarrow> case run_ticks once n s1 of (log, s2) \<Rightarrow> (logged errs @ log, s2))"

record 's scheduler =
  sd_once :: "(bool \<Rightarrow> 's \<Rightarrow> go_error list \<times> 's) option"
  sd_interval :: duration
  sd_dry_run :: bool

definition new_reconcile_scheduler ::
  "(bool \<Rightarrow> 's \<Rightarrow> go_error list \<times> 's) option \<Rightarrow> duration \<Rightarrow> bool \<Rightarrow> 's scheduler" where
  "new_reconcile_scheduler controller interval dry_run =
     \<lparr>sd_once = controller, sd_interval = (if interval \<le> 0 then 15 * minute else interval), sd_dry_run = dry_run\<rparr>"

definition new_identity_sync_scheduler ::
  "(bool \<Rightarrow> 's \<Rightarrow> go_error list \<times> 's) option \<Rightarrow> duration \<Rightarrow> bool \<Rightarrow> 's scheduler" where
  "new_identity_sync_scheduler service interval dry_run =
     \<lparr>sd_once = service, sd_interval = (if interval \<le> 0 then hour else interval), sd_dry_run = dry_run\<rparr>"

definition run_scheduler :: "'s scheduler \<Rightarrow> nat \<Rightarrow> 's \<Rightarrow> go_error option \<times> go_error list list \<times> 's" where
  "run_scheduler sd ticks s =
     (case sd_once sd of
        None \<Rightarrow> (None, [], s)
      | Some once \<Rightarrow> (case run_ticks (once (sd_dry_run sd)) (Suc ticks) s of (log, s1) \<Rightarrow> (Some Canceled, log, s1)))"

text \<open>The scheduler of the synchronization may itself be nil.\<close>

definition run_identity_sync :: "'s scheduler option \<Rightarrow> nat \<Rightarrow> 's \<Rightarrow> go_error option \<times> go_error list list \<times> 's" where
  "run_identity_sync sd ticks s = (case sd of None \<Rightarrow> (None, [], s) | Some x \<Rightarrow> run_scheduler x ticks s)"

definition sync_once :: "'s sync_service \<Rightarrow> bool \<Rightarrow> 's \<Rightarrow> go_error list \<times> 's" where
  "sync_once svc dry_run s = (case sync (Some svc) dry_run s of (report, errs, s1) \<Rightarrow> (errs, s1))"

subsection \<open>The command line\<close>

datatype command = Serve | Reconcile "string list" | SyncUsers "string list" | Unknown

definition command_of :: "string list \<Rightarrow> command" where
  "command_of args =
     (let c = (if 1 < length args then args ! 1 else ''serve'') in
      if c = ''serve'' then Serve
      else if c = ''reconcile'' then Reconcile (drop 2 args)
      else if c = ''sync-users'' then SyncUsers (drop 2 args) else Unknown)"

fun dry_run_of :: "bool \<Rightarrow> string list \<Rightarrow> bool" where
  "dry_run_of dry_run [] = dry_run"
| "dry_run_of dry_run (a # as) =
     dry_run_of (if a = ''--apply'' then False else if a = ''--dry-run'' then True else dry_run) as"

subsection \<open>Building the parts\<close>

definition hook_config_of :: "settings \<Rightarrow> hook_config" where
  "hook_config_of st =
     \<lparr>hc_base_url = st_gitlab_base_url st, hc_api_token = st_gitlab_api_token st, hc_webhook_url = st_gitlab_webhook_url st,
      hc_webhook_token = st_gitlab_hook_token st, hc_hook_name = st_gitlab_hook_name st, hc_ssl = st_gitlab_ssl_verify st\<rparr>"

definition build_hook_controller :: "settings \<Rightarrow> hook_config option res" where
  "build_hook_controller st =
     (if st_gitlab_base_url st = [] \<and> st_gitlab_api_token st = [] \<and> st_gitlab_webhook_url st = [] then Inr None
      else map_sum id Some (new_hook_controller (hook_config_of st)))"

definition feishu_config_of :: "settings \<Rightarrow> feishu_config" where
  "feishu_config_of st =
     \<lparr>fc_base_url = st_feishu_base_url st, fc_app_id = st_feishu_app_id st, fc_app_secret = st_feishu_app_secret st,
      fc_timeout = 0, fc_token_margin = 0\<rparr>"

text \<open>\<open>None\<close> is the dry-run messenger; a directory of \<open>None\<close> is GitLab's own addresses.\<close>

definition build_messenger :: "settings \<Rightarrow> feishu_config option res" where
  "build_messenger st =
     (if st_dry_run st then Inr None else map_sum id Some (new_feishu_client (feishu_config_of st)))"

definition build_directory :: "settings \<Rightarrow> feishu_config option res" where
  "build_directory st =
     (if st_identity_sync_verify_feishu st then map_sum id Some (new_feishu_client (feishu_config_of st)) else Inr None)"

definition build_interaction_worker ::
  "settings \<Rightarrow> 's interaction_handler \<Rightarrow> 's interaction_handler option res" where
  "build_interaction_worker st service =
     (if st_dry_run st \<or> st_feishu_app_id st = [] \<or> st_feishu_app_secret st = [] then Inr None
      else map_sum id Some (new_interaction_worker
        \<lparr>iw_app_id = st_feishu_app_id st, iw_app_secret = st_feishu_app_secret st, iw_handler = Some service\<rparr>))"

text \<open>The users of a synchronization, and the lookup of addresses if it verifies them.\<close>

definition user_listing :: "world \<Rightarrow> hook_config \<Rightarrow> net_event list \<Rightarrow> user_record list res option" where
  "user_listing w c tr = map_option (\<lambda>(res, tr1). map_sum failure_error id res) (list_users w c tr)"

definition feishu_directory ::
  "world \<Rightarrow> (nat \<Rightarrow> time) \<Rightarrow> feishu_config \<Rightarrow> feishu_state \<Rightarrow> string list \<Rightarrow> (string, directory_user) gomap res" where
  "feishu_directory w clock c fs emails =
     map_sum (\<lambda>e. case e of Feishu err \<Rightarrow> Msg (feishu_error_text err) | Plain err \<Rightarrow> err) id (fst (lookup_emails w clock c emails fs))"

definition feishu_messenger :: "world \<Rightarrow> (nat \<Rightarrow> time) \<Rightarrow> feishu_config \<Rightarrow> (nat \<Rightarrow> feishu_state) \<Rightarrow> messenger" where
  "feishu_messenger w clock c states n note =
     map_sum send_error_of id (fst (feishu_send w clock c note (states n)))"

subsection \<open>serve\<close>

record 's parts =
  pt_store :: store_config
  pt_link_base :: "url option"
  pt_domains :: "(string, unit) gomap"
  pt_policy :: recipient_policy
  pt_messenger :: "feishu_config option"
  pt_worker :: worker_config
  pt_interactions :: "'s interaction_handler option"
  pt_hooks :: "(hook_config \<times> duration \<times> bool) option"
  pt_sync :: "(hook_config \<times> feishu_config option \<times> duration \<times> bool) option"
  pt_server :: webhook_server

definition build_sync ::
  "settings \<Rightarrow> hook_config option \<Rightarrow> (hook_config \<times> feishu_config option \<times> duration \<times> bool) option res" where
  "build_sync st controller =
     (if \<not> st_identity_sync_enabled st then Inr None
      else case controller of
        None \<Rightarrow> Inl (Msg ''GitLab user synchronization requires the GitLab API configuration'')
      | Some c \<Rightarrow>
        map_sum id (\<lambda>directory. Some (c, directory, st_identity_sync_interval st, st_identity_sync_dry_run st)) (build_directory st))"

definition serve_parts :: "settings \<Rightarrow> go_error option \<Rightarrow> 's interaction_handler \<Rightarrow> 's parts res" where
  "serve_parts st open_error service =
     (case open_error of Some e \<Rightarrow> Inl e
      | None \<Rightarrow>
        (case build_messenger st of Inl e \<Rightarrow> Inl e
         | Inr m \<Rightarrow>
           (case build_interaction_worker st service of Inl e \<Rightarrow> Inl e
            | Inr iw \<Rightarrow>
              (case build_hook_controller st of Inl e \<Rightarrow> Inl e
               | Inr controller \<Rightarrow>
                 (case build_sync st controller of Inl e \<Rightarrow> Inl e
                  | Inr sy \<Rightarrow>
                    let policy = new_recipient_policy (st_recipient_allowlist st) in
                    Inr \<lparr>pt_store = open_config \<lparr>cfg_lease_duration = 5 * minute, cfg_max_attempts = 5, cfg_retry_delay = second\<rparr>,
                      pt_link_base = with_link_base (st_gitlab_base_url st),
                      pt_domains = add_domains (st_allowed_email_domains st) [],
                      pt_policy = policy,
                      pt_messenger = m,
                      pt_worker = new_delivery_worker \<lparr>wk_worker_id = ''crowsnest-delivery'', wk_batch_size = 10,
                        wk_poll_interval = st_delivery_poll_interval st, wk_policy = Some policy\<rparr>,
                      pt_interactions = iw,
                      pt_hooks = map_option (\<lambda>c. (c, st_reconcile_interval st, st_reconcile_dry_run st)) controller,
                      pt_sync = sy,
                      pt_server = new_server True (st_webhook_secret st)\<rparr>)))))"

text \<open>The webhook service of \<open>serve\<close>; of the errors that the resolver joins, only that there are some is used.\<close>

definition resolver_of ::
  "world \<Rightarrow> net_event list \<Rightarrow> (hook_config \<times> duration \<times> bool) option
     \<Rightarrow> (canonical_event \<Rightarrow> canonical_event \<times> go_error option) option" where
  "resolver_of w tr hooks =
     map_option (\<lambda>(c, interval, dry_run) event.
       case enrich_event w c event tr of (event1, errs, tr1) \<Rightarrow> (event1, if errs = [] then None else Some (hd errs))) hooks"

definition webhook_service ::
  "db parts \<Rightarrow> (nat \<Rightarrow> fault) \<Rightarrow> (nat \<Rightarrow> time) \<Rightarrow> ord \<Rightarrow> (string \<Rightarrow> time \<Rightarrow> int option) \<Rightarrow> world \<Rightarrow> net_event list
     \<Rightarrow> db ingest_service" where
  "webhook_service p f clock ord local_zone w tr =
     sqlite_service f clock (pt_domains p) (Some (pt_policy p))
       [gitlab_decoder (pt_link_base p) ord local_zone (clock 0)] (resolver_of w tr (pt_hooks p))"

definition interaction_handler_of :: "(nat \<Rightarrow> fault) \<Rightarrow> (nat \<Rightarrow> time) \<Rightarrow> time \<Rightarrow> db interaction_handler" where
  "interaction_handler_of f clock now = handle_interaction (Some (sqlite_api f clock)) now"

subsection \<open>reconcile and sync-users\<close>

definition reconcile_command ::
  "world \<Rightarrow> settings \<Rightarrow> string list \<Rightarrow> net_event list \<Rightarrow> (hook_report option \<times> go_error list \<times> net_event list) option" where
  "reconcile_command w st flags tr =
     (case build_hook_controller st of
        Inl e \<Rightarrow> Some (None, [e], tr)
      | Inr None \<Rightarrow> Some (None, [Msg ''GitLab Hook Reconciler is not configured''], tr)
      | Inr (Some c) \<Rightarrow>
        map_option (\<lambda>(report, errs, tr1). (Some report, errs, tr1)) (reconcile w c (dry_run_of True flags) tr))"

definition sync_users_command ::
  "world \<Rightarrow> (nat \<Rightarrow> time) \<Rightarrow> (nat \<Rightarrow> fault) \<Rightarrow> fault \<Rightarrow> settings \<Rightarrow> go_error option \<Rightarrow> string list \<Rightarrow> db
     \<Rightarrow> (sync_report option \<times> go_error list \<times> db) option" where
  "sync_users_command w clock faults g st open_error flags db =
     (case open_error of Some e \<Rightarrow> Some (None, [e], db)
      | None \<Rightarrow>
        (case build_hook_controller st of
           Inl e \<Rightarrow> Some (None, [e], db)
         | Inr None \<Rightarrow> Some (None, [Msg ''GitLab user synchronization is not configured''], db)
         | Inr (Some c) \<Rightarrow>
           (case build_directory st of
              Inl e \<Rightarrow> Some (None, [e], db)
            | Inr directory \<Rightarrow>
              map_option (\<lambda>listing.
                case sync (Some (sqlite_sync faults g (clock 0) (Some listing)
                    (map_option (\<lambda>fc. feishu_directory w clock fc \<lparr>fs_token = [], fs_expires = 0, fs_reads = 1, fs_trace = []\<rparr>) directory)
                    (st_allowed_email_domains st))) (dry_run_of True flags) db of
                  (report, errs, db1) \<Rightarrow> (Some report, errs, db1)) (user_listing w c []))))"

subsection \<open>The database file\<close>

definition error_of :: "'a res \<Rightarrow> go_error option" where
  "error_of r = (case r of Inl e \<Rightarrow> Some e | Inr x \<Rightarrow> None)"

definition serve_on_file ::
  "fault \<Rightarrow> (nat \<Rightarrow> time) \<Rightarrow> settings \<Rightarrow> 's interaction_handler \<Rightarrow> store_file \<Rightarrow> 's parts res \<times> store_file" where
  "serve_on_file f clock st service file =
     (case open_store f clock (st_db_path st)
         \<lparr>cfg_lease_duration = 5 * minute, cfg_max_attempts = 5, cfg_retry_delay = second\<rparr> file of
        (opened, file1) \<Rightarrow> (serve_parts st (error_of opened) service, file1))"

text \<open>The tables of the file after the command.\<close>

definition sync_users_on_file ::
  "world \<Rightarrow> (nat \<Rightarrow> time) \<Rightarrow> (nat \<Rightarrow> fault) \<Rightarrow> fault \<Rightarrow> fault \<Rightarrow> settings \<Rightarrow> string list \<Rightarrow> store_file
     \<Rightarrow> (sync_report option \<times> go_error list \<times> db) option" where
  "sync_users_on_file w clock faults g f st flags file =
     (case open_store f clock (st_db_path st) default_config file of
        (opened, file1) \<Rightarrow> sync_users_command w clock faults g st (error_of opened) flags (file_db file1))"

end
