(* ===== verification/System.thy ===== *)
theory System
  imports Ingest Worker IdentitySync Interaction
begin

section \<open>The running service\<close>

text \<open>
  main.go runs one delivery worker beside the webhook handler, the button handler and the
  identity synchronization, all on one database. A step is one call of the store or one send,
  so the parts interleave between any two calls; each call has its own instant and its own
  fault, and the service may stop between any two calls and start again on the same file.
  The routing of an event reads the database at one instant. \<open>sys_routed\<close> remembers every
  result of the router, of which any may be enqueued at any later time; \<open>sys_sent\<close> is what the
  messenger was asked to send, in order, and what it answered.
\<close>

datatype pc =
    Resting
  | Batch "delivery list"
  | Marking delivery "send_error + delivery_receipt" "delivery list"

record system =
  sys_db :: db
  sys_pc :: pc
  sys_routed :: "(canonical_event \<times> route_result) list"
  sys_sent :: "sending list"

definition started :: system where
  "started = \<lparr>sys_db = empty_db, sys_pc = Resting, sys_routed = [], sys_sent = []\<rparr>"

subsection \<open>The steps\<close>

text \<open>The calls of the store that write no delivery.\<close>

inductive background :: "db \<Rightarrow> db \<Rightarrow> bool" where
  remember_identity: "upsert f now p i en db = (e, db') \<Longrightarrow> background db db'"
| disable_identities: "disable_except f now p ids db = (n, db') \<Longrightarrow> background db db'"
| ignore_event: "record_ignored f now k v h db = (e, db') \<Longrightarrow> background db db'"
| note_unresolved: "record_unresolved f now k ids db = (e, db') \<Longrightarrow> background db db'"
| begin_click: "begin_interaction f now r db = (dup, db') \<Longrightarrow> background db db'"
| mute_click: "set_mute f now a until db = (e, db') \<Longrightarrow> background db db'"
| finish_click: "finish_interaction f now k result db = (e, db') \<Longrightarrow> background db db'"
| choose_preference: "upsert_preference f now p db = (e, db') \<Longrightarrow> background db db'"

definition send_mark ::
  "store_config \<Rightarrow> fault \<Rightarrow> time \<Rightarrow> string \<Rightarrow> send_error + delivery_receipt \<Rightarrow> db \<Rightarrow> go_error option \<times> db" where
  "send_mark c f now key result db =
     (case result of Inr receipt \<Rightarrow> mark_delivered f now key receipt db
      | Inl e \<Rightarrow> mark_failed c f now key (failure_of e) db)"

text \<open>An error of the store ends the worker's pass.\<close>

definition after_mark :: "go_error option \<Rightarrow> delivery list \<Rightarrow> pc" where
  "after_mark e ds = (case e of None \<Rightarrow> Batch ds | Some _ \<Rightarrow> Resting)"

inductive step ::
  "store_config \<Rightarrow> worker_config \<Rightarrow> (string, unit) gomap \<Rightarrow> recipient_policy option \<Rightarrow> system \<Rightarrow> system \<Rightarrow> bool"
  for c w domains policy where
  other: "background (sys_db s) db' \<Longrightarrow> step c w domains policy s (s\<lparr>sys_db := db'\<rparr>)"
| route_event: "map_order ord \<Longrightarrow> route (sqlite_router f now domains policy (sys_db s)) ord event = Inr rr \<Longrightarrow>
    step c w domains policy s (s\<lparr>sys_routed := (event, rr) # sys_routed s\<rparr>)"
| enqueue_event: "(event, rr) \<in> set (sys_routed s) \<Longrightarrow>
    enqueue f now event (rr_deliveries rr) (rr_pipeline_state rr) (sys_db s) = (e, db') \<Longrightarrow>
    step c w domains policy s (s\<lparr>sys_db := db'\<rparr>)"
| claim_batch: "sys_pc s = Resting \<Longrightarrow>
    claim c f now (wk_worker_id w) (wk_batch_size w) (sys_db s) = (Inr ds, db') \<Longrightarrow>
    step c w domains policy s (s\<lparr>sys_db := db', sys_pc := Batch ds\<rparr>)"
| block: "sys_pc s = Batch (d # ds) \<Longrightarrow> \<not> allows (wk_policy w) (n_recipient (d_notification d)) \<Longrightarrow>
    mark_failed c f now (d_key d) policy_blocked (sys_db s) = (e, db') \<Longrightarrow>
    step c w domains policy s (s\<lparr>sys_db := db', sys_pc := after_mark e ds\<rparr>)"
| send: "sys_pc s = Batch (d # ds) \<Longrightarrow> allows (wk_policy w) (n_recipient (d_notification d)) \<Longrightarrow>
    step c w domains policy s (s\<lparr>sys_pc := Marking d result ds, sys_sent := sys_sent s @ [(d, result)]\<rparr>)"
| mark: "sys_pc s = Marking d result ds \<Longrightarrow> send_mark c f now (d_key d) result (sys_db s) = (e, db') \<Longrightarrow>
    step c w domains policy s (s\<lparr>sys_db := db', sys_pc := after_mark e ds\<rparr>)"
| pass_over: "sys_pc s = Batch [] \<Longrightarrow> step c w domains policy s (s\<lparr>sys_pc := Resting\<rparr>)"
| restart: "step c w domains policy s (s\<lparr>sys_pc := Resting\<rparr>)"

inductive reachable ::
  "store_config \<Rightarrow> worker_config \<Rightarrow> (string, unit) gomap \<Rightarrow> recipient_policy option \<Rightarrow> system \<Rightarrow> bool"
  for c w domains policy where
  start: "reachable c w domains policy started"
| onward: "reachable c w domains policy s \<Longrightarrow> step c w domains policy s s' \<Longrightarrow> reachable c w domains policy s'"

inductive_cases stepE: "step c w domains policy s s'"
inductive_simps background_simps: "background db db'"

subsection \<open>What the worker holds\<close>

text \<open>The deliveries that the worker has claimed and not yet marked, and those not yet sent.\<close>

fun held :: "pc \<Rightarrow> delivery list" where
  "held Resting = []"
| "held (Batch ds) = ds"
| "held (Marking d result ds) = d # ds"

fun unsent :: "pc \<Rightarrow> delivery list" where
  "unsent Resting = []"
| "unsent (Batch ds) = ds"
| "unsent (Marking d result ds) = ds"

text \<open>What a key stands for: the notification in its row.\<close>

definition note_at :: "db \<Rightarrow> string \<Rightarrow> notification stored option" where
  "note_at db k = map_option dr_notification (delivery_at db k)"

definition was_stored :: "db \<Rightarrow> delivery \<Rightarrow> bool" where
  "was_stored db d \<longleftrightarrow> note_at db (d_key d) = Some (Json (d_notification d))"

definition holds_lease :: "db \<Rightarrow> delivery \<Rightarrow> bool" where
  "holds_lease db d \<longleftrightarrow> was_stored db d \<and> (\<exists>r. delivery_at db (d_key d) = Some r \<and> dr_status r = Processing)"

lemma holds_lease_at:
  "delivery_at db' (d_key d) = delivery_at db (d_key d) \<Longrightarrow> holds_lease db' d = holds_lease db d"
  by (simp add: holds_lease_def was_stored_def note_at_def)

lemma same_deliveries:
  assumes "db_deliveries db' = db_deliveries db"
  shows "delivery_at db' = delivery_at db" "note_at db' = note_at db" "attempts_of db' = attempts_of db"
    "holds_lease db' = holds_lease db" "was_stored db' = was_stored db" "delivered_keys db' = delivered_keys db"
  using assms
  by (simp_all add: delivery_at_def note_at_def attempts_of_def holds_lease_def was_stored_def delivered_keys_def fun_eq_iff)

subsection \<open>What each call does to the rows\<close>

lemma other_parts:
  assumes "outbox_part db' = outbox_part db" "identity_inv db \<Longrightarrow> identity_inv db'"
  shows "db_deliveries db' = db_deliveries db \<and> (outbox_inv c db \<longrightarrow> outbox_inv c db') \<and> (identity_inv db \<longrightarrow> identity_inv db')"
proof -
  have "db_deliveries db' = db_deliveries db" using assms(1) by (simp add: outbox_part_def)
  with assms(2) outbox_part_inv [OF assms(1)] show ?thesis by blast
qed

lemma background_parts:
  assumes "background db db'"
  shows "db_deliveries db' = db_deliveries db \<and> (outbox_inv c db \<longrightarrow> outbox_inv c db') \<and> (identity_inv db \<longrightarrow> identity_inv db')"
  using assms
proof cases
  case (remember_identity f now p i en e)
  show ?thesis
    using upsert_frame(1) [of f now p i en db] remember_identity
    by (intro other_parts) (simp, erule upsert_inv)
next
  case (disable_identities f now p ids n)
  show ?thesis
    using disable_except_frame(1) [of f now p ids db] disable_identities
    by (intro other_parts) (simp, erule disable_except_inv)
next
  case (ignore_event f now k v h e)
  have "identity_part db' = identity_part db" "db_deliveries db' = db_deliveries db"
    using record_ignored_frame(1,4) [of f now k v h db] ignore_event by simp_all
  with record_ignored_inv [OF _ ignore_event] identity_part_inv show ?thesis by blast
next
  case (note_unresolved f now k ids e)
  show ?thesis
    using record_unresolved_frame(1,2) [of f now k ids db] note_unresolved
    by (intro other_parts) (simp, simp cong: identity_part_inv)
next
  case (begin_click f now r dup)
  show ?thesis
    using interaction_frame(1,2) [of f now r db] begin_click
    by (intro other_parts) (simp, simp cong: identity_part_inv)
next
  case (mute_click f now a until e)
  show ?thesis
    using set_mute_frame [of f now a until db] mute_click
    by (intro other_parts) (simp, simp cong: identity_part_inv)
next
  case (finish_click f now k result e)
  show ?thesis
    using interaction_frame(3,4) [of f now k result db] finish_click
    by (intro other_parts) (simp, simp cong: identity_part_inv)
next
  case (choose_preference f now p e)
  show ?thesis
    using upsert_preference_frame [of f now p db] choose_preference
    by (intro other_parts) (simp, simp cong: identity_part_inv)
qed

lemma background_keeps:
  assumes "background db db'"
  shows "db_deliveries db' = db_deliveries db" "outbox_inv c db \<Longrightarrow> outbox_inv c db'" "identity_inv db \<Longrightarrow> identity_inv db'"
  using background_parts [OF assms] by blast+

text \<open>A mark touches one row and neither its attempts nor its notification.\<close>

definition one_marked :: "store_config \<Rightarrow> string \<Rightarrow> db \<Rightarrow> db \<Rightarrow> bool" where
  "one_marked c key db db' \<longleftrightarrow> outbox_inv c db' \<and> identity_part db' = identity_part db
     \<and> attempts_of db' = attempts_of db \<and> note_at db' = note_at db \<and> (\<forall>k. k \<noteq> key \<longrightarrow> delivery_at db' k = delivery_at db k)"

lemma one_marked_refl: "outbox_inv c db \<Longrightarrow> one_marked c key db db"
  by (simp add: one_marked_def)

lemma failed_marks_one:
  assumes "outbox_inv c db" "mark_failed c f now key failure db = (e, db')"
  shows "one_marked c key db db'"
proof (cases e)
  case None
  from assms(2) [unfolded None] obtain row where row: "delivery_at db key = Some row"
    "\<forall>k. delivery_at db' k = (if k = key then Some (failed_row c now failure (dr_attempts row) row) else delivery_at db k)"
    by (rule mark_failed_at)
  have n: "dr_notification (failed_row c now failure (dr_attempts row) row) = dr_notification row"
    by (simp add: failed_row_def Let_def)
  have "outbox_inv c db'" by (rule mark_failed_inv [OF assms])
  moreover have "identity_part db' = identity_part db"
    using mark_failed_frame(1) [of c f now key failure db] assms(2) by simp
  moreover have "attempts_of db' = attempts_of db"
    using row by (simp add: attempts_of_def fun_eq_iff)
  moreover have "note_at db' = note_at db" using row n by (simp add: note_at_def fun_eq_iff)
  ultimately show ?thesis using row by (simp add: one_marked_def)
next
  case (Some err)
  have "db' = db" using assms(2) by (cases rule: mark_failed_cases) (use Some in auto)
  then show ?thesis using one_marked_refl assms(1) by simp
qed

lemma delivered_marks_one:
  assumes "outbox_inv c db" "mark_delivered f now key receipt db = (e, db')"
  shows "one_marked c key db db'"
proof (cases e)
  case None
  from assms(2) [unfolded None] obtain row where row: "delivery_at db key = Some row"
    "\<forall>k. delivery_at db' k = (if k = key then Some (delivered_row now receipt row) else delivery_at db k)"
    by (rule mark_delivered_row)
  have n: "dr_notification (delivered_row now receipt row) = dr_notification row" by (simp add: delivered_row_def)
  have "outbox_inv c db'" by (rule mark_delivered_inv [OF assms])
  moreover have "identity_part db' = identity_part db"
    using mark_delivered_frame(1) [of f now key receipt db] assms(2) by simp
  moreover have "attempts_of db' = attempts_of db" using row by (simp add: attempts_of_def fun_eq_iff)
  moreover have "note_at db' = note_at db" using row n by (simp add: note_at_def fun_eq_iff)
  ultimately show ?thesis using row by (simp add: one_marked_def)
next
  case (Some err)
  have "db' = db" using assms(2) by (cases rule: mark_delivered_cases) (use Some in auto)
  then show ?thesis using one_marked_refl assms(1) by simp
qed

lemma send_mark_one:
  assumes "outbox_inv c db" "send_mark c f now key result db = (e, db')"
  shows "one_marked c key db db'"
proof (cases result)
  case (Inl err)
  with assms(2) have "mark_failed c f now key (failure_of err) db = (e, db')" by (simp add: send_mark_def)
  with assms(1) show ?thesis by (rule failed_marks_one)
next
  case (Inr receipt)
  with assms(2) have "mark_delivered f now key receipt db = (e, db')" by (simp add: send_mark_def)
  with assms(1) show ?thesis by (rule delivered_marks_one)
qed

lemma one_marked_lease:
  "one_marked c (d_key d) db db' \<Longrightarrow> d_key x \<noteq> d_key d \<Longrightarrow> holds_lease db' x = holds_lease db x"
  by (rule holds_lease_at) (simp add: one_marked_def)

lemma claim_holds:
  assumes "outbox_inv c db" "claim c f now w limit db = (Inr ds, db')" "d \<in> set ds"
  shows "holds_lease db' d"
proof -
  let ?sel = "select_ready c (format_timestamp now) (nat (if limit \<le> 0 then 10 else limit)) (db_deliveries db)"
  have "(d_key d, Json (d_notification d)) \<in> set (map (\<lambda>d. (d_key d, Json (d_notification d))) ds)"
    using assms(3) by auto
  then obtain i where i: "i \<in> set ?sel" "d_key d = dr_key i" "Json (d_notification d) = dr_notification i"
    unfolding claim_ok(2) [OF assms(1,2)] by auto
  have "i \<in> set (db_deliveries db)" using set_select_ready [OF i(1)] by blast
  then have "delivery_at db (d_key d) = Some i"
    using find_key_distinct [of "db_deliveries db" i] assms(1) i(2) by (simp add: delivery_at_def outbox_inv_def)
  then have "delivery_at db' (d_key d)
      = Some (claim_row (format_timestamp now) (format_timestamp (now + cfg_lease_duration c)) i)"
    using claim_delivery_at [OF assms(1,2)] assms(3) by simp
  then show ?thesis using i(3) by (simp add: holds_lease_def was_stored_def note_at_def claim_row_def)
qed

lemma claim_notes:
  assumes "outbox_inv c db" "claim c f now w limit db = (Inr ds, db')"
  shows "note_at db' = note_at db"
proof -
  have "note_at db' k = note_at db k" for k
    unfolding note_at_def claim_delivery_at [OF assms] by (cases "delivery_at db k") (simp_all add: claim_row_def)
  then show ?thesis by blast
qed

lemma claim_attempts:
  assumes "outbox_inv c db" "claim c f now w limit db = (Inr ds, db')"
  shows "attempts_of db' k = attempts_of db k + (if k \<in> set (map d_key ds) then 1 else 0)"
  using sqlite_worker.claim_ok [of c db "\<lambda>_. f" "\<lambda>_. now" 0 w limit ds db'] assms by simp

lemma enqueue_rows:
  assumes "enqueue f now event ds st db = (e, db')" "delivery_at db k = Some r"
  shows "delivery_at db' k = Some r"
proof (cases e)
  case None
  with assms show ?thesis using enqueue_delivery_at [of f now event ds st db db'] by (simp add: inserted_def)
next
  case (Some err)
  have "db' = db" using assms(1) by (cases rule: enqueue_cases) (use Some in auto)
  with assms(2) show ?thesis by simp
qed

lemma enqueue_attempts:
  assumes "enqueue f now event ds st db = (e, db')"
  shows "attempts_of db' = attempts_of db"
proof
  fix k
  show "attempts_of db' k = attempts_of db k"
  proof (cases "delivery_at db k")
    case (Some r)
    with enqueue_rows [OF assms Some] show ?thesis by (simp add: attempts_of_def)
  next
    case None
    show ?thesis
    proof (cases e)
      case None
      with assms \<open>delivery_at db k = None\<close> show ?thesis
        using enqueue_delivery_at [of f now event ds st db db']
        by (auto simp: inserted_def attempts_of_def new_delivery_row_def split: option.split)
    next
      case (Some err)
      have "db' = db" using assms(1) by (cases rule: enqueue_cases) (use Some in auto)
      then show ?thesis by simp
    qed
  qed
qed

text \<open>A row of the outbox was there before or is one of the deliveries of the event.\<close>

lemma enqueue_notes:
  assumes "enqueue f now event ds st db = (e, db')" "note_at db' k = Some x"
  shows "note_at db k = Some x \<or> (\<exists>d \<in> set ds. d_key d = k \<and> x = Json (d_notification d))"
proof (cases e)
  case None
  then have "inserted db db' now (ev_event_key event) ds" using assms(1) enqueue_delivery_at by simp
  with assms(2) show ?thesis
    by (auto simp: note_at_def inserted_def new_delivery_row_def find_Some_iff split: option.splits)
next
  case (Some err)
  have "db' = db" using assms(1) by (cases rule: enqueue_cases) (use Some in auto)
  with assms(2) show ?thesis by simp
qed

subsection \<open>The invariants of the service\<close>

definition lease_inv :: "store_config \<Rightarrow> system \<Rightarrow> bool" where
  "lease_inv c s \<longleftrightarrow> outbox_inv c (sys_db s) \<and> identity_inv (sys_db s)
     \<and> distinct (map d_key (held (sys_pc s))) \<and> list_all (holds_lease (sys_db s)) (held (sys_pc s))"

definition attempts_inv :: "system \<Rightarrow> bool" where
  "attempts_inv s \<longleftrightarrow> (\<forall>k. int (count_list (sent_keys (sys_sent s)) k)
     + (if k \<in> set (map d_key (unsent (sys_pc s))) then 1 else 0) \<le> attempts_of (sys_db s) k)"

definition sent_inv :: "worker_config \<Rightarrow> system \<Rightarrow> bool" where
  "sent_inv w s \<longleftrightarrow> list_all (\<lambda>x. allows (wk_policy w) (n_recipient (d_notification (fst x)))
     \<and> was_stored (sys_db s) (fst x)) (sys_sent s)"

definition was_routed :: "(string, unit) gomap \<Rightarrow> recipient_policy option \<Rightarrow> string \<Rightarrow> notification \<Rightarrow> bool" where
  "was_routed domains policy key n \<longleftrightarrow> (\<exists>f now db ord event rr d. map_order ord
     \<and> route (sqlite_router f now domains policy db) ord event = Inr rr
     \<and> d \<in> set (rr_deliveries rr) \<and> d_key d = key \<and> d_notification d = n)"

definition origin_inv :: "(string, unit) gomap \<Rightarrow> recipient_policy option \<Rightarrow> system \<Rightarrow> bool" where
  "origin_inv domains policy s \<longleftrightarrow>
     (\<forall>(event, rr) \<in> set (sys_routed s). \<forall>d \<in> set (rr_deliveries rr). was_routed domains policy (d_key d) (d_notification d))
     \<and> (\<forall>k x. note_at (sys_db s) k = Some x \<longrightarrow> (\<exists>n. x = Json n \<and> was_routed domains policy k n))"

lemma attempts_invD:
  "attempts_inv s \<Longrightarrow> int (count_list (sent_keys (sys_sent s)) k)
     + (if k \<in> set (map d_key (unsent (sys_pc s))) then 1 else 0) \<le> attempts_of (sys_db s) k"
  unfolding attempts_inv_def by blast

lemma unsent_held: "set (unsent pc) \<subseteq> set (held pc)"
  by (cases pc) auto

lemma unsent_attempts_inv:
  assumes "attempts_inv s" "attempts_of (sys_db s') = attempts_of (sys_db s)" "sys_sent s' = sys_sent s"
    "set (unsent (sys_pc s')) \<subseteq> set (unsent (sys_pc s))"
  shows "attempts_inv s'"
  unfolding attempts_inv_def
proof
  fix k
  have "k \<in> set (map d_key (unsent (sys_pc s'))) \<Longrightarrow> k \<in> set (map d_key (unsent (sys_pc s)))" using assms(4) by auto
  with attempts_invD [OF assms(1), of k] assms(2,3)
  show "int (count_list (sent_keys (sys_sent s')) k)
     + (if k \<in> set (map d_key (unsent (sys_pc s'))) then 1 else 0) \<le> attempts_of (sys_db s') k"
    by (auto split: if_splits)
qed

lemma held_after_mark: "set (held (after_mark e ds)) \<subseteq> set ds" "unsent (after_mark e ds) = held (after_mark e ds)"
  "distinct (map d_key ds) \<Longrightarrow> distinct (map d_key (held (after_mark e ds)))"
  by (cases e; simp add: after_mark_def)+

lemma list_all_subset: "list_all P xs \<Longrightarrow> set ys \<subseteq> set xs \<Longrightarrow> list_all P ys"
  by (auto simp: list_all_iff)

lemma lease_after_mark:
  assumes inv: "lease_inv c s" and held: "held (sys_pc s) = d # ds" and m: "one_marked c (d_key d) (sys_db s) db'"
  shows "lease_inv c (s\<lparr>sys_db := db', sys_pc := after_mark e ds\<rparr>)"
proof -
  have d: "distinct (map d_key (d # ds))" "list_all (holds_lease (sys_db s)) (d # ds)" "identity_inv (sys_db s)"
    using inv held by (auto simp: lease_inv_def)
  have "list_all (holds_lease db') ds"
    using d(1,2) one_marked_lease [OF m] by (auto simp: list_all_iff image_iff)
  moreover have "identity_inv db'" using m d(3) identity_part_inv [of db' "sys_db s"] by (simp add: one_marked_def)
  moreover have "list_all (holds_lease db') (held (after_mark e ds))"
    by (rule list_all_subset [OF calculation(1) held_after_mark(1)])
  moreover have "distinct (map d_key (held (after_mark e ds)))" by (rule held_after_mark(3)) (use d(1) in simp)
  moreover have "outbox_inv c db'" using m by (simp add: one_marked_def)
  ultimately show ?thesis by (simp add: lease_inv_def)
qed

lemma lease_step:
  assumes "step c w domains policy s s'" "lease_inv c s"
  shows "lease_inv c s'"
  using assms(1)
proof cases
  case (other db')
  then show ?thesis
    using assms(2) background_keeps(2) [OF other(2), of c] background_keeps(3) [OF other(2)] same_deliveries(4) [OF background_keeps(1) [OF other(2)]]
    by (simp add: lease_inv_def)
next
  case (enqueue_event event rr f now e db')
  have d: "outbox_inv c (sys_db s)" "identity_inv (sys_db s)" "list_all (holds_lease (sys_db s)) (held (sys_pc s))"
    using assms(2) by (simp_all add: lease_inv_def)
  have "holds_lease db' x" if "holds_lease (sys_db s) x" for x
  proof -
    from that obtain r where r: "delivery_at (sys_db s) (d_key x) = Some r" by (auto simp: holds_lease_def)
    from enqueue_rows [OF enqueue_event(3) this] have "delivery_at db' (d_key x) = delivery_at (sys_db s) (d_key x)"
      by (simp add: r)
    from holds_lease_at [OF this] that show ?thesis by blast
  qed
  with d(3) have "list_all (holds_lease db') (held (sys_pc s))" by (auto simp: list_all_iff)
  moreover have "identity_inv db'"
    using other_parts_inv(1) [OF d(2)] enqueue_event(3) by (metis snd_conv)
  ultimately show ?thesis
    using assms(2) enqueue_inv [OF d(1) enqueue_event(3)] enqueue_event(1) by (simp add: lease_inv_def)
next
  case (claim_batch f now ds db')
  have d: "outbox_inv c (sys_db s)" "identity_inv (sys_db s)" using assms(2) by (simp_all add: lease_inv_def)
  have "identity_inv db'" using other_parts_inv(3) [OF d(2)] claim_batch(3) by (metis snd_conv)
  then show ?thesis
    using claim_inv [OF d(1) claim_batch(3)] claim_distinct [OF d(1) claim_batch(3)] claim_holds [OF d(1) claim_batch(3)]
    unfolding claim_batch(1) by (simp add: lease_inv_def list_all_iff)
next
  case (block d ds f now e db')
  have "outbox_inv c (sys_db s)" using assms(2) by (simp add: lease_inv_def)
  from failed_marks_one [OF this block(4)] show ?thesis
    unfolding block(1) by (rule lease_after_mark [OF assms(2), rotated]) (simp add: block(2))
next
  case (mark d result ds f now e db')
  have "outbox_inv c (sys_db s)" using assms(2) by (simp add: lease_inv_def)
  from send_mark_one [OF this mark(3)] show ?thesis
    unfolding mark(1) by (rule lease_after_mark [OF assms(2), rotated]) (simp add: mark(2))
qed (use assms(2) in \<open>simp_all add: lease_inv_def\<close>)

lemma attempts_step:
  assumes "step c w domains policy s s'" "attempts_inv s" "lease_inv c s"
  shows "attempts_inv s'"
  using assms(1)
proof cases
  case (other db')
  show ?thesis
    by (rule unsent_attempts_inv [OF assms(2)])
      (use same_deliveries(3) [OF background_keeps(1) [OF other(2)]] other(1) in simp_all)
next
  case (enqueue_event event rr f now e db')
  show ?thesis
    by (rule unsent_attempts_inv [OF assms(2)]) (use enqueue_attempts [OF enqueue_event(3)] enqueue_event(1) in simp_all)
next
  case (claim_batch f now ds db')
  have "outbox_inv c (sys_db s)" using assms(3) by (simp add: lease_inv_def)
  note a = claim_attempts [OF this claim_batch(3)]
  show ?thesis unfolding attempts_inv_def claim_batch(1)
    using attempts_invD [OF assms(2)] a by (simp add: claim_batch(2))
next
  case (block d ds f now e db')
  have "outbox_inv c (sys_db s)" using assms(3) by (simp add: lease_inv_def)
  then have "attempts_of db' = attempts_of (sys_db s)"
    using failed_marks_one [OF _ block(4)] by (simp only: one_marked_def)
  moreover have "set (unsent (after_mark e ds)) \<subseteq> set (unsent (sys_pc s))"
    using held_after_mark(1) [of e ds] by (auto simp: held_after_mark(2) block(2))
  ultimately show ?thesis
    by (intro unsent_attempts_inv [OF assms(2)]) (simp_all add: block(1))
next
  case (send d ds result)
  have "distinct (map d_key (d # ds))" using assms(3) send(2) by (simp add: lease_inv_def)
  then have "int (count_list (sent_keys (sys_sent s')) k) + (if k \<in> set (map d_key (unsent (sys_pc s'))) then 1 else 0)
      \<le> attempts_of (sys_db s') k" for k
    using attempts_invD [OF assms(2), of k] by (auto simp: send(1,2) split: if_splits)
  then show ?thesis unfolding attempts_inv_def by blast
next
  case (mark d result ds f now e db')
  have "outbox_inv c (sys_db s)" using assms(3) by (simp add: lease_inv_def)
  then have "attempts_of db' = attempts_of (sys_db s)"
    using send_mark_one [OF _ mark(3)] by (simp only: one_marked_def)
  moreover have "set (unsent (after_mark e ds)) \<subseteq> set (unsent (sys_pc s))"
    using held_after_mark(1) [of e ds] by (auto simp: held_after_mark(2) mark(2))
  ultimately show ?thesis
    by (intro unsent_attempts_inv [OF assms(2)]) (simp_all add: mark(1))
qed (rule unsent_attempts_inv [OF assms(2)]; simp)+

text \<open>What every step keeps: the notification of a key, what was routed, what was delivered.\<close>

lemma note_kept_at:
  assumes "enqueue f now event ds st db = (e, db')" "note_at db k = Some x"
  shows "note_at db' k = Some x"
  using assms(2) enqueue_rows [OF assms(1)] by (auto simp: note_at_def)

lemma step_notes:
  assumes "step c w domains policy s s'" "lease_inv c s" "note_at (sys_db s) k = Some x"
  shows "note_at (sys_db s') k = Some x"
proof -
  have inv: "outbox_inv c (sys_db s)" using assms(2) by (simp add: lease_inv_def)
  from assms(1) show ?thesis
  proof cases
    case (other db')
    then show ?thesis using assms(3) same_deliveries(2) [OF background_keeps(1) [OF other(2)]] by simp
  next
    case (enqueue_event event rr f now e db')
    then show ?thesis using note_kept_at [OF enqueue_event(3) assms(3)] by simp
  next
    case (claim_batch f now ds db')
    then show ?thesis using assms(3) claim_notes [OF inv claim_batch(3)] by simp
  next
    case (block d ds f now e db')
    have "note_at db' = note_at (sys_db s)" using failed_marks_one [OF inv block(4)] by (simp only: one_marked_def)
    then show ?thesis using assms(3) block(1) by simp
  next
    case (mark d result ds f now e db')
    have "note_at db' = note_at (sys_db s)" using send_mark_one [OF inv mark(3)] by (simp only: one_marked_def)
    then show ?thesis using assms(3) mark(1) by simp
  qed (use assms(3) in simp_all)
qed

lemma sent_step:
  assumes "step c w domains policy s s'" "lease_inv c s" "sent_inv w s"
  shows "sent_inv w s'"
proof -
  have keep: "was_stored (sys_db s') d" if "was_stored (sys_db s) d" for d
    using that step_notes [OF assms(1,2)] by (simp add: was_stored_def)
  have old: "list_all (\<lambda>x. allows (wk_policy w) (n_recipient (d_notification (fst x))) \<and> was_stored (sys_db s') (fst x)) (sys_sent s)"
    using assms(3) keep by (auto simp: sent_inv_def list_all_iff)
  from assms(1) show ?thesis
  proof cases
    case (send d ds result)
    have "holds_lease (sys_db s) d" using assms(2) send(2) by (simp add: lease_inv_def)
    then have "was_stored (sys_db s') d" using keep by (simp add: holds_lease_def)
    with old send show ?thesis by (simp add: sent_inv_def)
  qed (use old in \<open>simp_all add: sent_inv_def\<close>)
qed

lemma origin_notes:
  assumes "origin_inv domains policy s" "sys_routed s' = sys_routed s"
    "\<And>k x. note_at (sys_db s') k = Some x \<Longrightarrow> note_at (sys_db s) k = Some x
      \<or> (\<exists>(event, rr) \<in> set (sys_routed s). \<exists>d \<in> set (rr_deliveries rr). d_key d = k \<and> x = Json (d_notification d))"
  shows "origin_inv domains policy s'"
proof -
  have "\<exists>n. x = Json n \<and> was_routed domains policy k n" if x: "note_at (sys_db s') k = Some x" for k x
    using assms(3) [OF x]
  proof
    assume "\<exists>(event, rr) \<in> set (sys_routed s). \<exists>d \<in> set (rr_deliveries rr). d_key d = k \<and> x = Json (d_notification d)"
    then obtain event rr d where "(event, rr) \<in> set (sys_routed s)" "d \<in> set (rr_deliveries rr)" "d_key d = k" "x = Json (d_notification d)"
      by blast
    with assms(1) show ?thesis unfolding origin_inv_def by blast
  qed (use assms(1) in \<open>simp add: origin_inv_def\<close>)
  with assms(1,2) show ?thesis unfolding origin_inv_def by simp
qed

lemma origin_step:
  assumes "step c w domains policy s s'" "lease_inv c s" "origin_inv domains policy s"
  shows "origin_inv domains policy s'"
proof -
  have inv: "outbox_inv c (sys_db s)" using assms(2) by (simp add: lease_inv_def)
  from assms(1) show ?thesis
  proof cases
    case (other db')
    show ?thesis
      by (rule origin_notes [OF assms(3)]) (use other same_deliveries(2) [OF background_keeps(1) [OF other(2)]] in simp_all)
  next
    case (route_event ord f now event rr)
    have "was_routed domains policy (d_key d) (d_notification d)" if "d \<in> set (rr_deliveries rr)" for d
      unfolding was_routed_def using route_event that by blast
    with assms(3) show ?thesis unfolding origin_inv_def by (simp add: route_event(1))
  next
    case (enqueue_event event rr f now e db')
    show ?thesis
    proof (rule origin_notes [OF assms(3)])
      fix k x assume "note_at (sys_db s') k = Some x"
      with enqueue_notes [OF enqueue_event(3)] enqueue_event(1,2)
      show "note_at (sys_db s) k = Some x
        \<or> (\<exists>(event, rr) \<in> set (sys_routed s). \<exists>d \<in> set (rr_deliveries rr). d_key d = k \<and> x = Json (d_notification d))"
        by fastforce
    qed (simp add: enqueue_event(1))
  next
    case (claim_batch f now ds db')
    show ?thesis
      by (rule origin_notes [OF assms(3)]) (use claim_batch claim_notes [OF inv claim_batch(3)] in simp_all)
  next
    case (block d ds f now e db')
    have "note_at db' = note_at (sys_db s)" using failed_marks_one [OF inv block(4)] by (simp only: one_marked_def)
    then show ?thesis by (intro origin_notes [OF assms(3)]) (use block(1) in simp_all)
  next
    case (mark d result ds f now e db')
    have "note_at db' = note_at (sys_db s)" using send_mark_one [OF inv mark(3)] by (simp only: one_marked_def)
    then show ?thesis by (intro origin_notes [OF assms(3)]) (use mark(1) in simp_all)
  qed (use assms(3) in \<open>simp_all add: origin_inv_def\<close>)
qed

text \<open>All of it holds in every reachable state.\<close>

definition sys_inv ::
  "store_config \<Rightarrow> worker_config \<Rightarrow> (string, unit) gomap \<Rightarrow> recipient_policy option \<Rightarrow> system \<Rightarrow> bool" where
  "sys_inv c w domains policy s \<longleftrightarrow> lease_inv c s \<and> attempts_inv s \<and> sent_inv w s \<and> origin_inv domains policy s"

lemma sys_inv_started: "config_ok c \<Longrightarrow> sys_inv c w domains policy started"
  by (simp add: sys_inv_def started_def lease_inv_def attempts_inv_def sent_inv_def origin_inv_def
      attempts_of_def delivery_at_def note_at_def empty_db_def [of] outbox_inv_empty [unfolded empty_db_def]
      identity_inv_empty [unfolded empty_db_def])

lemma sys_inv_step: "step c w domains policy s s' \<Longrightarrow> sys_inv c w domains policy s \<Longrightarrow> sys_inv c w domains policy s'"
  unfolding sys_inv_def
  by (intro conjI; elim conjE) (erule lease_step attempts_step sent_step origin_step; assumption)+

lemma reachable_inv:
  assumes "reachable c w domains policy s" "config_ok c"
  shows "sys_inv c w domains policy s"
  using assms(1) by induction (use sys_inv_started [OF assms(2)] sys_inv_step in blast)+

subsection \<open>Runs\<close>

abbreviation steps ::
  "store_config \<Rightarrow> worker_config \<Rightarrow> (string, unit) gomap \<Rightarrow> recipient_policy option \<Rightarrow> system \<Rightarrow> system \<Rightarrow> bool" where
  "steps c w domains policy \<equiv> (step c w domains policy)\<^sup>*\<^sup>*"

lemma reachable_steps: "steps c w domains policy s s' \<Longrightarrow> reachable c w domains policy s \<Longrightarrow> reachable c w domains policy s'"
  by (induction rule: rtranclp_induct) (auto intro: onward)

text \<open>A key that is delivered is neither held by the worker nor ever marked again.\<close>

lemma leased_not_delivered: "holds_lease db d \<Longrightarrow> d_key d \<notin> delivered_keys db"
  by (auto simp: holds_lease_def delivered_keys_def)

lemma one_marked_delivered:
  assumes "one_marked c key db db'" "key \<notin> delivered_keys db"
  shows "delivered_keys db \<subseteq> delivered_keys db'"
  using assms by (auto simp: one_marked_def delivered_keys_def)

lemma delivered_step:
  assumes "step c w domains policy s s'" "lease_inv c s"
  shows "delivered_keys (sys_db s) \<subseteq> delivered_keys (sys_db s')
    \<and> (\<exists>new. sys_sent s' = sys_sent s @ new \<and> set (sent_keys new) \<inter> delivered_keys (sys_db s) = {})"
proof -
  have inv: "outbox_inv c (sys_db s)" using assms(2) by (simp add: lease_inv_def)
  have free: "d_key d \<notin> delivered_keys (sys_db s)" if "d \<in> set (held (sys_pc s))" for d
    using assms(2) that leased_not_delivered by (auto simp: lease_inv_def list_all_iff)
  from assms(1) show ?thesis
  proof cases
    case (other db')
    then show ?thesis using same_deliveries(6) [OF background_keeps(1) [OF other(2)]] by simp
  next
    case (enqueue_event event rr f now e db')
    have "delivered_keys (sys_db s) \<subseteq> delivered_keys db'"
      using enqueue_rows [OF enqueue_event(3)] by (auto simp: delivered_keys_def)
    then show ?thesis by (simp add: enqueue_event(1))
  next
    case (claim_batch f now ds db')
    have "delivered_keys db' = delivered_keys (sys_db s)"
      using sqlite_worker.claim_ok [OF inv, of "\<lambda>_. f" "\<lambda>_. now" 0] claim_batch(3) by simp
    then show ?thesis by (simp add: claim_batch(1))
  next
    case (block d ds f now e db')
    from one_marked_delivered [OF failed_marks_one [OF inv block(4)] free [of d]] show ?thesis
      by (simp add: block(1,2))
  next
    case (send d ds result)
    with free [of d] show ?thesis by simp
  next
    case (mark d result ds f now e db')
    from one_marked_delivered [OF send_mark_one [OF inv mark(3)] free [of d]] show ?thesis
      by (simp add: mark(1,2))
  qed simp_all
qed

lemma delivered_steps:
  assumes "steps c w domains policy s s'" "reachable c w domains policy s" "config_ok c"
  shows "delivered_keys (sys_db s) \<subseteq> delivered_keys (sys_db s')
    \<and> (\<exists>new. sys_sent s' = sys_sent s @ new \<and> set (sent_keys new) \<inter> delivered_keys (sys_db s) = {})"
  using assms(1)
proof (induction rule: rtranclp_induct)
  case (step s1 s2)
  have "reachable c w domains policy s1" by (rule reachable_steps [OF step(1) assms(2)])
  then have "lease_inv c s1" using reachable_inv assms(3) by (auto simp: sys_inv_def)
  note d = delivered_step [OF step(2) this]
  then obtain new2 where "sys_sent s2 = sys_sent s1 @ new2" "set (sent_keys new2) \<inter> delivered_keys (sys_db s1) = {}" by blast
  moreover obtain new1 where "sys_sent s1 = sys_sent s @ new1" "set (sent_keys new1) \<inter> delivered_keys (sys_db s) = {}"
    using step.IH by blast
  ultimately have "sys_sent s2 = sys_sent s @ (new1 @ new2) \<and> set (sent_keys (new1 @ new2)) \<inter> delivered_keys (sys_db s) = {}"
    using step.IH by auto
  then show ?case using d step.IH by blast
qed simp

subsection \<open>The code's own calls are runs\<close>

lemma marked_None [simp]: "marked a k b None = None" and marked_Some [simp]: "marked a k b (Some e) = Some (Wrap (a @ k @ b) e)"
  by (simp_all add: marked_def)

lemma loop_is_a_run:
  "process_loop (sqlite_outbox c f clock) send (wk_policy w) n ds (sys_db s) = (e, sent, db') \<Longrightarrow> sys_pc s = Batch ds \<Longrightarrow>
   steps c w domains policy s (s\<lparr>sys_db := db', sys_pc := Resting, sys_sent := sys_sent s @ sent\<rparr>)"
proof (induction ds arbitrary: n s e sent)
  case Nil
  then have "step c w domains policy s (s\<lparr>sys_pc := Resting\<rparr>)" by (intro pass_over) simp
  with Nil show ?case by auto
next
  case (Cons d ds)
  let ?a = "allows (wk_policy w) (n_recipient (d_notification d))"
  show ?case
  proof (cases ?a)
    case False
    obtain e1 db1 where m: "mark_failed c (f n) (clock n) (d_key d) policy_blocked (sys_db s) = (e1, db1)" by fastforce
    let ?s1 = "s\<lparr>sys_db := db1, sys_pc := after_mark e1 ds\<rparr>"
    have one: "step c w domains policy s ?s1" by (rule block [OF Cons.prems(2) False m])
    show ?thesis
    proof (cases e1)
      case (Some err)
      with Cons.prems(1) False m have "sent = []" "db' = db1" by (auto simp: Let_def)
      with one Some show ?thesis by (auto simp: after_mark_def)
    next
      case None
      then have l: "process_loop (sqlite_outbox c f clock) send (wk_policy w) (Suc n) ds (sys_db ?s1) = (e, sent, db')"
        using Cons.prems(1) False m by (simp add: Let_def)
      have "sys_pc ?s1 = Batch ds" using None by (simp add: after_mark_def)
      from Cons.IH [OF l this] one show ?thesis by (auto intro: converse_rtranclp_into_rtranclp)
    qed
  next
    case True
    define result where "result = send n (d_notification d)"
    let ?s0 = "s\<lparr>sys_pc := Marking d result ds, sys_sent := sys_sent s @ [(d, result)]\<rparr>"
    have zero: "step c w domains policy s ?s0" by (rule step.send [OF Cons.prems(2) True])
    obtain e1 db1 where m: "send_mark c (f n) (clock n) (d_key d) result (sys_db s) = (e1, db1)" by fastforce
    let ?s1 = "s\<lparr>sys_db := db1, sys_pc := after_mark e1 ds, sys_sent := sys_sent s @ [(d, result)]\<rparr>"
    have "step c w domains policy ?s0 (?s0\<lparr>sys_db := db1, sys_pc := after_mark e1 ds\<rparr>)"
      by (rule mark [of _ d result ds]) (use m in simp_all)
    moreover have "?s0\<lparr>sys_db := db1, sys_pc := after_mark e1 ds\<rparr> = ?s1" by (cases s) simp
    ultimately have one: "step c w domains policy ?s0 ?s1" by simp
    show ?thesis
    proof (cases e1)
      case (Some err)
      have "sent = [(d, result)]" "db' = db1"
        using Cons.prems(1) True m Some by (auto simp: Let_def result_def [symmetric] send_mark_def split: sum.splits)
      with zero one Some show ?thesis by (auto simp: after_mark_def)
    next
      case None
      obtain sent1 where l: "process_loop (sqlite_outbox c f clock) send (wk_policy w) (Suc n) ds (sys_db ?s1) = (e, sent1, db')"
        and sent: "sent = (d, result) # sent1"
        using Cons.prems(1) True m None
        by (auto simp: Let_def result_def [symmetric] send_mark_def split: sum.splits prod.splits)
      have "sys_pc ?s1 = Batch ds" using None by (simp add: after_mark_def)
      from Cons.IH [OF l this] zero one show ?thesis
        unfolding sent by (auto intro: converse_rtranclp_into_rtranclp)
    qed
  qed
qed

lemma process_is_a_run:
  assumes "process (sqlite_outbox c f clock) send w (sys_db s) = (e, sent, db')" "sys_pc s = Resting"
  shows "steps c w domains policy s (s\<lparr>sys_db := db', sys_sent := sys_sent s @ sent\<rparr>)"
proof -
  obtain r db1 where cl: "claim c (f 0) (clock 0) (wk_worker_id w) (wk_batch_size w) (sys_db s) = (r, db1)" by fastforce
  show ?thesis
  proof (cases r)
    case (Inl err)
    have "db1 = sys_db s" using cl by (cases rule: claim_cases) (use Inl in auto)
    with assms(1) cl Inl have "db' = sys_db s" "sent = []" by (simp_all add: process_def)
    then have "s\<lparr>sys_db := db', sys_sent := sys_sent s @ sent\<rparr> = s" by (cases s) simp
    then show ?thesis by simp
  next
    case (Inr ds)
    let ?s1 = "s\<lparr>sys_db := db1, sys_pc := Batch ds\<rparr>"
    have one: "step c w domains policy s ?s1" by (rule claim_batch [OF assms(2) cl [unfolded Inr]])
    have "process_loop (sqlite_outbox c f clock) send (wk_policy w) 1 ds (sys_db ?s1) = (e, sent, db')"
      using assms(1) cl Inr by (simp add: process_def)
    from loop_is_a_run [OF this] have "steps c w domains policy ?s1
        (?s1\<lparr>sys_db := db', sys_pc := Resting, sys_sent := sys_sent ?s1 @ sent\<rparr>)" by simp
    moreover have "?s1\<lparr>sys_db := db', sys_pc := Resting, sys_sent := sys_sent ?s1 @ sent\<rparr>
        = s\<lparr>sys_db := db', sys_sent := sys_sent s @ sent\<rparr>"
      using assms(2) by (cases s) simp
    ultimately show ?thesis using one by (metis converse_rtranclp_into_rtranclp)
  qed
qed

lemma background_is_a_run:
  assumes "background\<^sup>*\<^sup>* (sys_db s) db'"
  shows "steps c w domains policy s (s\<lparr>sys_db := db'\<rparr>)"
  using assms
proof (induction rule: rtranclp_induct)
  case (step db1 db2)
  have "step c w domains policy (s\<lparr>sys_db := db1\<rparr>) ((s\<lparr>sys_db := db1\<rparr>)\<lparr>sys_db := db2\<rparr>)"
    by (rule other) (simp add: step(2))
  with step.IH show ?case by (simp add: rtranclp.rtrancl_into_rtrancl)
qed simp

lemma remember_background:
  "background\<^sup>*\<^sup>* db (remember (\<lambda>n. upsert (f (n + 6)) (clock (n + 6))) n source is db)"
proof (induction "is" arbitrary: n db)
  case (Cons i0 "is")
  obtain e db1 where u: "upsert (f (n + 6)) (clock (n + 6)) (i_provider (if i_provider i0 = [] then i0\<lparr>i_provider := source\<rparr> else i0))
      (if i_provider i0 = [] then i0\<lparr>i_provider := source\<rparr> else i0) True db = (e, db1)" by fastforce
  then have "background db db1" by (rule remember_identity)
  with Cons.IH [where n = n and db = db] Cons.IH [where n = "Suc n" and db = db1] u show ?case
    by (auto simp: Let_def intro: converse_rtranclp_into_rtranclp)
qed simp

lemma remember_identities_background:
  "background\<^sup>*\<^sup>* db (remember_identities (sqlite_service f clock domains policy decoders resolver) event db)"
  by (simp add: remember_identities_def remember_background)

lemma webhook_run:
  assumes "handle_webhook (Some (sqlite_service f clock domains policy decoders resolver)) ord hs body (sys_db s) = (res, db')"
    "map_order ord"
  shows "\<exists>results. steps c w domains policy s (s\<lparr>sys_db := db', sys_routed := results @ sys_routed s\<rparr>)"
proof -
  have quiet: ?thesis if "background\<^sup>*\<^sup>* (sys_db s) db'"
  proof -
    have "steps c w domains policy s (s\<lparr>sys_db := db', sys_routed := [] @ sys_routed s\<rparr>)"
      using background_is_a_run [OF that, of c w domains policy] by (cases s) simp
    then show ?thesis by blast
  qed
  from assms(1) show ?thesis
  proof (cases rule: sqlite_ingest.handle_cases)
    case (unconfigured e)
    then show ?thesis by (intro quiet) simp
  next
    case ignored
    obtain e db1 where r: "record_ignored (f 0) (clock 0) (ignored_key body) ''17.6'' (hs ''X-Gitlab-Event'') (sys_db s) = (e, db1)"
      by fastforce
    with ignored(2) have "db' = db1" by simp
    with ignore_event [OF r] show ?thesis by (intro quiet) simp
  next
    case (undecoded e)
    then show ?thesis by (intro quiet) simp
  next
    case (unrouted e event)
    then show ?thesis by (intro quiet) (simp add: remember_identities_background)
  next
    case (unstored e event s1 rr)
    have "db' = s1" using unstored(4) by (cases rule: enqueue_cases) auto
    then show ?thesis by (intro quiet) (simp add: unstored(3) remember_identities_background)
  next
    case (accepted event0 event router rr s1 s2)
    let ?t1 = "s\<lparr>sys_db := s1\<rparr>"
    let ?t2 = "?t1\<lparr>sys_routed := (event, rr) # sys_routed ?t1\<rparr>"
    let ?t3 = "?t2\<lparr>sys_db := s2\<rparr>"
    have "steps c w domains policy s ?t1"
      by (rule background_is_a_run) (simp add: accepted(3) remember_identities_background)
    moreover have "step c w domains policy ?t1 ?t2"
      by (rule route_event [OF assms(2), of "\<lambda>n. f (Suc n)" "clock 1"]) (use accepted(5,6) in auto)
    moreover have "step c w domains policy ?t2 ?t3"
      by (rule enqueue_event [of event rr _ "f 4" "clock 4" None]) (use accepted(7) in auto)
    moreover have "steps c w domains policy ?t3 (?t3\<lparr>sys_db := db'\<rparr>)"
    proof (rule background_is_a_run)
      obtain e db1 where r: "record_unresolved (f 5) (clock 5) (ev_event_key event) (rr_unresolved rr) s2 = (e, db1)" by fastforce
      then have "db' = (if rr_unresolved rr = [] then s2 else db1)"
        using accepted(8) by (simp add: record_unresolved_users_def)
      with note_unresolved [OF r] show "background\<^sup>*\<^sup>* (sys_db ?t3) db'" by auto
    qed
    ultimately have "steps c w domains policy s (?t3\<lparr>sys_db := db'\<rparr>)" by (meson rtranclp.rtrancl_into_rtrancl rtranclp_trans)
    moreover have "?t3\<lparr>sys_db := db'\<rparr> = s\<lparr>sys_db := db', sys_routed := [(event, rr)] @ sys_routed s\<rparr>" by (cases s) simp
    ultimately show ?thesis by metis
  qed
qed

lemma click_background:
  assumes "handle_interaction (Some (sqlite_api f clock)) now i db = (res, db')"
  shows "background\<^sup>*\<^sup>* db db'"
proof -
  obtain b db1 where b: "begin_interaction (f 0) (clock 0) (interaction_record_of i) db = (b, db1)" by fastforce
  obtain r db2 where r: "apply_interaction (sqlite_api f clock) now i db1 = (r, db2)" by fastforce
  obtain e db3 where e: "finish_interaction (f 4) (clock 4) (in_event_id i) (ir_status r) db2 = (e, db3)" by fastforce
  have "background\<^sup>*\<^sup>* db1 db2"
    using r by (auto simp: apply_interaction_def apply_mute_def sqlite_api_def Let_def
        split: if_splits sum.splits prod.splits option.splits intro: mute_click)
  with begin_click [OF b] finish_click [OF e] have "background\<^sup>*\<^sup>* db db3"
    by (meson converse_rtranclp_into_rtranclp rtranclp.rtrancl_into_rtrancl)
  moreover have "db' = db \<or> db' = db1 \<or> db' = db3"
    using assms b r e
    by (auto simp: handle_interaction_def sqlite_api_def Let_def split: if_splits sum.splits bool.splits)
  ultimately show ?thesis using begin_click [OF b] by auto
qed

lemma sync_loop_background:
  "sync_loop (sqlite_sync faults g now users directory names) dry_run found n cs report db = (r, ids, errs, db') \<Longrightarrow>
   background\<^sup>*\<^sup>* db db'"
proof (induction cs arbitrary: n report db r ids errs)
  case (Cons c cs)
  obtain e db1 where u: "upsert (faults n) now ProviderGitLab (sc_identity c)
      (sc_active c \<and> map_of found (sc_email c) \<noteq> None) db = (e, db1)" by fastforce
  have one: "background db db1" by (rule remember_identity [OF u])
  obtain n' report' r' ids' errs' start where "sync_loop (sqlite_sync faults g now users directory names) dry_run found n' cs report' start
      = (r', ids', errs', db')" "start = db \<or> start = db1"
    using Cons.prems u by (auto simp: Let_def split: if_splits option.splits prod.splits)
  with Cons.IH one show ?case by (metis converse_rtranclp_into_rtranclp)
qed simp

lemma sync_background:
  assumes "sync (Some (sqlite_sync faults g now users directory names)) dry_run db = (report, errs, db')"
  shows "background\<^sup>*\<^sup>* db db'"
  using assms
proof (cases rule: sync_cases)
  case (ran us found report0 report1 ids errs1 db1)
  note l = sync_loop_background [OF ran(4)]
  show ?thesis
  proof (cases dry_run)
    case False
    with ran(5) obtain result where "disable_except g now ProviderGitLab ids db1 = (result, db')" by auto
    then show ?thesis using l disable_identities by (meson rtranclp.rtrancl_into_rtrancl)
  qed (use ran(5) l in simp)
qed simp

subsection \<open>Progress\<close>

text \<open>Without a fault no mark of a stored row fails, so a pass ends without an error.\<close>

lemma mark_no_fault:
  assumes "delivery_at db key = Some r" "key \<noteq> []"
  shows "fst (mark_delivered no_fault now key receipt db) = None" "fst (mark_failed c no_fault now key failure db) = None"
proof -
  have "key \<in> dr_key ` set (db_deliveries db)"
    using assms(1) find_key_None [of key "db_deliveries db"] by (auto simp: delivery_at_def)
  then show "fst (mark_delivered no_fault now key receipt db) = None" "fst (mark_failed c no_fault now key failure db) = None"
    using assms by (auto simp: mark_delivered_def mark_failed_def no_fault_def delivery_at_def Let_def split: option.split)
qed

lemma loop_no_fault:
  "outbox_inv c db \<Longrightarrow> list_all (\<lambda>d. note_at db (d_key d) \<noteq> None) ds \<Longrightarrow>
   fst (process_loop (sqlite_outbox c (\<lambda>_. no_fault) clock) send p n ds db) = None"
proof (induction ds arbitrary: n db)
  case (Cons d ds)
  let ?a = "allows p (n_recipient (d_notification d))"
  define result where "result = send n (d_notification d)"
  obtain r where r: "delivery_at db (d_key d) = Some r" using Cons.prems(2) by (auto simp: note_at_def)
  then have ne: "d_key d \<noteq> []" using delivery_at_ok [OF Cons.prems(1) r] by (auto simp: row_ok_def)
  obtain e1 db1 where m: "(if \<not> ?a then mark_failed c no_fault (clock n) (d_key d) policy_blocked db
      else send_mark c no_fault (clock n) (d_key d) result db) = (e1, db1)" by fastforce
  have e1: "e1 = None"
    using mark_no_fault [OF r ne] arg_cong [OF m, of fst] by (auto simp: send_mark_def split: if_splits sum.splits)
  have one: "one_marked c (d_key d) db db1"
  proof (cases ?a)
    case True
    with m have "send_mark c no_fault (clock n) (d_key d) result db = (e1, db1)" by simp
    then show ?thesis by (rule send_mark_one [OF Cons.prems(1)])
  next
    case False
    with m have "mark_failed c no_fault (clock n) (d_key d) policy_blocked db = (e1, db1)" by simp
    then show ?thesis by (rule failed_marks_one [OF Cons.prems(1)])
  qed
  have "outbox_inv c db1" "note_at db1 = note_at db" using one by (simp_all only: one_marked_def)
  then have "fst (process_loop (sqlite_outbox c (\<lambda>_. no_fault) clock) send p (Suc n) ds db1) = None"
    using Cons.IH Cons.prems(2) by simp
  then show ?case
    using m e1 by (auto simp: Let_def result_def [symmetric] send_mark_def split: if_splits sum.splits prod.splits)
qed simp

lemma few_ready_all_claimed:
  assumes "outbox_inv c db" "claim c f now w limit db = (Inr ds, db')" "delivery_at db k = Some r"
    "ready c (format_timestamp now) r"
    "length (filter (ready c (format_timestamp now)) (db_deliveries db)) \<le> nat (if limit \<le> 0 then 10 else limit)"
  shows "k \<in> set (map d_key ds)"
proof -
  have "r \<in> set (db_deliveries db)" "dr_key r = k"
    using find_key_Some assms(3) unfolding delivery_at_def by blast+
  then have "r \<in> set (select_ready c (format_timestamp now) (nat (if limit \<le> 0 then 10 else limit)) (db_deliveries db))"
    using assms(4,5) by (simp add: select_ready_def)
  with \<open>dr_key r = k\<close> show ?thesis unfolding claim_keys [OF assms(1,2)] by (auto simp: keys_def)
qed

subsection \<open>Properties\<close>

text \<open>A run for the witnesses: the webhook of a failed pipeline, then one pass of the worker.\<close>

definition red_pass :: "go_error option \<times> sending list \<times> db" where
  "red_pass = process (sqlite_outbox default_config (\<lambda>_. no_fault) (\<lambda>_. 2 * second)) always_sent steady_worker after_red"

definition sent_state :: "(canonical_event \<times> route_result) list \<Rightarrow> system" where
  "sent_state results = \<lparr>sys_db = snd (snd red_pass), sys_pc = Resting, sys_routed = results, sys_sent = fst (snd red_pass)\<rparr>"

lemma red_pass_sends: "map (d_key \<circ> fst) (fst (snd red_pass)) = map dr_key (db_deliveries after_red)"
  "length (fst (snd red_pass)) = 1"
  by code_simp+

lemma sent_state_reachable: "\<exists>results. reachable default_config steady_worker [] None (sent_state results)"
proof -
  obtain results where w: "steps default_config steady_worker [] None started
      (started\<lparr>sys_db := after_red, sys_routed := results @ sys_routed started\<rparr>)"
    using webhook_run [OF webhook_red [unfolded webhook_def, folded started_def [THEN arg_cong, of sys_db, simplified]] map_order_id]
    by (auto simp: started_def)
  let ?s1 = "started\<lparr>sys_db := after_red, sys_routed := results @ sys_routed started\<rparr>"
  have "process (sqlite_outbox default_config (\<lambda>_. no_fault) (\<lambda>_. 2 * second)) always_sent steady_worker (sys_db ?s1)
      = (fst red_pass, fst (snd red_pass), snd (snd red_pass))"
    by (simp add: red_pass_def)
  from process_is_a_run [OF this, of "[]" None]
  have "steps default_config steady_worker [] None ?s1 (sent_state results)"
    by (simp add: sent_state_def started_def)
  from reachable_steps [OF this reachable_steps [OF w start]] show ?thesis by blast
qed

lemma sent_state_simps [simp]:
  "sys_db (sent_state results) = snd (snd red_pass)" "sys_sent (sent_state results) = fst (snd red_pass)"
  by (simp_all add: sent_state_def)



text \<open>C9: a crash costs at most attempts, never a bound: in every reachable state, restarts included,
  no delivery has been sent more often than its row counts attempts, hence never more often than
  the configured maximum.\<close>

theorem sends_are_bounded:
  assumes "reachable c w domains policy s" "config_ok c"
  shows "int (count_list (sent_keys (sys_sent s)) k) \<le> attempts_of (sys_db s) k
    \<and> attempts_of (sys_db s) k \<le> cfg_max_attempts c"
proof -
  have inv: "attempts_inv s" "outbox_inv c (sys_db s)"
    using reachable_inv [OF assms] by (auto simp: sys_inv_def lease_inv_def)
  show ?thesis using attempts_invD [OF inv(1), of k] attempts_bounded [OF inv(2), of k] by (auto split: if_splits)
qed

theorem sends_are_bounded_witness:
  "map (\<lambda>k. attempts_of (snd (snd red_pass)) k) (sent_keys (fst (snd red_pass))) = [1]
   \<and> list_all (\<lambda>k. int (count_list (sent_keys (fst (snd red_pass))) k) \<le> 5) (sent_keys (fst (snd red_pass)))"
proof -
  obtain results where r: "reachable default_config steady_worker [] None (sent_state results)"
    using sent_state_reachable by blast
  have m: "cfg_max_attempts default_config = 5" by code_simp
  have "list_all (\<lambda>k. int (count_list (sent_keys (fst (snd red_pass))) k) \<le> 5) (sent_keys (fst (snd red_pass)))"
    unfolding list_all_iff
  proof
    fix k
    show "int (count_list (sent_keys (fst (snd red_pass))) k) \<le> 5"
      using sends_are_bounded [OF r config_ok_default, of k] m by simp
  qed
  moreover have "map (\<lambda>k. attempts_of (snd (snd red_pass)) k) (sent_keys (fst (snd red_pass))) = [1]" by code_simp
  ultimately show ?thesis by blast
qed

text \<open>C8: delivered is final: once a delivery is marked delivered, no continuation of the run changes
  that or sends it again.\<close>

theorem delivered_is_final:
  assumes "reachable c w domains policy s" "config_ok c" "steps c w domains policy s s'"
  shows "delivered_keys (sys_db s) \<subseteq> delivered_keys (sys_db s')
    \<and> (\<exists>new. sys_sent s' = sys_sent s @ new \<and> set (sent_keys new) \<inter> delivered_keys (sys_db s) = {})"
  using assms(3,1,2) by (rule delivered_steps)

theorem delivered_is_final_witness:
  "list_all (\<lambda>k. k \<in> delivered_keys (snd (snd red_pass))) (sent_keys (fst (snd red_pass)))
   \<and> (\<exists>results s'. steps default_config steady_worker [] None (sent_state results) s'
      \<and> delivered_keys (snd (snd red_pass)) \<subseteq> delivered_keys (sys_db s'))"
proof -
  obtain results where r: "reachable default_config steady_worker [] None (sent_state results)"
    using sent_state_reachable by blast
  have "list_all (\<lambda>k. map_option dr_status (delivery_at (snd (snd red_pass)) k) = Some Delivered) (sent_keys (fst (snd red_pass)))"
    by code_simp
  then have "list_all (\<lambda>k. k \<in> delivered_keys (snd (snd red_pass))) (sent_keys (fst (snd red_pass)))"
    by (simp add: delivered_keys_def list_all_iff)
  moreover have s: "steps default_config steady_worker [] None (sent_state results) (sent_state results)" by simp
  have "delivered_keys (snd (snd red_pass)) \<subseteq> delivered_keys (sys_db (sent_state results))"
    using delivered_is_final [OF r config_ok_default s] by simp
  ultimately show ?thesis using s by blast
qed

text \<open>C17: the pass of the worker, as the code writes it, is one run of these steps: it refines the
  interleaved service, with its claim, its sends and its marks in order and an error ending it.\<close>

theorem pass_is_a_run:
  assumes "process (sqlite_outbox c f clock) send w (sys_db s) = (e, sent, db')" "sys_pc s = Resting"
  shows "steps c w domains policy s (s\<lparr>sys_db := db', sys_sent := sys_sent s @ sent\<rparr>)"
  using assms by (rule process_is_a_run)

theorem pass_is_a_run_witness:
  "steps default_config steady_worker [] None (started\<lparr>sys_db := after_red\<rparr>)
    (started\<lparr>sys_db := snd (snd red_pass), sys_sent := fst (snd red_pass)\<rparr>)"
proof -
  have "process (sqlite_outbox default_config (\<lambda>_. no_fault) (\<lambda>_. 2 * second)) always_sent steady_worker
      (sys_db (started\<lparr>sys_db := after_red\<rparr>)) = (fst red_pass, fst (snd red_pass), snd (snd red_pass))"
    by (simp add: red_pass_def)
  from pass_is_a_run [OF this, of "[]" None] show ?thesis by (simp add: started_def)
qed

text \<open>C18: so are the other entry points: a webhook, whatever its outcome, a click on a card and a
  synchronization of the identities are runs that send nothing.\<close>

theorem requests_are_runs:
  assumes "map_order ord"
  shows "(\<exists>results. steps c w domains policy s (s\<lparr>sys_db := snd (handle_webhook
        (Some (sqlite_service f clock domains policy decoders resolver)) ord hs body (sys_db s)),
      sys_routed := results @ sys_routed s\<rparr>))
    \<and> steps c w domains policy s (s\<lparr>sys_db := snd (handle_interaction (Some (sqlite_api f clock)) now i (sys_db s))\<rparr>)
    \<and> steps c w domains policy s (s\<lparr>sys_db :=
      snd (snd (sync (Some (sqlite_sync faults g now users directory names)) dry_run (sys_db s)))\<rparr>)"
proof (intro conjI)
  show "\<exists>results. steps c w domains policy s (s\<lparr>sys_db := snd (handle_webhook
        (Some (sqlite_service f clock domains policy decoders resolver)) ord hs body (sys_db s)),
      sys_routed := results @ sys_routed s\<rparr>)"
    by (rule webhook_run [OF prod.collapse [symmetric] assms])
  show "steps c w domains policy s (s\<lparr>sys_db := snd (handle_interaction (Some (sqlite_api f clock)) now i (sys_db s))\<rparr>)"
    by (intro background_is_a_run click_background [OF prod.collapse [symmetric]])
  show "steps c w domains policy s (s\<lparr>sys_db :=
      snd (snd (sync (Some (sqlite_sync faults g now users directory names)) dry_run (sys_db s)))\<rparr>)"
  proof (rule background_is_a_run)
    obtain report errs db' where "sync (Some (sqlite_sync faults g now users directory names)) dry_run (sys_db s)
        = (report, errs, db')" using prod_cases3 by blast
    with sync_background [OF this] show "background\<^sup>*\<^sup>* (sys_db s)
        (snd (snd (sync (Some (sqlite_sync faults g now users directory names)) dry_run (sys_db s))))" by simp
  qed
qed

theorem requests_are_runs_witness:
  "\<exists>results. steps default_config steady_worker [] None started (started\<lparr>sys_db := after_red, sys_routed := results\<rparr>)"
proof -
  have "sys_db started = empty_db" "sys_routed started = []" by (simp_all add: started_def)
  with requests_are_runs [OF map_order_id, of default_config steady_worker "[]" None started "\<lambda>_. no_fault" "\<lambda>_. second"
      "[sample_decoder]" None "\<lambda>_. ''red''" "[]"] webhook_red
  show ?thesis by (simp add: webhook_def)
qed

text \<open>C16: a delivery that is due goes out: if the batch has room for all that is ready and the store
  does not fail, the next pass ends without an error, sends every due delivery whose recipient the
  policy allows, and marks it delivered if the messenger accepts it.\<close>

theorem due_delivery_is_sent:
  assumes "outbox_inv c db" "delivery_at db k = Some r" "ready c (format_timestamp (clock 0)) r"
    "length (filter (ready c (format_timestamp (clock 0))) (db_deliveries db))
      \<le> nat (if wk_batch_size w \<le> 0 then 10 else wk_batch_size w)"
    "dr_notification r = Json n" "allows (wk_policy w) (n_recipient n)"
    "process (sqlite_outbox c (\<lambda>_. no_fault) clock) send w db = (e, sent, db')"
  shows "e = None \<and> (\<exists>d result. (d, result) \<in> set sent \<and> d_key d = k \<and> d_notification d = n
    \<and> (isl result \<or> k \<in> delivered_keys db'))"
proof -
  obtain ds db1 where cl: "claim c no_fault (clock 0) (wk_worker_id w) (wk_batch_size w) db = (Inr ds, db1)"
    using claim_no_fault [OF assms(1)] by blast
  have l: "process_loop (sqlite_outbox c (\<lambda>_. no_fault) clock) send (wk_policy w) 1 ds db1 = (e, sent, db')"
    using assms(7) cl by (simp add: process_def)
  have holds: "\<forall>d \<in> set ds. holds_lease db1 d" using claim_holds [OF assms(1) cl] by blast
  have inv: "outbox_inv c db1" by (rule claim_inv [OF assms(1) cl])
  have e: "e = None"
    using loop_no_fault [OF inv, of ds clock send "wk_policy w" 1] holds l
    by (auto simp: list_all_iff holds_lease_def was_stored_def)
  obtain d where d: "d \<in> set ds" "d_key d = k"
    using few_ready_all_claimed [OF assms(1) cl assms(2-4)] by auto
  have "note_at db1 k = Some (Json (d_notification d))" using holds d by (auto simp: holds_lease_def was_stored_def)
  then have n: "d_notification d = n"
    using claim_notes [OF assms(1) cl] assms(2,5) by (simp add: note_at_def)
  have dist: "distinct (map d_key ds)" by (rule claim_distinct [OF assms(1) cl])
  have "set (map d_key ds) \<inter> delivered_keys db1 = {}" using holds leased_not_delivered by auto
  note lo = sqlite_worker.loop_ok [OF l inv dist this]
  have "d \<in> set (map fst sent)" using lo(7) [OF e] d n assms(6) by auto
  then obtain result where res: "(d, result) \<in> set sent" by auto
  have "k \<in> delivered_keys db'" if "\<not> isl result"
  proof -
    have "(d, result) \<in> set (filter (\<lambda>x. \<not> isl (snd x)) sent)" using res that by simp
    then have "d_key d \<in> set (sent_keys (filter (\<lambda>x. \<not> isl (snd x)) sent))" by (force simp: sent_keys_def)
    with lo(7) [OF e] d(2) show ?thesis by auto
  qed
  with e res d(2) n show ?thesis by blast
qed

theorem due_delivery_is_sent_witness:
  "fst first_pass = None \<and> (\<exists>d result. (d, result) \<in> set (fst (snd first_pass)) \<and> d_key d = ''k-a'')"
proof -
  have "map_option dr_notification (delivery_at queued ''k-a'') = Some (Json (d_notification (ping ''a'')))
    \<and> map_option (ready default_config (format_timestamp second)) (delivery_at queued ''k-a'') = Some True" by code_simp
  then obtain r where r: "delivery_at queued ''k-a'' = Some r" "dr_notification r = Json (d_notification (ping ''a''))"
    "ready default_config (format_timestamp second) r" by auto
  have n: "length (filter (ready default_config (format_timestamp second)) (db_deliveries queued))
      \<le> nat (if wk_batch_size steady_worker \<le> 0 then 10 else wk_batch_size steady_worker)" by code_simp
  have a: "allows (wk_policy steady_worker) (n_recipient (d_notification (ping ''a'')))" by code_simp
  have p: "process (sqlite_outbox default_config (\<lambda>_. no_fault) (\<lambda>_. second)) always_sent steady_worker queued
      = (fst first_pass, fst (snd first_pass), snd (snd first_pass))" by (simp add: first_pass_def)
  from due_delivery_is_sent [OF queued_inv r(1,3) n r(2) a p] show ?thesis by blast
qed

end
