(* ===== verification/ProgramLaws.thy ===== *)
theory ProgramLaws
  imports Program System
begin

section \<open>What the program as a whole does\<close>

subsection \<open>Dry runs\<close>

lemma dry_run_of_apply: "''--apply'' \<notin> set flags \<Longrightarrow> dry_run_of True flags"
  by (induction flags) auto

lemma sync_loop_dry: "sync_loop svc True found n cs report s = (r, ids, errs, s1) \<Longrightarrow> s1 = s"
  by (induction cs arbitrary: n report) (auto simp: Let_def)

lemma sync_dry: "sync (Some svc) True s = (report, errs, s1) \<Longrightarrow> s1 = s"
  using sync_loop_dry [of svc]
  by (auto simp: sync_def Let_def split: option.splits sum.splits prod.splits)

lemma only_mono: "only P tr tr' \<Longrightarrow> (\<And>r. P r \<Longrightarrow> Q r) \<Longrightarrow> only Q tr tr'"
  unfolding only_def list_all_iff by blast

lemma hook_request_dry: "hook_request c True r \<Longrightarrow> hr_method r = ''GET'' \<and> hr_body r = None"
  by (simp add: hook_request_def)

lemma sync_users_keeps:
  assumes run: "sync_users_command w clock faults g st open_error flags db = Some (report, errs, db')" and dry: "dry_run_of True flags = True"
  shows "db' = db"
proof (cases "open_error = None")
  case opened: True
  show ?thesis
  proof (cases "build_hook_controller st")
    case (Inl e)
    then show ?thesis using run opened by (simp add: sync_users_command_def)
  next
    case controller: (Inr controller)
    show ?thesis
    proof (cases controller)
      case None
      then show ?thesis using run opened controller by (simp add: sync_users_command_def)
    next
      case (Some c)
      show ?thesis
      proof (cases "build_directory st")
        case (Inl e)
        then show ?thesis using run opened controller Some by (simp add: sync_users_command_def)
      next
        case (Inr directory)
        then obtain svc :: "db sync_service" and r where "sync (Some svc) True db = (r, errs, db')"
          using run opened controller Some
          by (cases "user_listing w c []") (simp_all add: sync_users_command_def dry split: prod.splits)
        then show ?thesis by (rule sync_dry)
      qed
    qed
  qed
next
  case False
  then show ?thesis using run by (auto simp: sync_users_command_def)
qed


text \<open>A GitLab for the witnesses, and settings that name it.\<close>

definition gitlab_settings :: settings where
  "gitlab_settings = (load (\<lambda>_. []))\<lparr>st_gitlab_base_url := ''https://gl'', st_gitlab_api_token := ''t'',
     st_gitlab_webhook_url := ''https://c/hook'', st_gitlab_hook_token := ''w''\<rparr>"

lemma gitlab_controller: "build_hook_controller gitlab_settings = Inr (Some sample_hook_config)"
proof -
  have "hook_config_of gitlab_settings = sample_hook_config" by code_simp
  moreover have "new_hook_controller sample_hook_config = Inr sample_hook_config" by code_simp
  ultimately show ?thesis by (simp add: build_hook_controller_def gitlab_settings_def)
qed


text \<open>A dry run of \<open>sync-users\<close> still migrates the file, as every opening does, and does no more.\<close>

lemma dry_sync_only_migrates:
  assumes "sync_users_on_file w clock faults g f st flags file = Some (report, errs, db')" "''--apply'' \<notin> set flags"
    "open_store f clock (st_db_path st) default_config file = (Inr c, file1)"
  shows "db' = migrated_db file"
proof -
  have "sync_users_command w clock faults g st None flags (file_db file1) = Some (report, errs, db')"
    using assms(1,3) by (simp add: sync_users_on_file_def error_of_def)
  then have "db' = file_db file1"
    by (rule sync_users_keeps) (use dry_run_of_apply [OF assms(2)] in simp)
  then show ?thesis using opened_rows [OF assms(3)] by simp
qed

subsection \<open>What serve builds\<close>

text \<open>What \<open>serve\<close> starts follows from its settings: in a dry run there is no Feishu client for
  messages and no listener for clicks, otherwise there is a client with credentials; router and
  worker share one policy, made of the allowlist; the store's limits are positive; hooks are
  reconciled only with all four parts of the GitLab configuration, and users are synchronized
  only beside it.\<close>

theorem served_parts_are_consistent:
  assumes "serve_parts st open_error service = Inr p"
  shows "(if st_dry_run st then pt_messenger p = None \<and> pt_interactions p = None
      else \<exists>c. pt_messenger p = Some c \<and> trim_space (fc_app_id c) \<noteq> [] \<and> trim_space (fc_app_secret c) \<noteq> []
        \<and> fc_base_url c = trim_right (if st_feishu_base_url st = [] then default_base_url else st_feishu_base_url st) CHR ''/'')
    \<and> wk_policy (pt_worker p) = Some (pt_policy p) \<and> pt_policy p = new_recipient_policy (st_recipient_allowlist st)
    \<and> config_ok (pt_store p)
    \<and> (case pt_hooks p of None \<Rightarrow> pt_sync p = None
       | Some (c, interval, dry_run) \<Rightarrow> list_all (\<lambda>v. trim_space v \<noteq> [])
           [st_gitlab_base_url st, hc_api_token c, hc_webhook_url c, hc_webhook_token c])"
proof -
  have open_ok: "open_error = None" using assms by (auto simp: serve_parts_def split: option.splits)
  obtain m where m: "build_messenger st = Inr m" using assms open_ok by (auto simp: serve_parts_def split: sum.splits)
  obtain iw where iw: "build_interaction_worker st service = Inr iw"
    using assms open_ok m by (auto simp: serve_parts_def split: sum.splits)
  obtain controller where ctl: "build_hook_controller st = Inr controller"
    using assms open_ok m iw by (auto simp: serve_parts_def split: sum.splits)
  obtain sy where sy: "build_sync st controller = Inr sy"
    using assms open_ok m iw ctl by (auto simp: serve_parts_def split: sum.splits)
  have p: "pt_messenger p = m" "pt_interactions p = iw" "pt_sync p = sy"
    "pt_hooks p = map_option (\<lambda>c. (c, st_reconcile_interval st, st_reconcile_dry_run st)) controller"
    "pt_policy p = new_recipient_policy (st_recipient_allowlist st)" "wk_policy (pt_worker p) = Some (pt_policy p)"
    "config_ok (pt_store p)"
    using assms open_ok m iw ctl sy by (auto simp: serve_parts_def Let_def new_delivery_worker_def)
  have messenger: "if st_dry_run st then m = None \<and> iw = None
      else \<exists>c. m = Some c \<and> trim_space (fc_app_id c) \<noteq> [] \<and> trim_space (fc_app_secret c) \<noteq> []
        \<and> fc_base_url c = trim_right (if st_feishu_base_url st = [] then default_base_url else st_feishu_base_url st) CHR ''/''"
    using m iw by (auto simp: build_messenger_def build_interaction_worker_def new_feishu_client_def feishu_config_of_def split: if_splits)
  have hooks: "case controller of None \<Rightarrow> sy = None
      | Some c \<Rightarrow> list_all (\<lambda>v. trim_space v \<noteq> [])
           [st_gitlab_base_url st, hc_api_token c, hc_webhook_url c, hc_webhook_token c]"
  proof (cases controller)
    case None
    then show ?thesis using sy by (auto simp: build_sync_def split: if_splits)
  next
    case (Some c)
    show ?thesis using ctl Some
      by (auto simp: build_hook_controller_def new_hook_controller_def hook_config_of_def split: if_splits)
  qed
  show ?thesis using p messenger hooks by (auto split: option.splits)
qed

text \<open>The store that \<open>serve\<close> works with is the one its opening gave, over a migrated file.\<close>

lemma served_on_opened:
  assumes "serve_on_file f clock st service file = (Inr p, file1)"
  shows "file_db file1 = migrated_db file"
    and "fst (open_store f clock (st_db_path st)
           \<lparr>cfg_lease_duration = 5 * minute, cfg_max_attempts = 5, cfg_retry_delay = second\<rparr> file) = Inr (pt_store p)"
proof -
  let ?c = "\<lparr>cfg_lease_duration = 5 * minute, cfg_max_attempts = 5, cfg_retry_delay = second\<rparr>"
  obtain opened where o: "open_store f clock (st_db_path st) ?c file = (opened, file1)"
    and p: "serve_parts st (error_of opened) service = Inr p"
    using assms by (auto simp: serve_on_file_def split: prod.splits)
  obtain c where c: "opened = Inr c"
    using p by (cases opened) (auto simp: error_of_def serve_parts_def)
  show "file_db file1 = migrated_db file" by (rule opened_rows [OF o [unfolded c]])
  have "c = open_config ?c" by (rule open_store_done [OF o [unfolded c]])
  moreover have "pt_store p = open_config ?c"
    using p c by (auto simp: error_of_def serve_parts_def Let_def split: sum.splits)
  ultimately show "fst (open_store f clock (st_db_path st) ?c file) = Inr (pt_store p)" using o c by simp
qed

text \<open>Settings with an allowlist of one, and what \<open>serve\<close> builds from them.\<close>

definition guarded_settings :: settings where
  "guarded_settings = load (\<lambda>name. if name = ''CROWSNEST_RECIPIENT_ALLOWLIST'' then '' Cyd@x.io,,'' else [])"

definition guarded_parts :: "db parts" where
  "guarded_parts = projr (serve_parts guarded_settings None (interaction_handler_of (\<lambda>_. no_fault) (\<lambda>_. second) second))"

lemma guarded_served:
  "serve_parts guarded_settings None (interaction_handler_of (\<lambda>_. no_fault) (\<lambda>_. second) second) = Inr guarded_parts"
proof -
  have "st_dry_run guarded_settings" "st_gitlab_base_url guarded_settings = []" "st_gitlab_api_token guarded_settings = []"
    "st_gitlab_webhook_url guarded_settings = []" "\<not> st_identity_sync_enabled guarded_settings"
    by code_simp+
  then show ?thesis
    by (simp add: guarded_parts_def serve_parts_def build_messenger_def build_interaction_worker_def build_hook_controller_def
        build_sync_def Let_def)
qed

theorem served_parts_are_consistent_witness:
  "wk_policy (pt_worker guarded_parts) = Some (new_recipient_policy [''cyd@x.io'']) \<and> pt_messenger guarded_parts = None"
proof -
  have "st_recipient_allowlist guarded_settings = [''cyd@x.io'']" "st_dry_run guarded_settings" by code_simp+
  with served_parts_are_consistent [OF guarded_served] show ?thesis by simp
qed

subsection \<open>The allowlist\<close>

lemma allowed_by_list:
  assumes "allows (Some (new_recipient_policy emails)) address" "emails \<noteq> []"
  shows "normalize_recipient_email (a_value address) \<in> normalize_recipient_email ` set emails - {[]}"
proof -
  have keys: "fst ` set (add_emails es m) \<subseteq> (normalize_recipient_email ` set es - {[]}) \<union> fst ` set m" for es m
  proof (induction es arbitrary: m)
    case (Cons e es)
    show ?case using Cons [of "if normalize_recipient_email e \<noteq> [] then AList.update (normalize_recipient_email e) () m else m"]
      by (auto simp: Let_def dom_update split: if_splits)
  qed simp
  have "map_of (add_emails emails []) (normalize_recipient_email (a_value address)) \<noteq> None"
    using assms by (simp add: allows_def new_recipient_policy_def)
  then have "normalize_recipient_email (a_value address) \<in> fst ` set (add_emails emails [])"
    by (simp add: map_of_eq_None_iff)
  then show ?thesis using keys [of emails "[]"] by auto
qed

text \<open>C12: with an allowlist in the settings, the messenger of a served program is never asked to send to
  anybody else, in whatever order webhooks, clicks, synchronizations, worker steps, restarts and
  faults follow each other.\<close>

theorem only_the_allowlist_is_served:
  assumes "serve_parts st open_error service = Inr p" "st_recipient_allowlist st \<noteq> []"
    "reachable (pt_store p) (pt_worker p) (pt_domains p) (Some (pt_policy p)) s" "(d, result) \<in> set (sys_sent s)"
  shows "normalize_recipient_email (a_value (n_recipient (d_notification d)))
    \<in> normalize_recipient_email ` set (st_recipient_allowlist st) - {[]}"
proof -
  have p: "wk_policy (pt_worker p) = Some (new_recipient_policy (st_recipient_allowlist st))" "config_ok (pt_store p)"
    using assms(1) by (auto simp: serve_parts_def new_delivery_worker_def Let_def split: option.splits sum.splits)
  have "sent_inv (pt_worker p) s" using reachable_inv [OF assms(3) p(2)] by (simp add: sys_inv_def)
  then have "allows (wk_policy (pt_worker p)) (n_recipient (d_notification d))"
    using assms(4) by (auto simp: sent_inv_def list_all_iff)
  from allowed_by_list [OF this [unfolded p(1)] assms(2)] show ?thesis .
qed

definition guarded_intake :: "ingest_result res \<times> db" where
  "guarded_intake = handle_webhook (Some (sqlite_service (\<lambda>_. no_fault) (\<lambda>_. second) (pt_domains guarded_parts)
     (Some (pt_policy guarded_parts)) [sample_decoder] None)) (\<lambda>_ ks. ks) (\<lambda>_. ''red'') [] empty_db"

definition guarded_pass :: "go_error option \<times> sending list \<times> db" where
  "guarded_pass = process (sqlite_outbox (pt_store guarded_parts) (\<lambda>_. no_fault) (\<lambda>_. 2 * second)) always_sent
     (pt_worker guarded_parts) (snd guarded_intake)"

theorem only_the_allowlist_is_served_witness:
  "\<exists>d result. fst (snd guarded_pass) = [(d, result)]
    \<and> normalize_recipient_email (a_value (n_recipient (d_notification d))) = ''cyd@x.io''"
proof -
  let ?steps = "steps (pt_store guarded_parts) (pt_worker guarded_parts) (pt_domains guarded_parts) (Some (pt_policy guarded_parts))"
  have db: "sys_db started = empty_db" by (simp add: started_def)
  have "handle_webhook (Some (sqlite_service (\<lambda>_. no_fault) (\<lambda>_. second) (pt_domains guarded_parts)
      (Some (pt_policy guarded_parts)) [sample_decoder] None)) (\<lambda>_ ks. ks) (\<lambda>_. ''red'') [] (sys_db started)
      = (fst guarded_intake, snd guarded_intake)" by (simp add: guarded_intake_def db)
  from webhook_run [OF this map_order_id] obtain results where
    one: "?steps started (started\<lparr>sys_db := snd guarded_intake, sys_routed := results @ sys_routed started\<rparr>)" by blast
  let ?s1 = "started\<lparr>sys_db := snd guarded_intake, sys_routed := results @ sys_routed started\<rparr>"
  have "process (sqlite_outbox (pt_store guarded_parts) (\<lambda>_. no_fault) (\<lambda>_. 2 * second)) always_sent
      (pt_worker guarded_parts) (sys_db ?s1) = (fst guarded_pass, fst (snd guarded_pass), snd (snd guarded_pass))"
    by (simp add: guarded_pass_def)
  from process_is_a_run [OF this] have two: "?steps ?s1
      (?s1\<lparr>sys_db := snd (snd guarded_pass), sys_sent := sys_sent ?s1 @ fst (snd guarded_pass)\<rparr>)" by (simp add: started_def)
  note reached = reachable_steps [OF two reachable_steps [OF one start]]
  have "length (fst (snd guarded_pass)) = 1" by code_simp
  then obtain d result where d: "fst (snd guarded_pass) = [(d, result)]"
    by (cases "fst (snd guarded_pass)") auto
  have list: "st_recipient_allowlist guarded_settings = [''cyd@x.io'']" by code_simp
  then have ne: "st_recipient_allowlist guarded_settings \<noteq> []" by simp
  have "normalize_recipient_email ''cyd@x.io'' = ''cyd@x.io''" by code_simp
  with only_the_allowlist_is_served [OF guarded_served ne reached, of d result] d list show ?thesis by simp
qed

end
