(* ===== verification/Spec2Isabelle.thy ===== *)
theory Spec2Isabelle
  imports ProgramLaws
begin

text \<open>
  \<^bold>\<open>The program.\<close> Crowsnest receives GitLab webhooks, decides who should be told of an event and
  sends each of these people a card in Feishu, once. A webhook (internal/platform/httpserver) is
  decoded (adapter/git/gitlab/v17_6/decoder.go), its identities are completed from the GitLab API
  (users.go), the event is routed (application/routing.go) and stored with its deliveries in one
  transaction of SQLite (adapter/database/sqlite/store.go), which serves as an outbox. A worker
  (application/worker.go) claims deliveries under a lease, sends them through the messenger
  (adapter/messenger/feishu/client.go, card.go) and records the outcome. Clicks on a card come
  back (feishu/interactions.go) to the interaction service (application/interaction.go). Two
  schedulers keep the hooks (hooks.go) and the identities (application/identity_sync.go) in step
  with GitLab. cmd/crowsnest/main.go and sync_users.go build all this from the environment
  (internal/platform/config). The model follows the code function by function and keeps its
  names, with underscores.

  \<^bold>\<open>Theories: what Go's libraries do.\<close>
  \<^item> \<open>Prelude\<close>: errors (\<open>go_error\<close>, results \<open>'a res\<close>), Go maps as association lists, the
    order of a loop over a map as a parameter \<open>ord\<close>, the collections \<open>store_simps\<close>, \<open>inv_intros\<close>
    and \<open>frame_simps\<close>.
  \<^item> \<open>GoStrings\<close>, \<open>GoTime\<close>, \<open>GoLayout\<close>: strings as byte lists, UTF-8, addresses, decimals;
    instants in nanoseconds, durations that wrap at 64 bits, the calendar, the store's timestamp
    texts, whose order is proved to be the order of the instants; \<open>time.Parse\<close>.
  \<^item> \<open>GoJson\<close>, \<open>GoFloat\<close>, \<open>JsonRoundTrip\<close>: the JSON reader and writer, numbers as 64-bit floats
    and their shortest decimal, and the proof that what is written is read back.
  \<^item> \<open>GoHash\<close>, \<open>GoUrl\<close>, \<open>GoHttp\<close>: SHA-256 on 32-bit words, net/url, and requests to a \<open>world\<close>
    that answers whatever it likes, given all that was sent before.

  \<^bold>\<open>Theories: the program.\<close>
  \<^item> \<open>Domain\<close>: internal/domain and internal/ports as records. \<open>Policy\<close>: recipient_policy.go,
    actions.go.
  \<^item> \<open>Store\<close>, \<open>Outbox\<close>: the tables of store.go as lists of rows; \<open>enqueue\<close>, \<open>record_ignored\<close>,
    \<open>claim\<close>, \<open>mark_delivered\<close>, \<open>mark_failed\<close>; the outbox's invariant. \<open>StoreIdentity\<close>: \<open>resolve\<close>,
    \<open>upsert\<close>, \<open>disable_except\<close>, the log of unresolved identities. \<open>StorePreference\<close>: mutes,
    preferences, project lists, pipeline states. \<open>StoreInteraction\<close>: interactions.go of the store.
    \<open>StoreFrames\<close>: what each operation leaves alone.
  \<^item> \<open>Migration\<close>: \<open>Open\<close> with the schema, the later columns and timestamps.go, on a file of an
    older version.
  \<^item> \<open>Interaction\<close>: interaction.go. \<open>RoutingText\<close>, \<open>Routing\<close>, \<open>RoutingStore\<close>: routing.go, its
    texts, its candidates and deliveries for any stores, and on SQLite. \<open>Ingest\<close>: ingest.go.
    \<open>Worker\<close>: worker.go. \<open>IdentitySync\<close>: identity_sync.go.
  \<^item> \<open>DecoderText\<close>, \<open>Decoder\<close>, \<open>DecoderLaws\<close>: decoder.go. \<open>GitLabApi\<close>, \<open>GitLabHooks\<close>: hooks.go.
    \<open>GitLabUsers\<close>: users.go, with the event's identities as cells of a heap.
  \<^item> \<open>FeishuCard\<close>, \<open>FeishuCardLaws\<close>: card.go. \<open>FeishuInteractions\<close>: interactions.go.
    \<open>FeishuClient\<close>, \<open>FeishuClientLaws\<close>: client.go.
  \<^item> \<open>Settings\<close>: config.go. \<open>WebhookServer\<close>: server.go. \<open>Program\<close>: main.go, sync_users.go,
    reconcile.go, identity_sync_scheduler.go.
  \<^item> \<open>System\<close>: the parts of a running service side by side, as a step relation: webhooks, clicks,
    synchronizations, each single call of the worker, a crash at any point, restarts.
    \<open>ProgramLaws\<close>: what holds of a service built from settings.

  \<^bold>\<open>State.\<close> An operation of the store is a function of the database that takes the clock's reading
  and a \<open>fault\<close>, the error of its n-th call of the driver; a transaction that fails gives back the
  database it started with. A client of an API threads the trace of its requests and waits. An
  error is a value, and every early return of the code is a branch.

  \<^bold>\<open>Interfaces.\<close> A service is proved against a locale and the locale interpreted on the SQLite
  model: \<open>interaction_store\<close> (\<open>sqlite\<close>), \<open>preference_gate\<close> and \<open>identity_source\<close> of the router
  (\<open>sqlite_gate\<close>, \<open>sqlite_source\<close>), \<open>ingest_store\<close> (\<open>sqlite_ingest\<close>), \<open>delivery_outbox\<close> with
  \<open>delivery_outbox_runs\<close>, in which every pass has faults of its own (\<open>sqlite_worker\<close>,
  \<open>sqlite_runs\<close>), and \<open>sync_store\<close> (\<open>sqlite_ids\<close>).

  \<^bold>\<open>What is shown.\<close> The properties are the lemmas and theorems whose text begins with a number.
  \<^item> Who is told: every delivery has an entitled, allowed, lower-case recipient and known reasons,
    nothing due is left out, the actor is not told, a recovery is told to those who were told of
    the failure, and once (\<open>Routing\<close>, \<open>RoutingStore\<close>, \<open>Ingest\<close>).
  \<^item> The outbox: enqueueing is all or nothing, claims exclude each other while a lease lasts, a
    delivery is sent no more often than it is counted, delivered is final, a due delivery goes
    out (\<open>Outbox\<close>, \<open>Worker\<close>, \<open>System\<close>). The worker's pass and the other entry points are runs of
    the step relation, so its invariants hold of the code's loops.
  \<^item> Identities and clicks: mappings stay unique, a synchronization mirrors the directory, an outage
    disables nobody, a click is applied at most once and a mute silences (\<open>StoreIdentity\<close>,
    \<open>IdentitySync\<close>, \<open>Interaction\<close>).
  \<^item> The edges: what a decoded event may hold, exact mentions, links that stay on the base, cards
    that are well-formed JSON with links that cannot be broken up, buttons that come back as
    clicks, requests to Feishu and GitLab counted and named one by one, replies that tell the
    truth, settings that are usable, migrations that run once and give times the store's text.
  \<^item> Flaws: a numeric id above a million, a last attempt that dies with its worker, a 429 without
    JSON. The properties state what the code does there.

  \<^bold>\<open>Bounds.\<close> Loops over data are structural. \<open>run_worker\<close> and the schedulers take the number of
  passes, as the code has none of its own. Paging of projects and users is a \<open>partial_function\<close>:
  GitLab may name a next page for ever; \<open>GitLabHooks\<close> and \<open>GitLabUsers\<close> prove when it ends.
  The search for the shortest decimal tries at most 17 digits, enough for a 64-bit float. A GitLab
  request is tried at most three times, a send makes at most four requests, a lookup asks for at
  most fifty addresses at a time: the limits of the code.

  \<^bold>\<open>Not modelled.\<close>
  \<^item> Libraries: the HTTP connection and the multiplexer's own answers, SQLite's files and pragmas,
    Feishu's long connection, whose events are arguments. Logging.
  \<^item> Goroutines as such: the token and identity caches have one caller at a time, their mutexes
    are not modelled; a service's parts interleave by whole calls of the store, whose pool has a single
    connection; the router reads one snapshot of the store. Signals, the listener's time limits
    and the shutdown are left out.
  \<^item> Case mapping beyond ASCII, JSON nested deeper than 10,000 levels, address literals in e-mail
    addresses, which are refused.
  \<^item> Columns that hold JSON hold the value itself, or \<open>Corrupt\<close>; the store reads times in UTC only;
    ties of \<open>ORDER BY\<close> go by insertion; the router's preference store is never nil; of several
    errors that a resolver joins the webhook uses only that there are some.
\<close>

end
